(* ===== verification/Prelude.thy ===== *)
theory Prelude imports Main "HOL-Library.Word" begin

text \<open>
  What the components share: the way a Go function can leave (an error value or a run-time panic),
  slices that are bounds-checked as Go checks them, the collections of facts the component proofs
  use, and the generic lemmas on lists and machine integers.

  A Go string is a list of bytes, so it is an Isabelle \<open>string\<close> (a \<open>char\<close> is one byte and
  \<open>length\<close> counts bytes, as \<open>len\<close> does in Go).
\<close>

named_theorems go_string \<open>definitions of the string functions of the Go library\<close>
named_theorems go_slice \<open>slice expressions and their bounds checks\<close>
named_theorems json_simps \<open>encoding and decoding of the protocol's JSON structures\<close>
named_theorems frame_simps \<open>what an operation leaves unchanged\<close>

unbundle bit_operations_syntax

type_synonym byte = char

section \<open>How a call leaves\<close>

text \<open>
  \<open>Failed\<close> is a non-nil \<open>error\<close> result, \<open>Panicked\<close> a run-time panic (an index or slice out of
  range, a nil pointer, a slice too long to allocate).
\<close>

datatype go_exit = Failed string | Panicked string

type_synonym 'a res = "go_exit + 'a"

definition panics :: "'a res \<Rightarrow> bool" where
  "panics r \<longleftrightarrow> (case r of Inl (Panicked _) \<Rightarrow> True | _ \<Rightarrow> False)"

lemma panics_simps [simp]:
  "\<not> panics (Inr x)" "\<not> panics (Inl (Failed e))" "panics (Inl (Panicked e))"
  by (simp_all add: panics_def)

definition bind_res :: "'a res \<Rightarrow> ('a \<Rightarrow> 'b res) \<Rightarrow> 'b res" where
  "bind_res r f = (case r of Inl e \<Rightarrow> Inl e | Inr x \<Rightarrow> f x)"

lemma bind_res_simps [simp]:
  "bind_res (Inl e) f = Inl e" "bind_res (Inr x) f = f x"
  by (simp_all add: bind_res_def)

section \<open>Slice expressions\<close>

text \<open>\<open>s[i:]\<close> and \<open>s[i:j]\<close>: Go panics unless \<open>0 <= i <= j <= len(s)\<close>.\<close>

definition slice_from :: "'a list \<Rightarrow> int \<Rightarrow> 'a list res" where
  "slice_from s i =
     (if 0 \<le> i \<and> i \<le> int (length s) then Inr (drop (nat i) s)
      else Inl (Panicked ''slice bounds out of range''))"

definition slice :: "'a list \<Rightarrow> int \<Rightarrow> int \<Rightarrow> 'a list res" where
  "slice s i j =
     (if 0 \<le> i \<and> i \<le> j \<and> j \<le> int (length s) then Inr (take (nat (j - i)) (drop (nat i) s))
      else Inl (Panicked ''slice bounds out of range''))"

lemma slice_from_nat [go_slice]:
  "n \<le> length s \<Longrightarrow> slice_from s (int n) = Inr (drop n s)"
  by (simp add: slice_from_def)

lemma slice_from_panics [go_slice]: "panics (slice_from s i) \<longleftrightarrow> i < 0 \<or> int (length s) < i"
  by (auto simp: slice_from_def)

lemma slice_panics [go_slice]:
  "panics (slice s i j) \<longleftrightarrow> i < 0 \<or> j < i \<or> int (length s) < j"
  by (auto simp: slice_def)

section \<open>Slices that may be nil\<close>

text \<open>
  Where the code distinguishes the nil slice from an empty one (JSON prints \<open>null\<close> and \<open>[]\<close>), a
  slice is a \<open>list option\<close>; \<open>append\<close> and \<open>len\<close> treat nil as empty.
\<close>

type_synonym 'a slice = "'a list option"

definition elems :: "'a slice \<Rightarrow> 'a list" where
  "elems s = (case s of None \<Rightarrow> [] | Some xs \<Rightarrow> xs)"

definition append_slice :: "'a slice \<Rightarrow> 'a \<Rightarrow> 'a slice" where
  "append_slice s x = Some (elems s @ [x])"

lemma elems_simps [simp]: "elems None = []" "elems (Some xs) = xs"
  by (simp_all add: elems_def)

lemma elems_append_slice [simp]: "elems (append_slice s x) = elems s @ [x]"
  by (simp add: append_slice_def)

section \<open>Bytes as numbers\<close>

definition byte_val :: "byte \<Rightarrow> nat" where
  "byte_val c = of_char c"

lemma byte_val_less [simp]: "byte_val c < 256"
  unfolding byte_val_def by (metis mod_less_divisor of_char_mod_256 zero_less_numeral)

lemma byte_val_inject [simp]: "byte_val c = byte_val d \<longleftrightarrow> c = d"
  by (simp add: byte_val_def)

definition nat_byte :: "nat \<Rightarrow> byte" where
  "nat_byte n = char_of n"

lemma byte_val_nat_byte [simp]: "byte_val (nat_byte n) = n mod 256"
  by (simp add: byte_val_def nat_byte_def)

text \<open>\<open>int(hi)<<8 | int(lo)\<close>: the big-endian length of an interleaved frame.\<close>

definition be16 :: "byte \<Rightarrow> byte \<Rightarrow> nat" where
  "be16 hi lo = push_bit 8 (byte_val hi) OR byte_val lo"

lemma be16_eq: "be16 hi lo = byte_val hi * 256 + byte_val lo"
proof -
  have low: "take_bit 8 (byte_val lo) = byte_val lo"
    by (simp add: take_bit_nat_def)
  have "push_bit 8 (byte_val hi) OR byte_val lo = push_bit 8 (byte_val hi) + byte_val lo"
  proof (rule disjunctive_add [symmetric])
    fix n
    show "\<not> bit (push_bit 8 (byte_val hi)) n \<or> \<not> bit (byte_val lo) n"
      by (metis bit_push_bit_iff bit_take_bit_iff low not_le)
  qed
  then show ?thesis
    by (simp add: be16_def push_bit_eq_mult)
qed

lemma be16_bound: "be16 hi lo < 65536"
  unfolding be16_eq using byte_val_less [of hi] byte_val_less [of lo] by linarith

lemma be16_split: "n < 65536 \<Longrightarrow> be16 (nat_byte (n div 256)) (nat_byte n) = n"
  by (simp add: be16_eq)

section \<open>Signed 64-bit integers\<close>

text \<open>The value an \<open>int64\<close> operation leaves when the exact result is \<open>i\<close>.\<close>

definition wrap64 :: "int \<Rightarrow> int" where
  "wrap64 i = signed_take_bit 63 i"

definition in_int64 :: "int \<Rightarrow> bool" where
  "in_int64 i \<longleftrightarrow> - (2 ^ 63) \<le> i \<and> i < 2 ^ 63"

lemma wrap64_id: "in_int64 i \<Longrightarrow> wrap64 i = i"
  by (simp add: wrap64_def in_int64_def signed_take_bit_int_eq_self)

lemma sint_word_of_int_64: "sint (word_of_int i :: 64 word) = wrap64 i"
  by (simp add: wrap64_def sint_sbintrunc')

section \<open>Lists\<close>

lemma list_all_filter [simp]: "list_all P (filter P xs)"
  by (induction xs) simp_all

lemma drop_length_append [simp]: "drop (length xs) (xs @ ys) = ys"
  by simp

lemma take_length_append [simp]: "take (length xs) (xs @ ys) = xs"
  by simp

text \<open>A separator that occurs in neither first part splits in one way only.\<close>

lemma append_Cons_first_unique:
  "x \<notin> set xs \<Longrightarrow> x \<notin> set ys \<Longrightarrow> xs @ x # us = ys @ x # vs \<longleftrightarrow> xs = ys \<and> us = vs"
proof (induction xs arbitrary: ys)
  case Nil
  then show ?case by (cases ys) auto
next
  case (Cons a xs)
  then show ?case by (cases ys) auto
qed

end
