(* ===== verification/GoStrings.thy ===== *)
theory GoStrings imports Prelude begin

text \<open>
  The functions of Go's \<open>strings\<close> and \<open>strconv\<close> packages the agent calls, on byte strings.
  White space and letter case are those of ASCII: on a string of ASCII bytes every function here
  computes what the Go function does. On other bytes \<open>ToLower\<close>, \<open>TrimSpace\<close> and \<open>Fields\<close> leave
  the byte alone, where Go decodes UTF-8 and also folds or trims the few non-ASCII letters and
  spaces of Unicode.
\<close>

section \<open>Searching\<close>

definition HasPrefix :: "string \<Rightarrow> string \<Rightarrow> bool" where
  "HasPrefix s p \<longleftrightarrow> take (length p) s = p"

fun find_sub :: "string \<Rightarrow> string \<Rightarrow> nat option" where
  "find_sub [] p = (if p = [] then Some 0 else None)"
| "find_sub (c # s) p = (if HasPrefix (c # s) p then Some 0 else map_option Suc (find_sub s p))"

fun find_last :: "string \<Rightarrow> string \<Rightarrow> nat option" where
  "find_last [] p = (if p = [] then Some 0 else None)"
| "find_last (c # s) p =
     (case find_last s p of
        Some n \<Rightarrow> Some (Suc n)
      | None \<Rightarrow> if HasPrefix (c # s) p then Some 0 else None)"

text \<open>\<open>strings.Index\<close> and \<open>strings.LastIndex\<close>, with \<open>-1\<close> for "absent" as in Go.\<close>

definition Index :: "string \<Rightarrow> string \<Rightarrow> int" where
  "Index s p = (case find_sub s p of None \<Rightarrow> -1 | Some n \<Rightarrow> int n)"

definition LastIndex :: "string \<Rightarrow> string \<Rightarrow> int" where
  "LastIndex s p = (case find_last s p of None \<Rightarrow> -1 | Some n \<Rightarrow> int n)"

definition Contains :: "string \<Rightarrow> string \<Rightarrow> bool" where
  "Contains s p \<longleftrightarrow> find_sub s p \<noteq> None"

definition TrimPrefix :: "string \<Rightarrow> string \<Rightarrow> string" where
  "TrimPrefix s p = (if HasPrefix s p then drop (length p) s else s)"

lemma HasPrefix_append [simp]: "HasPrefix (p @ s) p"
  by (simp add: HasPrefix_def)

lemma HasPrefix_iff: "HasPrefix s p \<longleftrightarrow> (\<exists>t. s = p @ t)"
  unfolding HasPrefix_def by (metis append_eq_conv_conj append_take_drop_id)

lemma HasPrefix_Nil [simp]: "HasPrefix s []"
  by (simp add: HasPrefix_def)

lemma HasPrefix_length: "HasPrefix s p \<Longrightarrow> length p \<le> length s"
  by (auto simp: HasPrefix_iff)

lemma find_sub_Some:
  "find_sub s p = Some n \<Longrightarrow> n + length p \<le> length s \<and> take (length p) (drop n s) = p"
proof (induction s arbitrary: n)
  case Nil
  then show ?case by (auto split: if_splits)
next
  case (Cons c s)
  show ?case
  proof (cases "HasPrefix (c # s) p")
    case True
    with Cons.prems show ?thesis
      using HasPrefix_length [OF True] by (auto simp: HasPrefix_def)
  next
    case False
    with Cons.prems obtain m where "find_sub s p = Some m" "n = Suc m" by auto
    with Cons.IH [of m] show ?thesis by auto
  qed
qed

lemma find_sub_None_iff: "find_sub s p = None \<longleftrightarrow> (\<forall>a b. s \<noteq> a @ p @ b)"
proof (induction s)
  case Nil
  then show ?case by auto
next
  case (Cons c s)
  have "(\<exists>a b. c # s = a @ p @ b) \<longleftrightarrow> HasPrefix (c # s) p \<or> (\<exists>a b. s = a @ p @ b)"
  proof
    assume "\<exists>a b. c # s = a @ p @ b"
    then obtain a b where ab: "c # s = a @ p @ b" by blast
    show "HasPrefix (c # s) p \<or> (\<exists>a b. s = a @ p @ b)"
    proof (cases a)
      case Nil
      with ab show ?thesis by (auto simp: HasPrefix_iff)
    next
      case (Cons d a')
      with ab show ?thesis by auto
    qed
  next
    assume "HasPrefix (c # s) p \<or> (\<exists>a b. s = a @ p @ b)"
    then show "\<exists>a b. c # s = a @ p @ b"
      by (metis HasPrefix_iff append_Cons append_Nil)
  qed
  with Cons.IH show ?case by auto
qed

lemma Contains_iff: "Contains s p \<longleftrightarrow> (\<exists>a b. s = a @ p @ b)"
  by (simp add: Contains_def find_sub_None_iff)

lemma find_last_Some:
  "find_last s p = Some n \<Longrightarrow> n + length p \<le> length s \<and> take (length p) (drop n s) = p"
proof (induction s arbitrary: n)
  case Nil
  then show ?case by (auto split: if_splits)
next
  case (Cons c s)
  then show ?case
    using HasPrefix_length [of "c # s" p]
    by (force split: option.splits if_splits simp: HasPrefix_def)
qed

lemma find_last_single_None: "find_last s [c] = None \<longleftrightarrow> c \<notin> set s"
  by (induction s) (auto simp: HasPrefix_def split: option.splits)

lemma find_last_single_append:
  "c \<notin> set t \<Longrightarrow> find_last (s @ c # t) [c] = Some (length s)"
proof (induction s)
  case Nil
  then have "find_last t [c] = None" by (simp add: find_last_single_None)
  then show ?case by (simp add: HasPrefix_def)
qed simp

lemma find_sub_append:
  "find_sub (p @ s) p = Some 0"
proof (cases "p @ s")
  case (Cons c t)
  then have "HasPrefix (c # t) p" by (metis HasPrefix_append)
  with Cons show ?thesis by simp
qed simp

section \<open>Splitting\<close>

function Split :: "string \<Rightarrow> string \<Rightarrow> string list" where
  "Split s sep =
     (if sep = [] then map (\<lambda>c. [c]) s
      else case find_sub s sep of
             None \<Rightarrow> [s]
           | Some n \<Rightarrow> take n s # Split (drop (n + length sep) s) sep)"
  by pat_completeness auto
termination
proof (relation "measure (\<lambda>(s, sep). length s)")
  fix s sep n
  assume "\<not> sep = []" and n: "find_sub s sep = Some n"
  then have "0 < length sep" by simp
  moreover have "n + length sep \<le> length s" using find_sub_Some [OF n] by blast
  ultimately have "length s - (n + length sep) < length s" by linarith
  then show "((drop (n + length sep) s, sep), s, sep) \<in> measure (\<lambda>(s, sep). length s)"
    by simp
qed simp

declare Split.simps [simp del]

lemma Split_nonempty: "s \<noteq> [] \<or> sep \<noteq> [] \<Longrightarrow> Split s sep \<noteq> []"
  by (subst Split.simps) (auto split: option.splits)

text \<open>\<open>strings.SplitN(s, sep, 2)[0]\<close>: what comes before the first separator.\<close>

definition SplitN2_fst :: "string \<Rightarrow> string \<Rightarrow> string" where
  "SplitN2_fst s sep = (case find_sub s sep of None \<Rightarrow> s | Some n \<Rightarrow> take n s)"

definition is_space :: "byte \<Rightarrow> bool" where
  "is_space c \<longleftrightarrow> byte_val c \<in> {9, 10, 11, 12, 13, 32}"

definition TrimSpace :: "string \<Rightarrow> string" where
  "TrimSpace s = rev (dropWhile is_space (rev (dropWhile is_space s)))"

function Fields :: "string \<Rightarrow> string list" where
  "Fields s =
     (let t = dropWhile is_space s
      in if t = [] then []
         else takeWhile (\<lambda>c. \<not> is_space c) t # Fields (dropWhile (\<lambda>c. \<not> is_space c) t))"
  by pat_completeness auto
termination
proof (relation "measure length")
  fix s :: string and t
  assume t: "t = dropWhile is_space s" and ne: "\<not> t = []"
  from ne obtain c u where cu: "t = c # u" by (meson neq_Nil_conv)
  with t have "\<not> is_space c" by (metis hd_dropWhile list.sel(1) ne)
  with cu have "length (dropWhile (\<lambda>c. \<not> is_space c) t) < length t"
    by (simp add: length_dropWhile_le less_Suc_eq_le)
  also have "\<dots> \<le> length s" using t by (simp add: length_dropWhile_le)
  finally show "(dropWhile (\<lambda>c. \<not> is_space c) t, s) \<in> measure length" by simp
qed simp

declare Fields.simps [simp del]

lemma set_TrimSpace: "set (TrimSpace s) \<subseteq> set s"
  proof -
  have "set (dropWhile is_space t) \<subseteq> set t" for t
    by (rule subsetI) (rule set_dropWhileD)
  from this [of "rev (dropWhile is_space s)"] this [of s] show ?thesis
    by (simp add: TrimSpace_def)
qed

lemma length_TrimSpace: "length (TrimSpace s) \<le> length s"
  unfolding TrimSpace_def by (metis length_dropWhile_le length_rev order.trans)

lemma TrimSpace_hd: "TrimSpace s \<noteq> [] \<Longrightarrow> \<not> is_space (hd (TrimSpace s))"
proof -
  assume ne: "TrimSpace s \<noteq> []"
  define t where "t = dropWhile is_space s"
  have eq: "t = TrimSpace s @ rev (takeWhile is_space (rev t))"
    unfolding TrimSpace_def t_def by (metis rev_append rev_rev_ident takeWhile_dropWhile_id)
  with ne have "hd t = hd (TrimSpace s)" by (metis hd_append2)
  moreover have "t \<noteq> []" using eq ne by auto
  ultimately show ?thesis unfolding t_def by (metis hd_dropWhile)
qed

lemma TrimSpace_last: "TrimSpace s \<noteq> [] \<Longrightarrow> \<not> is_space (last (TrimSpace s))"
  unfolding TrimSpace_def by (metis hd_dropWhile last_rev rev.simps(1) rev_rev_ident)

lemma TrimSpace_fixed:
  assumes "s = [] \<or> (\<not> is_space (hd s) \<and> \<not> is_space (last s))"
  shows "TrimSpace s = s"
proof (cases s)
  case Nil
  then show ?thesis by (simp add: TrimSpace_def)
next
  case (Cons c t)
  with assms have "dropWhile is_space s = s" by simp
  moreover have "dropWhile is_space (rev s) = rev s"
  proof (cases "rev s")
    case (Cons d u)
    then have "last s = d" by (metis last_rev list.sel(1) rev_rev_ident)
    with Cons assms \<open>s = c # t\<close> show ?thesis by auto
  qed simp
  ultimately show ?thesis by (simp add: TrimSpace_def)
qed

lemma TrimSpace_idem [simp]: "TrimSpace (TrimSpace s) = TrimSpace s"
  using TrimSpace_fixed TrimSpace_hd TrimSpace_last by metis

section \<open>Case\<close>

definition lower_byte :: "byte \<Rightarrow> byte" where
  "lower_byte c = (if 65 \<le> byte_val c \<and> byte_val c \<le> 90 then nat_byte (byte_val c + 32) else c)"

definition ToLower :: "string \<Rightarrow> string" where
  "ToLower s = map lower_byte s"

lemma length_ToLower [simp]: "length (ToLower s) = length s"
  by (simp add: ToLower_def)

lemma byte_val_lower_byte:
  "byte_val (lower_byte c) =
     (if 65 \<le> byte_val c \<and> byte_val c \<le> 90 then byte_val c + 32 else byte_val c)"
  by (auto simp: lower_byte_def)

lemma lower_byte_idem [simp]: "lower_byte (lower_byte c) = lower_byte c"
proof -
  have "byte_val (lower_byte (lower_byte c)) = byte_val (lower_byte c)"
    unfolding byte_val_lower_byte [of "lower_byte c"] by (auto simp: byte_val_lower_byte)
  then show ?thesis by simp
qed

lemma ToLower_idem [simp]: "ToLower (ToLower s) = ToLower s"
  by (simp add: ToLower_def)

lemma ToLower_append: "ToLower (s @ t) = ToLower s @ ToLower t"
  by (simp add: ToLower_def)

section \<open>Numbers\<close>

definition is_digit :: "byte \<Rightarrow> bool" where
  "is_digit c \<longleftrightarrow> 48 \<le> byte_val c \<and> byte_val c \<le> 57"

definition digits_val :: "string \<Rightarrow> nat" where
  "digits_val s = foldl (\<lambda>n c. 10 * n + (byte_val c - 48)) 0 s"

text \<open>
  \<open>strconv.Atoi\<close> on a 64-bit target: the value and whether an error came with it. A syntax error
  gives 0; a number out of range gives the nearest \<open>int\<close> together with the error.
\<close>

definition Atoi :: "string \<Rightarrow> int \<times> bool" where
  "Atoi s =
     (let neg = (s \<noteq> [] \<and> hd s = CHR ''-'');
          d = (if s \<noteq> [] \<and> (hd s = CHR ''-'' \<or> hd s = CHR ''+'') then tl s else s)
      in if d = [] \<or> \<not> list_all is_digit d then (0, False)
         else let v = (if neg then - int (digits_val d) else int (digits_val d))
              in if v < - (2 ^ 63) then (- (2 ^ 63), False)
                 else if 2 ^ 63 \<le> v then (2 ^ 63 - 1, False)
                 else (v, True))"

lemma Atoi_in_int64: "in_int64 (fst (Atoi s))"
  by (auto simp: Atoi_def Let_def in_int64_def)

fun show_nat :: "nat \<Rightarrow> string" where
  "show_nat n = (if n < 10 then [nat_byte (48 + n)] else show_nat (n div 10) @ [nat_byte (48 + n mod 10)])"

declare show_nat.simps [simp del]

definition Itoa :: "int \<Rightarrow> string" where
  "Itoa i = (if i < 0 then CHR ''-'' # show_nat (nat (- i)) else show_nat (nat i))"

lemma digits_val_snoc: "digits_val (s @ [c]) = 10 * digits_val s + (byte_val c - 48)"
  by (simp add: digits_val_def)

lemma show_nat_nonempty: "show_nat n \<noteq> []"
  by (subst show_nat.simps) simp

lemma is_digit_nat_byte: "k < 10 \<Longrightarrow> is_digit (nat_byte (48 + k))"
  by (simp add: is_digit_def)

lemma show_nat_digits: "list_all is_digit (show_nat n)"
proof (induction n rule: show_nat.induct)
  case (1 n)
  then show ?case
    by (cases "n < 10"; subst show_nat.simps) (simp_all add: is_digit_nat_byte)
qed

lemma digits_val_show_nat: "digits_val (show_nat n) = n"
proof (induction n rule: show_nat.induct)
  case (1 n)
  show ?case
  proof (cases "n < 10")
    case True
    then show ?thesis by (subst show_nat.simps) (simp add: digits_val_def)
  next
    case False
    with "1.IH" show ?thesis
      by (subst show_nat.simps) (simp add: digits_val_snoc)
  qed
qed

lemma hd_show_nat_digit: "is_digit (hd (show_nat n))"
  using show_nat_digits [of n] show_nat_nonempty [of n] by (cases "show_nat n") auto

lemma Atoi_Itoa: "in_int64 i \<Longrightarrow> Atoi (Itoa i) = (i, True)"
proof -
  assume i: "in_int64 i"
  have sgn: "hd (show_nat n) \<noteq> CHR ''-''" "hd (show_nat n) \<noteq> CHR ''+''" for n
    using hd_show_nat_digit [of n] by (auto simp: is_digit_def byte_val_def)
  show ?thesis
    using i show_nat_digits show_nat_nonempty sgn
    by (auto simp: Atoi_def Itoa_def Let_def digits_val_show_nat in_int64_def)
qed

lemmas string_defs [go_string] =
  HasPrefix_def Index_def LastIndex_def Contains_def TrimPrefix_def SplitN2_fst_def TrimSpace_def
  ToLower_def lower_byte_def is_space_def

section \<open>Splitting joined text\<close>

fun join_with :: "string \<Rightarrow> string list \<Rightarrow> string" where
  "join_with sep [] = []"
| "join_with sep [x] = x"
| "join_with sep (x # y # zs) = x @ sep @ join_with sep (y # zs)"

lemma HasPrefix_hd: "p \<noteq> [] \<Longrightarrow> HasPrefix (c # s) p \<Longrightarrow> c = hd p"
  by (auto simp: HasPrefix_iff) (metis append_eq_Cons_conv list.sel(1))

lemma find_sub_first:
  "p \<noteq> [] \<Longrightarrow> hd p \<notin> set a \<Longrightarrow> find_sub (a @ p @ b) p = Some (length a)"
proof (induction a)
  case Nil
  then show ?case by (simp add: find_sub_append)
next
  case (Cons c a)
  then have "\<not> HasPrefix (c # a @ p @ b) p" using HasPrefix_hd by fastforce
  with Cons show ?case by simp
qed

lemma find_sub_absent: "p \<noteq> [] \<Longrightarrow> hd p \<notin> set s \<Longrightarrow> find_sub s p = None"
  unfolding find_sub_None_iff by (metis UnCI hd_in_set set_append)

lemma Split_first:
  "sep \<noteq> [] \<Longrightarrow> hd sep \<notin> set x \<Longrightarrow> Split (x @ sep @ s) sep = x # Split s sep"
  by (subst Split.simps) (simp add: find_sub_first)

lemma Split_last: "sep \<noteq> [] \<Longrightarrow> hd sep \<notin> set x \<Longrightarrow> Split x sep = [x]"
  by (subst Split.simps) (simp add: find_sub_absent)

lemma Split_join:
  "sep \<noteq> [] \<Longrightarrow> xs \<noteq> [] \<Longrightarrow> (\<And>x. x \<in> set xs \<Longrightarrow> hd sep \<notin> set x) \<Longrightarrow>
     Split (join_with sep xs) sep = xs"
  by (induction sep xs rule: join_with.induct) (auto simp: Split_first Split_last)

end
