(* ===== verification/GoJson.thy ===== *)
theory GoJson imports GoStrings begin

text \<open>
  JSON values and the rules by which Go's \<open>encoding/json\<close> reads them into structures: a member sets
  the field of its exact name, else of the name that agrees up to (ASCII) case; other members are
  ignored; members are read in order, so a later one overwrites; \<open>null\<close> leaves a plain field as it
  is and makes a pointer nil; a value of the wrong kind is an error. The model starts from the
  value a text denotes (a text that is not JSON is handled where messages arrive, as \<open>None\<close>).
  A string value is any byte string here; the encoder writes only UTF-8.
  A number literal with a fraction or an exponent, which no integer field accepts, is \<open>JFrac\<close>.
\<close>

datatype json =
    JNull
  | JBool bool
  | JInt int
  | JFrac string
  | JStr string
  | JArr "json list"
  | JObj "(string \<times> json) list"

text \<open>A decoder reads a value over the field's present content; \<open>None\<close> is an error.\<close>

type_synonym 'a decoder = "json \<Rightarrow> 'a \<Rightarrow> 'a option"

fun dec_string :: "string decoder" where
  "dec_string (JStr s) _ = Some s"
| "dec_string JNull v = Some v"
| "dec_string _ _ = None"

fun dec_bool :: "bool decoder" where
  "dec_bool (JBool b) _ = Some b"
| "dec_bool JNull v = Some v"
| "dec_bool _ _ = None"

fun dec_int :: "int decoder" where
  "dec_int (JInt i) _ = (if in_int64 i then Some i else None)"
| "dec_int JNull v = Some v"
| "dec_int _ _ = None"

fun dec_uint16 :: "nat decoder" where
  "dec_uint16 (JInt i) _ = (if 0 \<le> i \<and> i < 65536 then Some (nat i) else None)"
| "dec_uint16 JNull v = Some v"
| "dec_uint16 _ _ = None"

text \<open>\<open>json.RawMessage\<close> keeps the value itself, also \<open>null\<close>.\<close>

definition dec_raw :: "json option decoder" where
  "dec_raw j _ = Some (Some j)"

text \<open>A pointer field: \<open>null\<close> is nil, anything else is read into the (new) target.\<close>

definition dec_ptr :: "'a \<Rightarrow> 'a decoder \<Rightarrow> 'a option decoder" where
  "dec_ptr zero d j cur =
     (if j = JNull then Some None
      else map_option Some (d j (case cur of None \<Rightarrow> zero | Some v \<Rightarrow> v)))"

fun dec_elems :: "'a \<Rightarrow> 'a decoder \<Rightarrow> json list \<Rightarrow> 'a list option" where
  "dec_elems zero d [] = Some []"
| "dec_elems zero d (j # js) =
     (case d j zero of None \<Rightarrow> None
      | Some x \<Rightarrow> map_option ((#) x) (dec_elems zero d js))"

fun dec_slice :: "'a \<Rightarrow> 'a decoder \<Rightarrow> 'a slice decoder" where
  "dec_slice zero d (JArr js) _ = map_option Some (dec_elems zero d js)"
| "dec_slice zero d JNull _ = Some None"
| "dec_slice zero d _ _ = None"

type_synonym 'r fields = "(string \<times> 'r decoder) list"

definition find_field :: "'r fields \<Rightarrow> string \<Rightarrow> 'r decoder option" where
  "find_field fs k =
     (case map_of fs k of
        Some d \<Rightarrow> Some d
      | None \<Rightarrow> map_of (map (\<lambda>(n, d). (ToLower n, d)) fs) (ToLower k))"

fun dec_members :: "'r fields \<Rightarrow> (string \<times> json) list \<Rightarrow> 'r \<Rightarrow> 'r option" where
  "dec_members fs [] r = Some r"
| "dec_members fs ((k, j) # ms) r =
     (case find_field fs k of
        None \<Rightarrow> dec_members fs ms r
      | Some d \<Rightarrow> (case d j r of None \<Rightarrow> None | Some r' \<Rightarrow> dec_members fs ms r'))"

fun dec_struct :: "'r fields \<Rightarrow> 'r decoder" where
  "dec_struct fs (JObj ms) r = dec_members fs ms r"
| "dec_struct fs JNull r = Some r"
| "dec_struct fs _ r = None"

text \<open>A field given by how to read it and how to set it.\<close>

definition fld :: "('r \<Rightarrow> 'a) \<Rightarrow> ('a \<Rightarrow> 'r \<Rightarrow> 'r) \<Rightarrow> 'a decoder \<Rightarrow> 'r decoder" where
  "fld get put d j r = map_option (\<lambda>v. put v r) (d j (get r))"

text \<open>\<open>json.Unmarshal\<close> of the raw message \<open>raw\<close>: an absent (empty) message is an error.\<close>

definition unmarshal :: "'a decoder \<Rightarrow> 'a \<Rightarrow> json option \<Rightarrow> 'a option" where
  "unmarshal d zero raw = (case raw of None \<Rightarrow> None | Some j \<Rightarrow> d j zero)"

section \<open>UTF-8\<close>

text \<open>
  A Go string is any sequence of bytes; JSON text is UTF-8. The encoder replaces every byte that
  does not belong to a well-formed UTF-8 sequence by U+FFFD. \<open>tails b\<close> are the ranges of the bytes
  that may follow the lead byte \<open>b\<close>, as in the table of \<open>unicode/utf8\<close>: overlong forms,
  surrogates and code points beyond U+10FFFF are not well formed.
\<close>

definition tails :: "nat \<Rightarrow> (nat \<times> nat) list option" where
  "tails b =
     (if b < 0x80 then Some []
      else if b < 0xC2 then None
      else if b < 0xE0 then Some [(0x80, 0xBF)]
      else if b < 0xF0
        then Some [if b = 0xE0 then (0xA0, 0xBF) else if b = 0xED then (0x80, 0x9F) else (0x80, 0xBF),
                   (0x80, 0xBF)]
      else if b < 0xF5
        then Some [if b = 0xF0 then (0x90, 0xBF) else if b = 0xF4 then (0x80, 0x8F) else (0x80, 0xBF),
                   (0x80, 0xBF), (0x80, 0xBF)]
      else None)"

fun in_ranges :: "(nat \<times> nat) list \<Rightarrow> string \<Rightarrow> bool" where
  "in_ranges [] s = True"
| "in_ranges (r # rs) [] = False"
| "in_ranges ((lo, hi) # rs) (c # s) = (lo \<le> byte_val c \<and> byte_val c \<le> hi \<and> in_ranges rs s)"

text \<open>The length of the sequence a string starts with, 0 when it is not well formed.\<close>

fun utf8_len :: "string \<Rightarrow> nat" where
  "utf8_len [] = 0"
| "utf8_len (c # s) =
     (case tails (byte_val c) of None \<Rightarrow> 0
      | Some rs \<Rightarrow> (if in_ranges rs s then Suc (length rs) else 0))"

function utf8 :: "string \<Rightarrow> bool" where
  "utf8 s =
     (if s = [] then True else if utf8_len s = 0 then False else utf8 (drop (utf8_len s) s))"
  by auto
termination by (relation "measure length") auto

definition replacement :: string where
  "replacement = map nat_byte [0xEF, 0xBF, 0xBD]"

function to_valid :: "string \<Rightarrow> string" where
  "to_valid s =
     (if s = [] then []
      else let n = utf8_len s in
        if n = 0 then replacement @ to_valid (tl s) else take n s @ to_valid (drop n s))"
  by auto
termination by (relation "measure length") (auto simp: Let_def)

declare utf8.simps [simp del] to_valid.simps [simp del]

lemma utf8_Nil [simp]: "utf8 []" and to_valid_Nil [simp]: "to_valid [] = []"
  by (simp_all add: utf8.simps to_valid.simps)

lemma in_ranges_take: "in_ranges rs s \<Longrightarrow> in_ranges rs (take (length rs) s @ t)"
  by (induction rs s rule: in_ranges.induct) auto

lemma utf8_len_take: "utf8_len s \<noteq> 0 \<Longrightarrow> utf8_len (take (utf8_len s) s @ t) = utf8_len s"
  by (cases s) (auto simp: in_ranges_take split: option.splits if_splits)

lemma in_ranges_length: "in_ranges rs s \<Longrightarrow> length rs \<le> length s"
  by (induction rs s rule: in_ranges.induct) auto

lemma utf8_len_le: "utf8_len s \<le> length s"
  by (cases s) (auto dest: in_ranges_length split: option.split)

lemma utf8_prefix: "utf8_len s \<noteq> 0 \<Longrightarrow> utf8 t \<Longrightarrow> utf8 (take (utf8_len s) s @ t)"
  by (subst utf8.simps) (simp add: utf8_len_take utf8_len_le)

lemma utf8_replacement: "utf8 t \<Longrightarrow> utf8 (replacement @ t)"
  by (subst utf8.simps) (simp add: replacement_def tails_def)

text \<open>What is written is UTF-8, and UTF-8 is written as it is.\<close>

lemma utf8_to_valid [simp]: "utf8 (to_valid s)"
  by (induction s rule: to_valid.induct)
     (subst to_valid.simps, simp add: Let_def utf8_prefix utf8_replacement)

lemma to_valid_utf8 [simp]: "utf8 s \<Longrightarrow> to_valid s = s"
proof (induction s rule: utf8.induct)
  case (1 s)
  then show ?case by (cases "s = []") (auto simp: to_valid.simps [of s] utf8.simps [of s] Let_def)
qed

definition ascii :: "string \<Rightarrow> bool" where
  "ascii s \<longleftrightarrow> list_all (\<lambda>c. byte_val c < 128) s"

lemma utf8_ascii: "ascii s \<Longrightarrow> utf8 s"
  by (induction s) (simp_all add: ascii_def utf8.simps [of "_ # _"] tails_def)

lemma to_valid_ascii: "ascii s \<Longrightarrow> to_valid s = s"
  by (simp add: utf8_ascii)

lemmas ascii_eval = utf8_ascii ascii_def byte_val_def

lemma utf8_len_0: "utf8_len s = 0 \<Longrightarrow> s \<noteq> [] \<Longrightarrow> \<not> utf8 s"
  by (simp add: utf8.simps [of s])

lemma to_valid_id_iff: "to_valid s = s \<longleftrightarrow> utf8 s"
  by (metis to_valid_utf8 utf8_to_valid)

lemma to_valid_eq_Nil [simp]: "to_valid s = [] \<longleftrightarrow> s = []"
  by (subst to_valid.simps) (auto simp: Let_def replacement_def)

section \<open>Encoders\<close>

text \<open>A string value, as the encoder writes it.\<close>

definition jstr :: "string \<Rightarrow> json" where
  "jstr s = JStr (to_valid s)"

definition enc_ptr :: "('a \<Rightarrow> json) \<Rightarrow> 'a option \<Rightarrow> json" where
  "enc_ptr e v = (case v of None \<Rightarrow> JNull | Some x \<Rightarrow> e x)"

definition enc_slice :: "('a \<Rightarrow> json) \<Rightarrow> 'a slice \<Rightarrow> json" where
  "enc_slice e v = (case v of None \<Rightarrow> JNull | Some xs \<Rightarrow> JArr (map e xs))"

definition enc_strings :: "string list \<Rightarrow> json" where
  "enc_strings xs = JArr (map jstr xs)"

definition member :: "json \<Rightarrow> string \<Rightarrow> json option" where
  "member j k = (case j of JObj ms \<Rightarrow> map_of ms k | _ \<Rightarrow> None)"

lemmas json_decoders [json_simps] =
  fld_def find_field_def dec_raw_def unmarshal_def enc_slice_def enc_ptr_def dec_ptr_def

section \<open>The contract of an encoder and a decoder\<close>

text \<open>
  What a message type promises: within \<open>valid\<close>, decoding over the zero value gives back what was
  encoded. Slices, and pointers to values that do not print as \<open>null\<close>, inherit it.
\<close>

locale json_codec =
  fixes enc :: "'a \<Rightarrow> json" and dec :: "'a decoder" and zero :: 'a and valid :: "'a \<Rightarrow> bool"
  assumes roundtrip: "valid x \<Longrightarrow> dec (enc x) zero = Some x"
begin

lemma enc_inject: "valid x \<Longrightarrow> valid y \<Longrightarrow> enc x = enc y \<Longrightarrow> x = y"
  by (metis option.inject roundtrip)

lemma unmarshal_enc: "valid x \<Longrightarrow> unmarshal dec zero (Some (enc x)) = Some x"
  by (simp add: unmarshal_def roundtrip)

lemma elems_roundtrip: "list_all valid xs \<Longrightarrow> dec_elems zero dec (map enc xs) = Some xs"
  by (induction xs) (simp_all add: roundtrip)

lemma slice_roundtrip:
  "list_all valid (elems s) \<Longrightarrow> dec_slice zero dec (enc_slice enc s) s0 = Some s"
  by (cases s) (simp_all add: enc_slice_def elems_roundtrip)

lemma ptr_roundtrip:
  "(\<And>x. p = Some x \<Longrightarrow> valid x \<and> enc x \<noteq> JNull) \<Longrightarrow>
     dec_ptr zero dec (enc_ptr enc p) None = Some p"
  by (cases p) (simp_all add: dec_ptr_def enc_ptr_def roundtrip)

end

interpretation string_codec: json_codec jstr dec_string "''''" utf8
  by unfold_locales (simp add: jstr_def)

interpretation uint16_codec: json_codec "\<lambda>n. JInt (int n)" dec_uint16 0 "\<lambda>n. n < 65536"
  by unfold_locales simp

end
