(* ===== verification/GoCrypto.thy ===== *)
theory GoCrypto imports GoStrings begin

text \<open>
  The functions of Go's \<open>crypto/md5\<close>, \<open>encoding/hex\<close> and \<open>encoding/base64\<close> the RTSP
  authentication uses, on byte strings, and \<open>GetMD5Hash\<close> of \<open>rtsp_client.go\<close>.
\<close>

section \<open>MD5\<close>

type_synonym u32 = "32 word"

definition md5_K :: "u32 list" where
  "md5_K =
    [0xd76aa478, 0xe8c7b756, 0x242070db, 0xc1bdceee, 0xf57c0faf, 0x4787c62a, 0xa8304613, 0xfd469501,
     0x698098d8, 0x8b44f7af, 0xffff5bb1, 0x895cd7be, 0x6b901122, 0xfd987193, 0xa679438e, 0x49b40821,
     0xf61e2562, 0xc040b340, 0x265e5a51, 0xe9b6c7aa, 0xd62f105d, 0x02441453, 0xd8a1e681, 0xe7d3fbc8,
     0x21e1cde6, 0xc33707d6, 0xf4d50d87, 0x455a14ed, 0xa9e3e905, 0xfcefa3f8, 0x676f02d9, 0x8d2a4c8a,
     0xfffa3942, 0x8771f681, 0x6d9d6122, 0xfde5380c, 0xa4beea44, 0x4bdecfa9, 0xf6bb4b60, 0xbebfbc70,
     0x289b7ec6, 0xeaa127fa, 0xd4ef3085, 0x04881d05, 0xd9d4d039, 0xe6db99e5, 0x1fa27cf8, 0xc4ac5665,
     0xf4292244, 0x432aff97, 0xab9423a7, 0xfc93a039, 0x655b59c3, 0x8f0ccc92, 0xffeff47d, 0x85845dd1,
     0x6fa87e4f, 0xfe2ce6e0, 0xa3014314, 0x4e0811a1, 0xf7537e82, 0xbd3af235, 0x2ad7d2bb, 0xeb86d391]"

definition md5_shift :: "nat \<Rightarrow> nat" where
  "md5_shift i =
     ([[7, 12, 17, 22], [5, 9, 14, 20], [4, 11, 16, 23], [6, 10, 15, 21]] ! (i div 16)) ! (i mod 4)"

definition le_word :: "string \<Rightarrow> u32" where
  "le_word s = foldr (\<lambda>c w. push_bit 8 w OR word_of_nat (byte_val c)) s 0"

definition word_le :: "u32 \<Rightarrow> string" where
  "word_le w = map (\<lambda>i. nat_byte (unat (take_bit 8 (drop_bit (8 * i) w)))) [0..<4]"

fun chunks :: "nat \<Rightarrow> nat \<Rightarrow> string \<Rightarrow> string list" where
  "chunks k 0 s = []"
| "chunks k (Suc n) s = take k s # chunks k n (drop k s)"

definition md5_pad :: "string \<Rightarrow> string" where
  "md5_pad s =
     s @ [nat_byte 128] @ replicate ((119 - length s mod 64) mod 64) (nat_byte 0) @
     map (\<lambda>i. nat_byte ((8 * length s) div 256 ^ i)) [0..<8]"

type_synonym md5_state = "u32 \<times> u32 \<times> u32 \<times> u32"

definition md5_step :: "u32 list \<Rightarrow> nat \<Rightarrow> md5_state \<Rightarrow> md5_state" where
  "md5_step m i st =
     (case st of (a, b, c, d) \<Rightarrow>
        let (f, g) =
          (if i < 16 then ((b AND c) OR (NOT b AND d), i)
           else if i < 32 then ((d AND b) OR (NOT d AND c), (5 * i + 1) mod 16)
           else if i < 48 then (b XOR c XOR d, (3 * i + 5) mod 16)
           else (c XOR (b OR NOT d), (7 * i) mod 16))
        in (d, b + word_rotl (md5_shift i) (a + f + md5_K ! i + m ! g), b, c))"

definition md5_block :: "string \<Rightarrow> md5_state \<Rightarrow> md5_state" where
  "md5_block blk st =
     (let m = map le_word (chunks 4 16 blk)
      in case (st, fold (md5_step m) [0..<64] st) of
           ((a0, b0, c0, d0), (a, b, c, d)) \<Rightarrow> (a0 + a, b0 + b, c0 + c, d0 + d))"

definition md5_Sum :: "string \<Rightarrow> string" where
  "md5_Sum s =
     (let p = md5_pad s
      in case fold md5_block (chunks 64 (length p div 64) p)
                (0x67452301, 0xefcdab89, 0x98badcfe, 0x10325476) of
           (a, b, c, d) \<Rightarrow> word_le a @ word_le b @ word_le c @ word_le d)"

section \<open>Hexadecimal and base 64\<close>

definition hex_digit :: "nat \<Rightarrow> byte" where
  "hex_digit n = ''0123456789abcdef'' ! n"

definition hex_EncodeToString :: "string \<Rightarrow> string" where
  "hex_EncodeToString s =
     concat (map (\<lambda>c. [hex_digit (byte_val c div 16), hex_digit (byte_val c mod 16)]) s)"

definition b64_digit :: "nat \<Rightarrow> byte" where
  "b64_digit n = ''ABCDEFGHIJKLMNOPQRSTUVWXYZabcdefghijklmnopqrstuvwxyz0123456789+/'' ! (n mod 64)"

fun b64_EncodeToString :: "string \<Rightarrow> string" where
  "b64_EncodeToString [] = []"
| "b64_EncodeToString [a] =
     (let n = byte_val a * 65536 in [b64_digit (n div 262144), b64_digit (n div 4096), CHR ''='', CHR ''=''])"
| "b64_EncodeToString [a, b] =
     (let n = byte_val a * 65536 + byte_val b * 256
      in [b64_digit (n div 262144), b64_digit (n div 4096), b64_digit (n div 64), CHR ''=''])"
| "b64_EncodeToString (a # b # c # s) =
     (let n = byte_val a * 65536 + byte_val b * 256 + byte_val c
      in [b64_digit (n div 262144), b64_digit (n div 4096), b64_digit (n div 64), b64_digit n] @
         b64_EncodeToString s)"

section \<open>\<open>GetMD5Hash\<close>\<close>

definition GetMD5Hash :: "string \<Rightarrow> string" where
  "GetMD5Hash text = hex_EncodeToString (md5_Sum text)"

lemma length_md5_Sum [simp]: "length (md5_Sum s) = 16"
  by (simp add: md5_Sum_def word_le_def Let_def split: prod.splits)

lemma length_hex [simp]: "length (hex_EncodeToString s) = 2 * length s"
  by (induction s) (simp_all add: hex_EncodeToString_def)

lemma hex_digits:
  "n < 16 \<Longrightarrow> hex_digit n \<in> set ''0123456789abcdef''"
  unfolding hex_digit_def by (rule nth_mem) simp

lemma set_hex: "set (hex_EncodeToString s) \<subseteq> set ''0123456789abcdef''"
proof (induction s)
  case Nil
  then show ?case by (simp add: hex_EncodeToString_def)
next
  case (Cons c s)
  have "byte_val c div 16 < 16" using byte_val_less [of c] by linarith
  then have "hex_digit (byte_val c div 16) \<in> set ''0123456789abcdef''"
    "hex_digit (byte_val c mod 16) \<in> set ''0123456789abcdef''"
    by (simp_all only: hex_digits mod_less_divisor zero_less_numeral)
  moreover have "set (hex_EncodeToString (c # s)) =
      {hex_digit (byte_val c div 16), hex_digit (byte_val c mod 16)} \<union> set (hex_EncodeToString s)"
    by (auto simp: hex_EncodeToString_def)
  ultimately show ?case using Cons by (simp only: insert_subset Un_subset_iff empty_subsetI simp_thms)
qed

lemma GetMD5Hash_hex: "length (GetMD5Hash s) = 32" "set (GetMD5Hash s) \<subseteq> set ''0123456789abcdef''"
  using set_hex by (simp_all add: GetMD5Hash_def)

end
