(* ===== verification/Source.thy ===== *)
theory Source imports GoStrings begin

text \<open>
  \<open>source.go\<close>: the monitor that decides whether the RTSP source is reachable, and the codec
  selection on what the source announces. The RTSP probe itself is a function field of the Go
  structure (\<open>probe\<close>), so each call of \<open>ProbeNow\<close> takes the probe's result as an argument; the
  call-back \<open>onChange\<close> is the boolean each operation returns ("the call-back runs"). The mutex is
  held for the whole state change of each operation, so an operation is one atomic step.
\<close>

section \<open>State\<close>

text \<open>\<open>SourceInfo\<close> (declared in \<open>rtsp_client.go\<close>): the announced codec names.\<close>

record SourceInfo =
  Video :: "string list"
  Audio :: "string list"

text \<open>Durations are in nanoseconds.\<close>

definition second :: int where "second = 1000000000"
definition defaultProbeInterval :: int where "defaultProbeInterval = 30 * second"
definition minProbeInterval :: int where "minProbeInterval = 5 * second"
definition probeFailThreshold :: int where "probeFailThreshold = 3"

definition supportedVideo :: "string list" where
  "supportedVideo = [''h264'', ''h265'', ''vp8'', ''vp9'', ''av1'']"

definition supportedAudio :: "string list" where
  "supportedAudio = [''pcmu'', ''pcma'', ''opus'']"

record SourceMonitor =
  mon_url :: string
  interval :: int
  online :: bool
  failures :: int
  info :: "SourceInfo option"
  stopped :: bool \<comment> \<open>the channel \<open>stop\<close> is closed\<close>

definition NewSourceMonitor :: "string \<Rightarrow> int \<Rightarrow> SourceMonitor" where
  "NewSourceMonitor url iv =
     \<lparr>mon_url = url,
      interval = (if iv < minProbeInterval then defaultProbeInterval else iv),
      online = False, failures = 0, info = None, stopped = False\<rparr>"

section \<open>Comparing announcements\<close>

text \<open>The loop compares index by index once the lengths agree.\<close>

fun equalStrings_loop :: "string list \<Rightarrow> string list \<Rightarrow> bool" where
  "equalStrings_loop (a # as) (b # bs) = (if a \<noteq> b then False else equalStrings_loop as bs)"
| "equalStrings_loop _ _ = True"

definition equalStrings :: "string list \<Rightarrow> string list \<Rightarrow> bool" where
  "equalStrings a b = (if length a \<noteq> length b then False else equalStrings_loop a b)"

definition sameInfo :: "SourceInfo option \<Rightarrow> SourceInfo option \<Rightarrow> bool" where
  "sameInfo a b =
     (case (a, b) of
        (Some x, Some y) \<Rightarrow> equalStrings (Video x) (Video y) \<and> equalStrings (Audio x) (Audio y)
      | (None, None) \<Rightarrow> True
      | _ \<Rightarrow> False)"

lemma equalStrings_iff [simp]: "equalStrings a b \<longleftrightarrow> a = b"
  by (induction a b rule: equalStrings_loop.induct) (auto simp: equalStrings_def)

lemma sameInfo_iff [simp]: "sameInfo a b \<longleftrightarrow> a = b"
  by (auto simp: sameInfo_def split: option.splits)

section \<open>Operations\<close>

text \<open>
  \<open>ProbeNow\<close>: the result of the probe is \<open>Inr\<close> the announcement or \<open>Inl\<close> an error. Returns the new
  state, whether \<open>onChange\<close> runs, and the value returned to the caller.
\<close>

definition ProbeNow :: "SourceInfo res \<Rightarrow> SourceMonitor \<Rightarrow> SourceMonitor \<times> bool \<times> bool" where
  "ProbeNow r m =
     (case r of
        Inr i \<Rightarrow>
          let wasOnline = online m;
              m1 = m\<lparr>failures := 0, online := True\<rparr>;
              newInfo = \<not> sameInfo (info m) (Some i);
              m2 = (if newInfo then m1\<lparr>info := Some i\<rparr> else m1);
              changed = newInfo \<or> \<not> wasOnline
          in (m2, changed, online m2)
      | Inl e \<Rightarrow>
          let m1 = m\<lparr>failures := failures m + 1\<rparr>
          in if info m1 = None \<or> failures m1 \<ge> probeFailThreshold
             then let changed = online m1; m2 = m1\<lparr>online := False\<rparr> in (m2, changed, online m2)
             else (m1, False, online m1))"

definition MarkDown :: "SourceMonitor \<Rightarrow> SourceMonitor \<times> bool" where
  "MarkDown m = (m\<lparr>online := False, failures := probeFailThreshold\<rparr>, online m)"

text \<open>\<open>Stop\<close> closes the channel once.\<close>

definition Stop :: "SourceMonitor \<Rightarrow> SourceMonitor" where
  "Stop m = m\<lparr>stopped := True\<rparr>"

text \<open>
  \<open>Run\<close>: what the \<open>select\<close> picks, in order: a tick (with the value \<open>paused()\<close> has then, and the
  result the probe would give) or the closed \<open>stop\<close> channel. The second component counts the
  runs of \<open>onChange\<close>.
\<close>

datatype run_event = Tick bool "SourceInfo res" | StopSeen

fun Run :: "run_event list \<Rightarrow> SourceMonitor \<Rightarrow> SourceMonitor \<times> nat" where
  "Run [] m = (m, 0)"
| "Run (Tick paused r # es) m =
     (if paused then Run es m
      else let (m1, changed, _) = ProbeNow r m; (m2, n) = Run es m1
           in (m2, (if changed then Suc n else n)))"
| "Run (StopSeen # es) m = (m, 0)"

fun firstSupported :: "string list \<Rightarrow> string list \<Rightarrow> string" where
  "firstSupported [] supported = ''''"
| "firstSupported (a # as) supported =
     (if list_ex (\<lambda>s. a = s) supported then a else firstSupported as supported)"

fun filterSupported :: "string list \<Rightarrow> string list \<Rightarrow> string list" where
  "filterSupported [] supported = []"
| "filterSupported (a # as) supported =
     (if list_ex (\<lambda>s. a = s) supported then a # filterSupported as supported
      else filterSupported as supported)"

section \<open>Codec selection\<close>

lemma list_ex_eq [simp]: "list_ex (\<lambda>s. a = s) xs \<longleftrightarrow> a \<in> set xs"
  by (auto simp: list_ex_iff)

lemma filterSupported_eq: "filterSupported as supp = filter (\<lambda>a. a \<in> set supp) as"
  by (induction as) auto

lemma firstSupported_filter:
  "firstSupported as supp = (case filterSupported as supp of [] \<Rightarrow> '''' | a # _ \<Rightarrow> a)"
  by (induction as) auto

lemma firstSupported_empty_iff:
  "'''' \<notin> set supp \<Longrightarrow> firstSupported as supp = '''' \<longleftrightarrow> filterSupported as supp = []"
  by (induction as) auto

lemma firstSupported_member:
  "firstSupported as supp \<noteq> '''' \<Longrightarrow> firstSupported as supp \<in> set as \<inter> set supp"
  by (induction as) (auto split: if_splits)

lemma empty_not_supported [simp]: "[] \<notin> set supportedVideo" "[] \<notin> set supportedAudio"
  by (simp_all add: supportedVideo_def supportedAudio_def)

section \<open>Change notification\<close>

text \<open>
  The contract between the monitor and whoever publishes its state: an operation runs the
  call-back exactly when what is published of the state changes. A publisher that republishes at
  every call-back then never holds an outdated copy.
\<close>

locale change_notifier =
  fixes op_step :: "'op \<Rightarrow> 's \<Rightarrow> 's \<times> bool"
    and view :: "'s \<Rightarrow> 'v"
  assumes notifies: "snd (op_step e s) \<longleftrightarrow> view (fst (op_step e s)) \<noteq> view s"
begin

fun follow :: "'op list \<Rightarrow> 's \<times> 'v \<Rightarrow> 's \<times> 'v" where
  "follow [] sv = sv"
| "follow (e # es) (s, v) =
     (let (s', n) = op_step e s in follow es (s', if n then view s' else v))"

lemma follow_exact: "v = view s \<Longrightarrow> snd (follow es (s, v)) = view (fst (follow es (s, v)))"
proof (induction es arbitrary: s v)
  case (Cons e es)
  obtain s' n where sn: "op_step e s = (s', n)" by fastforce
  with notifies [of e s] Cons.prems have "(if n then view s' else v) = view s'" by auto
  with Cons.IH sn show ?case by simp
qed simp

lemma silent_step: "\<not> snd (op_step e s) \<Longrightarrow> view (fst (op_step e s)) = view s"
  using notifies by blast

end

datatype mon_op = OpProbe "SourceInfo res" | OpMarkDown

fun mon_step :: "mon_op \<Rightarrow> SourceMonitor \<Rightarrow> SourceMonitor \<times> bool" where
  "mon_step (OpProbe r) m = (fst (ProbeNow r m), fst (snd (ProbeNow r m)))"
| "mon_step OpMarkDown m = MarkDown m"

definition mon_view :: "SourceMonitor \<Rightarrow> bool \<times> SourceInfo option" where
  "mon_view m = (online m, info m)"

lemma ProbeNow_notifies:
  "fst (snd (ProbeNow r m)) \<longleftrightarrow> mon_view (fst (ProbeNow r m)) \<noteq> mon_view m"
  by (cases r) (auto simp: ProbeNow_def mon_view_def Let_def)

lemma MarkDown_notifies: "snd (MarkDown m) \<longleftrightarrow> mon_view (fst (MarkDown m)) \<noteq> mon_view m"
  by (auto simp: MarkDown_def mon_view_def)

interpretation mon: change_notifier mon_step mon_view
proof
  fix e m
  show "snd (mon_step e m) \<longleftrightarrow> mon_view (fst (mon_step e m)) \<noteq> mon_view m"
    using ProbeNow_notifies MarkDown_notifies by (cases e) auto
qed

lemma ProbeNow_result: "snd (snd (ProbeNow r m)) = online (fst (ProbeNow r m))"
  by (cases r) (auto simp: ProbeNow_def Let_def)

lemma ProbeNow_frame [frame_simps]:
  "mon_url (fst (ProbeNow r m)) = mon_url m"
  "interval (fst (ProbeNow r m)) = interval m"
  "stopped (fst (ProbeNow r m)) = stopped m"
  by (cases r; auto simp: ProbeNow_def Let_def)+

section \<open>Reachability\<close>

text \<open>
  A run of probes and of losses of a session's stream, and what happened in it since the last
  successful probe.
\<close>

definition operate :: "mon_op list \<Rightarrow> SourceMonitor \<Rightarrow> SourceMonitor" where
  "operate es m = foldl (\<lambda>m e. fst (mon_step e m)) m es"

definition succeeded :: "mon_op \<Rightarrow> bool" where
  "succeeded e \<longleftrightarrow> (case e of OpProbe (Inr i) \<Rightarrow> True | _ \<Rightarrow> False)"

definition since_success :: "mon_op list \<Rightarrow> mon_op list" where
  "since_success es = takeWhile (\<lambda>e. \<not> succeeded e) (rev es)"

lemma succeeded_simps [simp]:
  "succeeded (OpProbe (Inr i))" "\<not> succeeded (OpProbe (Inl e))" "\<not> succeeded OpMarkDown"
  by (simp_all add: succeeded_def)

lemma since_success_snoc [simp]:
  "since_success (es @ [e]) = (if succeeded e then [] else e # since_success es)"
  by (simp add: since_success_def)

lemma operate_snoc: "operate (es @ [e]) m = fst (mon_step e (operate es m))"
  by (simp add: operate_def)

definition last_info :: "mon_op list \<Rightarrow> SourceInfo option" where
  "last_info es = (case filter succeeded (rev es) of OpProbe (Inr i) # _ \<Rightarrow> Some i | _ \<Rightarrow> None)"

lemma last_info_snoc: "last_info (es @ [OpProbe (Inr i)]) = Some i"
  "\<not> succeeded e \<Longrightarrow> last_info (es @ [e]) = last_info es"
  by (simp_all add: last_info_def)

lemma last_info_None: "last_info es = None \<longleftrightarrow> \<not> list_ex succeeded es"
proof (induction es rule: rev_induct)
  case (snoc e es)
  then show ?case by (cases e; cases "succeeded e")
    (auto simp: last_info_snoc succeeded_def split: sum.splits)
qed (simp add: last_info_def)

text \<open>
  The count of failures is at least three from a loss of the stream to the next success, else the
  number of probes failed since the last success.
\<close>

lemma operate_state:
  fixes url iv es
  defines "m \<equiv> operate es (NewSourceMonitor url iv)"
  shows "info m = last_info es"
    and "if OpMarkDown \<in> set (since_success es) then 3 \<le> failures m
         else failures m = int (length (since_success es))"
    and "online m \<longleftrightarrow> list_ex succeeded es \<and> OpMarkDown \<notin> set (since_success es) \<and>
      length (since_success es) < 3"
  unfolding m_def
proof (induction es rule: rev_induct)
  case Nil
  { case 1 show ?case by (simp add: operate_def NewSourceMonitor_def last_info_def) }
  { case 2 show ?case by (simp add: operate_def NewSourceMonitor_def since_success_def) }
  { case 3 show ?case by (simp add: operate_def NewSourceMonitor_def) }
next
  case (snoc e es)
  consider (ok) i where "e = OpProbe (Inr i)" | (err) x where "e = OpProbe (Inl x)" | (down) "e = OpMarkDown"
    by (cases e) (metis sum.exhaust, simp)
  note e = this
  { case 1 show ?case using e snoc.IH(1)
      by cases (auto simp: operate_snoc last_info_snoc ProbeNow_def MarkDown_def Let_def) }
  { case 2 show ?case using e snoc.IH(2)
      by cases (auto simp: operate_snoc ProbeNow_def MarkDown_def Let_def probeFailThreshold_def) }
  { case 3 show ?case using e snoc.IH last_info_None [of es]
      by cases (auto simp: operate_snoc ProbeNow_def MarkDown_def Let_def probeFailThreshold_def
          split: if_splits) }
qed

text \<open>
  C36: starting from a fresh monitor, after any sequence of probe results and of losses of a
  session's stream the camera is considered online exactly when some probe succeeded and, since the
  last success, no stream was lost and fewer than three probes failed; the announcement kept is that
  of the last successful probe.
\<close>

theorem monitor_hysteresis:
  "(online (operate es (NewSourceMonitor url iv)) \<longleftrightarrow>
     list_ex succeeded es \<and> OpMarkDown \<notin> set (since_success es) \<and> length (since_success es) < 3) \<and>
   info (operate es (NewSourceMonitor url iv)) =
     (case filter succeeded (rev es) of OpProbe (Inr i) # _ \<Rightarrow> Some i | _ \<Rightarrow> None)"
  using operate_state [of es url iv] by (simp add: last_info_def)

text \<open>
  \<open>onChange\<close> is exact: a viewer that holds the published pair (online, announcement) and takes
  the new one at each notification holds the monitor's actual pair after any sequence of probes
  and stream losses.
\<close>

theorem monitor_notifications_exact:
  "snd (mon.follow es (m, mon_view m)) = mon_view (fst (mon.follow es (m, mon_view m)))"
  by (rule mon.follow_exact) simp

text \<open>
  The ticker of the monitor always has a positive period of at least five seconds, whatever
  the configured interval, so \<open>time.NewTicker\<close> never panics; an interval below five seconds is
  replaced by thirty seconds, not raised to five.
\<close>

theorem monitor_interval:
  "minProbeInterval \<le> interval (NewSourceMonitor url iv)"
  "0 < interval (NewSourceMonitor url iv)"
  "interval (NewSourceMonitor url (3 * second)) = 30 * second"
  by (simp_all add: NewSourceMonitor_def minProbeInterval_def defaultProbeInterval_def second_def)

text \<open>
  \<open>firstSupported\<close> is the first element of \<open>filterSupported\<close>, which keeps exactly the announced
  codecs that WebRTC can carry, in the announced order; so the codec used is empty exactly when
  the published \<open>caps\<close> list is empty, and otherwise it is its first entry.
\<close>

theorem codec_selection:
  "filterSupported as supportedVideo = filter (\<lambda>a. a \<in> set supportedVideo) as"
  "firstSupported as supportedVideo =
     (case filterSupported as supportedVideo of [] \<Rightarrow> '''' | a # _ \<Rightarrow> a)"
  "firstSupported as supportedVideo = '''' \<longleftrightarrow> filterSupported as supportedVideo = []"
  by (simp_all add: filterSupported_eq firstSupported_filter [of as supportedVideo]
        firstSupported_empty_iff split: list.splits)
     (auto simp: filter_eq_Cons_iff)

end
