(* ===== verification/Config.thy ===== *)
theory Config imports GoStrings begin

text \<open>
  \<open>config.go\<close>: the configuration file, its defaults and its validation. Reading the file and the
  YAML decoder (package \<open>gopkg.in/yaml.v2\<close>, not part of the repository) are arguments of
  \<open>loadConfig\<close>.
\<close>

record Device =
  dev_URL :: string
  dev_Name :: string
  ProbeInterval :: int

record MQTT =
  mqtt_URL :: string
  Username :: string
  Password :: string
  CA :: string

record ICE =
  Stun :: "string list"

record Config =
  cfg_MQTT :: MQTT
  cfg_Device :: Device
  cfg_ICE :: ICE

definition ID :: "Config \<Rightarrow> string" where
  "ID c = TrimSpace (Username (cfg_MQTT c))"

definition defaultStun :: "string list" where
  "defaultStun = [''stun:stun.l.google.com:19302'', ''stun:stun1.l.google.com:19302'']"

section \<open>Patterns\<close>

text \<open>The character class \<open>[A-Za-z0-9_-]\<close> and a pattern \<open>^[A-Za-z0-9_-]{lo,hi}$\<close>.\<close>

definition id_char :: "byte \<Rightarrow> bool" where
  "id_char c \<longleftrightarrow>
     (let v = byte_val c in
      65 \<le> v \<and> v \<le> 90 \<or> 97 \<le> v \<and> v \<le> 122 \<or> 48 \<le> v \<and> v \<le> 57 \<or> v = 95 \<or> v = 45)"

definition idPattern :: "string \<Rightarrow> bool" where
  "idPattern s \<longleftrightarrow> 3 \<le> length s \<and> length s \<le> 32 \<and> list_all id_char s"

lemma id_char_not_special:
  "id_char c \<Longrightarrow> c \<noteq> CHR ''/'' \<and> c \<noteq> CHR ''+'' \<and> c \<noteq> CHR ''#'' \<and> \<not> is_space c"
  by (auto simp: id_char_def Let_def is_space_def byte_val_def)

lemma idPattern_nonempty: "idPattern s \<Longrightarrow> s \<noteq> []"
  by (auto simp: idPattern_def)

lemma idPattern_trimmed: "idPattern s \<Longrightarrow> TrimSpace s = s"
  by (rule TrimSpace_fixed)
     (metis idPattern_def id_char_not_special list.set_sel(1) last_in_set list_all_iff)

section \<open>Validation\<close>

definition Validate :: "Config \<Rightarrow> unit res" where
  "Validate c =
     (if dev_URL (cfg_Device c) = '''' then
        Inl (Failed ''invalid configuration: device.url is required'')
      else if \<not> HasPrefix (ToLower (dev_URL (cfg_Device c))) ''rtsp://'' then
        Inl (Failed ''invalid configuration: device.url must start with rtsp://'')
      else if length (dev_Name (cfg_Device c)) > 64 then
        Inl (Failed ''invalid configuration: device.name is limited to 64 characters'')
      else if TrimSpace (mqtt_URL (cfg_MQTT c)) = '''' then
        Inl (Failed ''invalid configuration: mqtt.url is required'')
      else if \<not> idPattern (Username (cfg_MQTT c)) then
        Inl (Failed ''invalid configuration: mqtt.username (camera identifier) must be 3 to 32 characters among [A-Za-z0-9_-]'')
      else if TrimSpace (Password (cfg_MQTT c)) = '''' then
        Inl (Failed ''invalid configuration: mqtt.password is required'')
      else Inr ())"

text \<open>The assignments of \<open>loadConfig\<close> between decoding and validation.\<close>

definition apply_defaults :: "Config \<Rightarrow> Config" where
  "apply_defaults c0 =
     (let c1 = c0\<lparr>cfg_Device := (cfg_Device c0)\<lparr>dev_URL := TrimSpace (dev_URL (cfg_Device c0))\<rparr>\<rparr>;
          c2 = c1\<lparr>cfg_MQTT := (cfg_MQTT c1)\<lparr>Username := TrimSpace (Username (cfg_MQTT c1))\<rparr>\<rparr>;
          c3 = (if TrimSpace (dev_Name (cfg_Device c2)) = ''''
                then c2\<lparr>cfg_Device := (cfg_Device c2)\<lparr>dev_Name := Username (cfg_MQTT c2)\<rparr>\<rparr>
                else c2)
      in if length (Stun (cfg_ICE c3)) = 0 then c3\<lparr>cfg_ICE := (cfg_ICE c3)\<lparr>Stun := defaultStun\<rparr>\<rparr>
         else c3)"

definition loadConfig ::
  "(string \<Rightarrow> string res) \<Rightarrow> (string \<Rightarrow> Config res) \<Rightarrow> string \<Rightarrow> Config res" where
  "loadConfig readFile unmarshal filename =
     (case readFile filename of
        Inl (Failed e) \<Rightarrow> Inl (Failed (''cannot read config file: '' @ e))
      | Inl p \<Rightarrow> Inl p
      | Inr text \<Rightarrow>
          (case unmarshal text of
             Inl (Failed e) \<Rightarrow> Inl (Failed (''cannot parse config file: '' @ e))
           | Inl p \<Rightarrow> Inl p
           | Inr c0 \<Rightarrow>
               (let c = apply_defaults c0
                in case Validate c of Inl e \<Rightarrow> Inl e | Inr _ \<Rightarrow> Inr c)))"

lemma Validate_ok_iff:
  "Validate c = Inr () \<longleftrightarrow>
     dev_URL (cfg_Device c) \<noteq> '''' \<and> HasPrefix (ToLower (dev_URL (cfg_Device c))) ''rtsp://'' \<and>
     length (dev_Name (cfg_Device c)) \<le> 64 \<and> TrimSpace (mqtt_URL (cfg_MQTT c)) \<noteq> '''' \<and>
     idPattern (Username (cfg_MQTT c)) \<and> TrimSpace (Password (cfg_MQTT c)) \<noteq> ''''"
  by (auto simp: Validate_def)

lemma apply_defaults_props:
  "TrimSpace (dev_URL (cfg_Device (apply_defaults c))) = dev_URL (cfg_Device (apply_defaults c))"
  "Username (cfg_MQTT (apply_defaults c)) = TrimSpace (Username (cfg_MQTT c))"
  "Stun (cfg_ICE (apply_defaults c)) \<noteq> []"
  "TrimSpace (dev_Name (cfg_Device (apply_defaults c))) = '''' \<Longrightarrow>
     TrimSpace (Username (cfg_MQTT c)) = ''''"
  by (cases "TrimSpace (dev_Name (cfg_Device c)) = ''''"; cases "Stun (cfg_ICE c) = []";
      simp add: apply_defaults_def Let_def defaultStun_def)+

lemma loadConfig_Inr:
  "loadConfig rd um f = Inr c \<Longrightarrow> \<exists>c0. c = apply_defaults c0 \<and> Validate c = Inr ()"
  by (auto simp: loadConfig_def Let_def split: sum.splits go_exit.splits)

lemma loadConfig_well_formed_parts:
  assumes "loadConfig readFile unmarshal f = Inr c"
  shows "HasPrefix (ToLower (dev_URL (cfg_Device c))) ''rtsp://''"
    and "TrimSpace (dev_URL (cfg_Device c)) = dev_URL (cfg_Device c)"
    and "idPattern (Username (cfg_MQTT c))" and "ID c = Username (cfg_MQTT c)"
    and "\<forall>x\<in>set (Username (cfg_MQTT c)). x \<noteq> CHR ''/'' \<and> x \<noteq> CHR ''+'' \<and> x \<noteq> CHR ''#''"
    and "TrimSpace (dev_Name (cfg_Device c)) \<noteq> ''''"
    and "length (dev_Name (cfg_Device c)) \<le> 64"
    and "TrimSpace (Password (cfg_MQTT c)) \<noteq> ''''" and "Stun (cfg_ICE c) \<noteq> []"
proof -
  from loadConfig_Inr [OF assms] obtain c0
    where c: "c = apply_defaults c0" and v: "Validate c = Inr ()" by blast
  then have user: "idPattern (Username (cfg_MQTT c))" by (simp add: Validate_ok_iff)
  then show "idPattern (Username (cfg_MQTT c))" "ID c = Username (cfg_MQTT c)"
    "\<forall>x\<in>set (Username (cfg_MQTT c)). x \<noteq> CHR ''/'' \<and> x \<noteq> CHR ''+'' \<and> x \<noteq> CHR ''#''"
    using id_char_not_special
    by (auto simp: ID_def idPattern_trimmed idPattern_def list_all_iff)
  show "HasPrefix (ToLower (dev_URL (cfg_Device c))) ''rtsp://''"
    "length (dev_Name (cfg_Device c)) \<le> 64" "TrimSpace (Password (cfg_MQTT c)) \<noteq> ''''"
    using v by (simp_all add: Validate_ok_iff)
  show "TrimSpace (dev_URL (cfg_Device c)) = dev_URL (cfg_Device c)" "Stun (cfg_ICE c) \<noteq> []"
    unfolding c by (rule apply_defaults_props)+
  show "TrimSpace (dev_Name (cfg_Device c)) \<noteq> ''''"
    using apply_defaults_props(2,4) [of c0] user idPattern_nonempty unfolding c by metis
qed

text \<open>
  C40: a configuration the agent runs with is well formed: the source URL is an RTSP URL without
  surrounding space, the identifier matches the camera pattern (so it is a single MQTT topic level
  without wildcard), it is its own trimmed form, the display name is not blank and at most 64
  bytes, and there is at least one STUN server.
\<close>

theorem loadConfig_well_formed:
  assumes "loadConfig readFile unmarshal f = Inr c"
  shows "(HasPrefix (ToLower (dev_URL (cfg_Device c))) ''rtsp://'') \<and>
    (TrimSpace (dev_URL (cfg_Device c)) = dev_URL (cfg_Device c)) \<and>
    (idPattern (Username (cfg_MQTT c))) \<and>
    (ID c = Username (cfg_MQTT c)) \<and>
    (\<forall>x\<in>set (Username (cfg_MQTT c)). x \<noteq> CHR ''/'' \<and> x \<noteq> CHR ''+'' \<and> x \<noteq> CHR ''#'') \<and>
    (TrimSpace (dev_Name (cfg_Device c)) \<noteq> '''') \<and>
    (length (dev_Name (cfg_Device c)) \<le> 64) \<and>
    (TrimSpace (Password (cfg_MQTT c)) \<noteq> '''') \<and>
    (Stun (cfg_ICE c) \<noteq> [])"
  by (intro conjI impI) (rule loadConfig_well_formed_parts [OF assms]; assumption?)+

definition sample_config :: Config where
  "sample_config =
     \<lparr>cfg_MQTT = \<lparr>mqtt_URL = ''ssl://b:8883'', Username = '' cam-1 '', Password = ''x'', CA = ''''\<rparr>,
      cfg_Device = \<lparr>dev_URL = '' RTSP://h/s'', dev_Name = '' '', ProbeInterval = 0\<rparr>,
      cfg_ICE = \<lparr>Stun = []\<rparr>\<rparr>"

lemma sample_config_loads:
  "loadConfig (\<lambda>_. Inr ''yaml'') (\<lambda>_. Inr sample_config) ''config.yaml'' =
     Inr (apply_defaults sample_config)"
  by code_simp

theorem loadConfig_well_formed_witness:
  "dev_Name (cfg_Device (apply_defaults sample_config)) = ''cam-1'' \<and>
   ID (apply_defaults sample_config) = Username (cfg_MQTT (apply_defaults sample_config)) \<and>
   HasPrefix (ToLower (dev_URL (cfg_Device (apply_defaults sample_config)))) ''rtsp://''"
  using loadConfig_well_formed [OF sample_config_loads] by (intro conjI) (code_simp, blast+)

text \<open>
  The limit on the display name counts bytes, although the message says characters: a name of
  33 letters "e acute" (two bytes each in UTF-8, 33 characters) is refused with the message that
  it exceeds 64 characters, while the same configuration with an ASCII name of 64 letters is
  accepted.
\<close>

definition char_count :: "string \<Rightarrow> nat" where
  \<comment> \<open>UTF-8 characters: the bytes that are not continuation bytes (10xxxxxx)\<close>
  "char_count s = length (filter (\<lambda>c. \<not> (128 \<le> byte_val c \<and> byte_val c < 192)) s)"

definition named_config :: "string \<Rightarrow> Config" where
  "named_config n =
     \<lparr>cfg_MQTT = \<lparr>mqtt_URL = ''ssl://b:8883'', Username = ''cam-1'', Password = ''x'', CA = ''''\<rparr>,
      cfg_Device = \<lparr>dev_URL = ''rtsp://h/s'', dev_Name = n, ProbeInterval = 0\<rparr>,
      cfg_ICE = \<lparr>Stun = []\<rparr>\<rparr>"

theorem Validate_name_counts_bytes:
  "char_count (concat (replicate 33 [nat_byte 195, nat_byte 169])) = 33"
  "Validate (named_config (concat (replicate 33 [nat_byte 195, nat_byte 169]))) =
     Inl (Failed ''invalid configuration: device.name is limited to 64 characters'')"
  "Validate (named_config (replicate 64 CHR ''a'')) = Inr ()"
  by code_simp+

end
