(* ===== verification/Protocol.thy ===== *)
theory Protocol imports GoJson Config begin

text \<open>
  \<open>protocol.go\<close>: the constants of the signaling protocol, the message structures with their JSON
  form, and the check of a message's time stamp. Durations are signed 64-bit nanoseconds, kept as
  \<open>64 word\<close> where their overflow matters.
\<close>

section \<open>Constants\<close>

definition ProtocolVersion :: int where "ProtocolVersion = 1"
definition AgentName :: string where "AgentName = ''ocamera-go''"
definition AgentVersion :: string where "AgentVersion = ''1.0.0''"

definition TypeOffer :: string where "TypeOffer = ''offer''"
definition TypeAnswer :: string where "TypeAnswer = ''answer''"
definition TypeICE :: string where "TypeICE = ''ice''"
definition TypeBye :: string where "TypeBye = ''bye''"
definition TypeError :: string where "TypeError = ''error''"
definition TypeCmd :: string where "TypeCmd = ''cmd''"
definition TypeRes :: string where "TypeRes = ''res''"

definition ErrBusy :: string where "ErrBusy = ''busy''"
definition ErrBadRequest :: string where "ErrBadRequest = ''bad_request''"
definition ErrUnsupportedCodec :: string where "ErrUnsupportedCodec = ''unsupported_codec''"
definition ErrSourceUnavailable :: string where "ErrSourceUnavailable = ''source_unavailable''"
definition ErrStale :: string where "ErrStale = ''stale''"
definition ErrInternal :: string where "ErrInternal = ''internal''"
definition ErrUnsupported :: string where "ErrUnsupported = ''unsupported''"

definition ByeUser :: string where "ByeUser = ''user''"
definition ByeTimeout :: string where "ByeTimeout = ''timeout''"
definition ByeICEFailed :: string where "ByeICEFailed = ''ice_failed''"
definition ByeSourceLost :: string where "ByeSourceLost = ''source_lost''"
definition ByeShutdown :: string where "ByeShutdown = ''shutdown''"

lemmas type_defs =
  TypeOffer_def TypeAnswer_def TypeICE_def TypeBye_def TypeError_def TypeCmd_def TypeRes_def

lemmas code_defs =
  ErrBusy_def ErrBadRequest_def ErrUnsupportedCodec_def ErrSourceUnavailable_def ErrStale_def
  ErrInternal_def ErrUnsupported_def

lemmas reason_defs =
  ByeUser_def ByeTimeout_def ByeICEFailed_def ByeSourceLost_def ByeShutdown_def

text \<open>\<open>^[A-Za-z0-9_-]{8,32}$\<close>\<close>

definition sidPattern :: "string \<Rightarrow> bool" where
  "sidPattern s \<longleftrightarrow> 8 \<le> length s \<and> length s \<le> 32 \<and> list_all id_char s"

section \<open>Messages\<close>

text \<open>\<open>json.RawMessage\<close> is the raw value, or \<open>None\<close> when the member is absent.\<close>

record Envelope =
  V :: int
  TS :: int
  SID :: string
  Type :: string
  Data :: "json option"

record Want =
  Stream :: string
  want_Audio :: "bool option"

record OfferData =
  offer_SDP :: string
  want :: "Want option"

record AnswerData =
  answer_SDP :: string

record ICECandidate =
  Candidate :: string
  SDPMid :: "string option"
  SDPMLineIndex :: "nat option"

record ICEData =
  Candidates :: "ICECandidate slice"
  End :: bool

record ByeData =
  Reason :: string

record ErrorData =
  Code :: string
  Message :: string
  Retryable :: bool

record CmdData =
  cmd_ID :: string
  cmd_Name :: string
  Args :: "json option"

record ResError =
  res_Code :: string
  res_Message :: string

record ResData =
  res_ID :: string
  OK :: bool
  res_Error :: "ResError option"

record StateCaps =
  caps_Video :: "string list"
  caps_Audio :: "string list"
  Streams :: "string list"
  Cmds :: "string list"

record StateInfo =
  info_Name :: string
  info_Version :: string

record State =
  st_V :: int
  st_TS :: int
  st_Name :: string
  Online :: bool
  Busy :: bool
  Viewer :: "string option"
  Kind :: string
  Caps :: "StateCaps option"
  st_Agent :: "StateInfo option"

section \<open>Encoding\<close>

text \<open>Members in declaration order; a member tagged \<open>omitempty\<close> is left out when empty.\<close>

definition omit_empty :: "string \<Rightarrow> string \<Rightarrow> (string \<times> json) list" where
  "omit_empty k s = (if s = '''' then [] else [(k, jstr s)])"

definition enc_Envelope :: "Envelope \<Rightarrow> json" where
  "enc_Envelope e = JObj ([(''v'', JInt (V e)), (''ts'', JInt (TS e))] @ omit_empty ''sid'' (SID e) @
     [(''type'', jstr (Type e))] @ (case Data e of None \<Rightarrow> [] | Some d \<Rightarrow> [(''data'', d)]))"

definition enc_AnswerData :: "AnswerData \<Rightarrow> json" where
  "enc_AnswerData a = JObj [(''sdp'', jstr (answer_SDP a))]"

definition enc_ICECandidate :: "ICECandidate \<Rightarrow> json" where
  "enc_ICECandidate c = JObj
     [(''candidate'', jstr (Candidate c)), (''sdpMid'', enc_ptr jstr (SDPMid c)),
      (''sdpMLineIndex'', enc_ptr (\<lambda>n. JInt (int n)) (SDPMLineIndex c))]"

definition enc_ICEData :: "ICEData \<Rightarrow> json" where
  "enc_ICEData d = JObj
     [(''candidates'', enc_slice enc_ICECandidate (Candidates d)), (''end'', JBool (End d))]"

definition enc_ByeData :: "ByeData \<Rightarrow> json" where
  "enc_ByeData b = JObj (omit_empty ''reason'' (Reason b))"

definition enc_ErrorData :: "ErrorData \<Rightarrow> json" where
  "enc_ErrorData e = JObj ([(''code'', jstr (Code e))] @ omit_empty ''message'' (Message e) @
     [(''retryable'', JBool (Retryable e))])"

definition enc_ResError :: "ResError \<Rightarrow> json" where
  "enc_ResError e = JObj ([(''code'', jstr (res_Code e))] @ omit_empty ''message'' (res_Message e))"

definition enc_ResData :: "ResData \<Rightarrow> json" where
  "enc_ResData r = JObj ([(''id'', jstr (res_ID r)), (''ok'', JBool (OK r))] @
     (case res_Error r of None \<Rightarrow> [] | Some e \<Rightarrow> [(''error'', enc_ResError e)]))"

definition enc_StateCaps :: "StateCaps \<Rightarrow> json" where
  "enc_StateCaps c = JObj
     [(''video'', enc_strings (caps_Video c)), (''audio'', enc_strings (caps_Audio c)),
      (''streams'', enc_strings (Streams c)), (''cmds'', enc_strings (Cmds c))]"

definition enc_StateInfo :: "StateInfo \<Rightarrow> json" where
  "enc_StateInfo i = JObj [(''name'', jstr (info_Name i)), (''version'', jstr (info_Version i))]"

definition enc_State :: "State \<Rightarrow> json" where
  "enc_State s = JObj
     ([(''v'', JInt (st_V s)), (''ts'', JInt (st_TS s)), (''name'', jstr (st_Name s)),
       (''online'', JBool (Online s)), (''busy'', JBool (Busy s)),
       (''viewer'', enc_ptr jstr (Viewer s)), (''kind'', jstr (Kind s))] @
      (case Caps s of None \<Rightarrow> [] | Some c \<Rightarrow> [(''caps'', enc_StateCaps c)]) @
      (case st_Agent s of None \<Rightarrow> [] | Some i \<Rightarrow> [(''agent'', enc_StateInfo i)]))"

section \<open>Decoding\<close>

definition zero_Envelope :: Envelope where
  "zero_Envelope = \<lparr>V = 0, TS = 0, SID = '''', Type = '''', Data = None\<rparr>"

definition dec_Envelope :: "Envelope decoder" where
  "dec_Envelope = dec_struct
     [(''v'', fld V (\<lambda>x. V_update (\<lambda>_. x)) dec_int),
      (''ts'', fld TS (\<lambda>x. TS_update (\<lambda>_. x)) dec_int),
      (''sid'', fld SID (\<lambda>x. SID_update (\<lambda>_. x)) dec_string),
      (''type'', fld Type (\<lambda>x. Type_update (\<lambda>_. x)) dec_string),
      (''data'', fld Data (\<lambda>x. Data_update (\<lambda>_. x)) dec_raw)]"

definition zero_Want :: Want where
  "zero_Want = \<lparr>Stream = '''', want_Audio = None\<rparr>"

definition dec_Want :: "Want decoder" where
  "dec_Want = dec_struct
     [(''stream'', fld Stream (\<lambda>x. Stream_update (\<lambda>_. x)) dec_string),
      (''audio'', fld want_Audio (\<lambda>x. want_Audio_update (\<lambda>_. x)) (dec_ptr False dec_bool))]"

definition zero_OfferData :: OfferData where
  "zero_OfferData = \<lparr>offer_SDP = '''', want = None\<rparr>"

definition dec_OfferData :: "OfferData decoder" where
  "dec_OfferData = dec_struct
     [(''sdp'', fld offer_SDP (\<lambda>x. offer_SDP_update (\<lambda>_. x)) dec_string),
      (''want'', fld want (\<lambda>x. want_update (\<lambda>_. x)) (dec_ptr zero_Want dec_Want))]"

definition zero_ICECandidate :: ICECandidate where
  "zero_ICECandidate = \<lparr>Candidate = '''', SDPMid = None, SDPMLineIndex = None\<rparr>"

definition dec_ICECandidate :: "ICECandidate decoder" where
  "dec_ICECandidate = dec_struct
     [(''candidate'', fld Candidate (\<lambda>x. Candidate_update (\<lambda>_. x)) dec_string),
      (''sdpMid'', fld SDPMid (\<lambda>x. SDPMid_update (\<lambda>_. x)) (dec_ptr '''' dec_string)),
      (''sdpMLineIndex'', fld SDPMLineIndex (\<lambda>x. SDPMLineIndex_update (\<lambda>_. x)) (dec_ptr 0 dec_uint16))]"

definition zero_ICEData :: ICEData where
  "zero_ICEData = \<lparr>Candidates = None, End = False\<rparr>"

definition dec_ICEData :: "ICEData decoder" where
  "dec_ICEData = dec_struct
     [(''candidates'', fld Candidates (\<lambda>x. Candidates_update (\<lambda>_. x))
         (dec_slice zero_ICECandidate dec_ICECandidate)),
      (''end'', fld End (\<lambda>x. End_update (\<lambda>_. x)) dec_bool)]"

definition zero_ByeData :: ByeData where
  "zero_ByeData = \<lparr>Reason = ''''\<rparr>"

definition dec_ByeData :: "ByeData decoder" where
  "dec_ByeData = dec_struct [(''reason'', fld Reason (\<lambda>x. Reason_update (\<lambda>_. x)) dec_string)]"

definition zero_CmdData :: CmdData where
  "zero_CmdData = \<lparr>cmd_ID = '''', cmd_Name = '''', Args = None\<rparr>"

definition dec_CmdData :: "CmdData decoder" where
  "dec_CmdData = dec_struct
     [(''id'', fld cmd_ID (\<lambda>x. cmd_ID_update (\<lambda>_. x)) dec_string),
      (''name'', fld cmd_Name (\<lambda>x. cmd_Name_update (\<lambda>_. x)) dec_string),
      (''args'', fld Args (\<lambda>x. Args_update (\<lambda>_. x)) dec_raw)]"

text \<open>The constants are ASCII, so they are written as they are.\<close>

lemma utf8_types [simp]:
  "utf8 TypeOffer" "utf8 TypeAnswer" "utf8 TypeICE" "utf8 TypeBye" "utf8 TypeError" "utf8 TypeCmd"
  "utf8 TypeRes"
  by (simp_all add: type_defs ascii_eval)

lemmas utf8_type_names [simp] = utf8_types [unfolded type_defs]

text \<open>What a decoder of envelopes reads, whatever is written: byte strings as valid UTF-8.\<close>

definition readable :: "Envelope \<Rightarrow> Envelope" where
  "readable e = e\<lparr>SID := to_valid (SID e), Type := to_valid (Type e)\<rparr>"

lemma readable_utf8 [simp]: "utf8 (SID e) \<Longrightarrow> utf8 (Type e) \<Longrightarrow> readable e = e"
  by (simp add: readable_def)

text \<open>A member whose name is none of a structure's, in any case, is skipped.\<close>

lemma dec_members_unknown:
  "list_all (\<lambda>(k, j). find_field fs k = None) ms \<Longrightarrow> dec_members fs ms r = Some r"
  by (induction ms) (auto split: prod.splits)

lemma dec_members_append:
  "dec_members fs (ms @ ms') r =
     (case dec_members fs ms r of None \<Rightarrow> None | Some r' \<Rightarrow> dec_members fs ms' r')"
  by (induction ms arbitrary: r) (auto split: option.split)

definition envelope_names :: "string list" where
  "envelope_names = [''v'', ''ts'', ''sid'', ''type'', ''data'']"

lemma ToLower_names: "k \<in> set envelope_names \<Longrightarrow> ToLower k = k"
  by (auto simp: envelope_names_def ToLower_def lower_byte_def byte_val_def)

lemma dec_Envelope_enc_more:
  assumes "in_int64 (V e)" "in_int64 (TS e)" "enc_Envelope e = JObj ms"
    and "list_all (\<lambda>(k, j). ToLower k \<notin> set envelope_names) extra"
  shows "dec_Envelope (JObj (ms @ extra)) zero_Envelope = Some (readable e)"
proof -
  obtain fs where d: "dec_Envelope = dec_struct fs" "map fst fs = envelope_names"
    by (simp add: dec_Envelope_def envelope_names_def)
  have "dec_Envelope (JObj ms) zero_Envelope = Some (readable e)"
    using assms(1-3) by (cases e) (auto simp: dec_Envelope_def enc_Envelope_def zero_Envelope_def
      omit_empty_def jstr_def readable_def json_simps split: option.splits if_splits)
  moreover have "find_field fs k = None" if "ToLower k \<notin> set envelope_names" for k
  proof -
    have "k \<notin> set envelope_names" using that ToLower_names by fastforce
    then have "map_of fs k = None" by (simp add: map_of_eq_None_iff flip: d(2))
    moreover have "fst ` set (map (\<lambda>(n, d). (ToLower n, d)) fs) \<subseteq> set envelope_names"
      using ToLower_names by (force simp flip: d(2))
    with that have "map_of (map (\<lambda>(n, d). (ToLower n, d)) fs) (ToLower k) = None"
      by (simp only: map_of_eq_None_iff) blast
    ultimately show ?thesis by (simp add: find_field_def)
  qed
  then have "list_all (\<lambda>(k, j). find_field fs k = None) extra"
    using assms(4) by (auto simp: list_all_iff)
  ultimately show ?thesis by (simp add: d(1) dec_members_append dec_members_unknown)
qed

lemma enc_Envelope_obj: obtains ms where "enc_Envelope e = JObj ms"
  by (simp add: enc_Envelope_def)

lemma dec_Envelope_enc:
  assumes "in_int64 (V e)" "in_int64 (TS e)"
  shows "dec_Envelope (enc_Envelope e) zero_Envelope = Some (readable e)"
proof -
  obtain ms where "enc_Envelope e = JObj ms" by (rule enc_Envelope_obj)
  with dec_Envelope_enc_more [OF assms this, of "[]"] show ?thesis by simp
qed

definition candidate_ok :: "ICECandidate \<Rightarrow> bool" where
  "candidate_ok c \<longleftrightarrow> utf8 (Candidate c) \<and> pred_option utf8 (SDPMid c) \<and>
     pred_option (\<lambda>n. n < 65536) (SDPMLineIndex c)"

lemma dec_ICECandidate_enc:
  "candidate_ok c \<Longrightarrow> dec_ICECandidate (enc_ICECandidate c) zero_ICECandidate = Some c"
  by (cases c) (auto simp: candidate_ok_def dec_ICECandidate_def enc_ICECandidate_def
       zero_ICECandidate_def jstr_def json_simps split: option.splits)

interpretation envelope_codec: json_codec enc_Envelope dec_Envelope zero_Envelope
    "\<lambda>e. in_int64 (V e) \<and> in_int64 (TS e) \<and> utf8 (SID e) \<and> utf8 (Type e)"
  by unfold_locales (simp add: dec_Envelope_enc)

interpretation candidate_codec: json_codec enc_ICECandidate dec_ICECandidate zero_ICECandidate candidate_ok
  by unfold_locales (simp add: dec_ICECandidate_enc)

interpretation icedata_codec: json_codec enc_ICEData dec_ICEData zero_ICEData
    "\<lambda>d. list_all candidate_ok (elems (Candidates d))"
proof
  fix d :: ICEData
  assume "list_all candidate_ok (elems (Candidates d))"
  then have "dec_slice zero_ICECandidate dec_ICECandidate
      (enc_slice enc_ICECandidate (Candidates d)) None = Some (Candidates d)"
    by (rule candidate_codec.slice_roundtrip)
  then show "dec_ICEData (enc_ICEData d) zero_ICEData = Some d"
    by (cases d) (simp add: dec_ICEData_def enc_ICEData_def zero_ICEData_def fld_def find_field_def)
qed

interpretation bye_codec: json_codec enc_ByeData dec_ByeData zero_ByeData "\<lambda>b. utf8 (Reason b)"
  by unfold_locales
     (auto simp: dec_ByeData_def enc_ByeData_def zero_ByeData_def omit_empty_def jstr_def json_simps)

lemma envelope_roundtrip_parts:
  assumes "in_int64 (V e)" and "in_int64 (TS e)"
    and "list_all (\<lambda>(k, j). ToLower k \<notin> {''v'', ''ts'', ''sid'', ''type'', ''data''}) extra"
  shows "\<exists>ms. enc_Envelope e = JObj ms \<and>
      map_of ms = [''v'' \<mapsto> JInt (V e), ''ts'' \<mapsto> JInt (TS e), ''type'' \<mapsto> JStr (to_valid (Type e))]
        (''sid'' := if SID e = '''' then None else Some (JStr (to_valid (SID e))), ''data'' := Data e) \<and>
      distinct (map fst ms) \<and>
      unmarshal dec_Envelope zero_Envelope (Some (JObj (ms @ extra))) =
        Some (e\<lparr>SID := to_valid (SID e), Type := to_valid (Type e)\<rparr>)"
    and "unmarshal dec_Envelope zero_Envelope (Some (enc_Envelope e)) = Some e \<longleftrightarrow>
      utf8 (SID e) \<and> utf8 (Type e)"
proof -
  obtain ms where ms: "enc_Envelope e = JObj ms" by (rule enc_Envelope_obj)
  have "list_all (\<lambda>(k, j). ToLower k \<notin> set envelope_names) extra"
    using assms(3) by (simp add: envelope_names_def)
  from dec_Envelope_enc_more [OF assms(1,2) ms this]
  have "unmarshal dec_Envelope zero_Envelope (Some (JObj (ms @ extra))) = Some (readable e)"
    by (simp add: unmarshal_def)
  moreover have "map_of ms = [''v'' \<mapsto> JInt (V e), ''ts'' \<mapsto> JInt (TS e), ''type'' \<mapsto> JStr (to_valid (Type e))]
        (''sid'' := if SID e = '''' then None else Some (JStr (to_valid (SID e))), ''data'' := Data e) \<and>
      distinct (map fst ms)"
    using ms by (auto simp: enc_Envelope_def omit_empty_def jstr_def split: option.splits)
  ultimately show "\<exists>ms. enc_Envelope e = JObj ms \<and>
      map_of ms = [''v'' \<mapsto> JInt (V e), ''ts'' \<mapsto> JInt (TS e), ''type'' \<mapsto> JStr (to_valid (Type e))]
        (''sid'' := if SID e = '''' then None else Some (JStr (to_valid (SID e))), ''data'' := Data e) \<and>
      distinct (map fst ms) \<and>
      unmarshal dec_Envelope zero_Envelope (Some (JObj (ms @ extra))) =
        Some (e\<lparr>SID := to_valid (SID e), Type := to_valid (Type e)\<rparr>)"
    using ms by (auto simp: readable_def)
next
  have "readable e = e \<longleftrightarrow> utf8 (SID e) \<and> utf8 (Type e)"
    by (cases e) (simp add: readable_def to_valid_id_iff)
  then show "unmarshal dec_Envelope zero_Envelope (Some (enc_Envelope e)) = Some e \<longleftrightarrow>
      utf8 (SID e) \<and> utf8 (Type e)"
    by (simp add: unmarshal_def dec_Envelope_enc [OF assms(1,2)])
qed

text \<open>
  C38: the wire form of an envelope, and what a peer reads from it (version and time stamp in the
  \<open>int64\<close> range). The object has the members \<open>v\<close>, \<open>ts\<close>, \<open>sid\<close>, \<open>type\<close> and \<open>data\<close> of the
  protocol, \<open>sid\<close> only when it is not empty and \<open>data\<close> only when there is some, and no other. A Go
  peer that decodes it, also with further members it does not know, gets the envelope back, with
  every byte of the session id and of the type that is not UTF-8 replaced; the envelope itself
  exactly when both are UTF-8.
\<close>

theorem envelope_roundtrip:
  assumes "in_int64 (V e)" and "in_int64 (TS e)"
    and "list_all (\<lambda>(k, j). ToLower k \<notin> {''v'', ''ts'', ''sid'', ''type'', ''data''}) extra"
  shows "(\<exists>ms. enc_Envelope e = JObj ms \<and>
      map_of ms = [''v'' \<mapsto> JInt (V e), ''ts'' \<mapsto> JInt (TS e), ''type'' \<mapsto> JStr (to_valid (Type e))]
        (''sid'' := if SID e = [] then None else Some (JStr (to_valid (SID e))), ''data'' := Data e) \<and>
      distinct (map fst ms) \<and>
      unmarshal dec_Envelope zero_Envelope (Some (JObj (ms @ extra))) =
        Some (e\<lparr>SID := to_valid (SID e), Type := to_valid (Type e)\<rparr>)) \<and>
    (unmarshal dec_Envelope zero_Envelope (Some (enc_Envelope e)) = Some e \<longleftrightarrow> utf8 (SID e) \<and> utf8 (Type e))"
  using envelope_roundtrip_parts [OF assms] by blast

text \<open>An envelope whose session id is the byte FF, read by a peer of a later version.\<close>

theorem envelope_roundtrip_witness:
  "let e = \<lparr>V = 1, TS = 1791892800, SID = [nat_byte 0xFF], Type = ''cmd'', Data = Some JNull\<rparr>
   in (\<exists>ms. enc_Envelope e = JObj ms \<and>
         map_of ms = [''v'' \<mapsto> JInt 1, ''ts'' \<mapsto> JInt 1791892800, ''type'' \<mapsto> JStr ''cmd'',
           ''sid'' \<mapsto> JStr replacement, ''data'' \<mapsto> JNull] \<and>
         unmarshal dec_Envelope zero_Envelope (Some (JObj (ms @ [(''hop'', JInt 2)]))) =
           Some (e\<lparr>SID := replacement\<rparr>)) \<and>
      unmarshal dec_Envelope zero_Envelope (Some (enc_Envelope e)) \<noteq> Some e"
proof -
  define e where
    "e = \<lparr>V = 1, TS = 1791892800, SID = [nat_byte 0xFF], Type = ''cmd'', Data = Some JNull\<rparr>"
  have l: "utf8_len [nat_byte 0xFF] = 0" by (simp add: tails_def)
  have v: "to_valid [nat_byte 0xFF] = replacement"
    by (subst to_valid.simps) (simp add: Let_def tails_def)
  have n: "\<not> utf8 [nat_byte 0xFF]" by (rule utf8_len_0 [OF l]) simp
  have c: "to_valid ''cmd'' = ''cmd''" by (simp add: to_valid_ascii ascii_def byte_val_def)
  have i: "in_int64 (V e)" "in_int64 (TS e)" by (simp_all add: e_def in_int64_def)
  have x: "list_all (\<lambda>(k, j). ToLower k \<notin> {''v'', ''ts'', ''sid'', ''type'', ''data''}) [(''hop'', JInt 2)]"
    by (simp add: ToLower_def lower_byte_def byte_val_def)
  obtain ms where "enc_Envelope e = JObj ms" "map_of ms = [''v'' \<mapsto> JInt 1, ''ts'' \<mapsto> JInt 1791892800,
      ''type'' \<mapsto> JStr ''cmd'', ''sid'' \<mapsto> JStr replacement, ''data'' \<mapsto> JNull]"
    "unmarshal dec_Envelope zero_Envelope (Some (JObj (ms @ [(''hop'', JInt 2)]))) = Some (e\<lparr>SID := replacement\<rparr>)"
    using envelope_roundtrip [OF i x, THEN conjunct1] by (auto simp: e_def v c)
  moreover have "unmarshal dec_Envelope zero_Envelope (Some (enc_Envelope e)) \<noteq> Some e"
    unfolding envelope_roundtrip [OF i x, THEN conjunct2] using n by (simp add: e_def)
  ultimately show ?thesis by (auto simp: Let_def e_def [symmetric])
qed

text \<open>
  ICE batches survive the wire: decoding an encoded batch gives the same candidates in the same
  order, with the nil and the empty list kept apart, and the same end flag (UTF-8 text and line
  indexes in the \<open>uint16\<close> range).
\<close>

theorem ice_batch_roundtrip:
  assumes "list_all candidate_ok (elems (Candidates d))"
  shows "unmarshal dec_ICEData zero_ICEData (Some (enc_ICEData d)) = Some d"
  using assms by (rule icedata_codec.unmarshal_enc)

theorem ice_batch_roundtrip_witness:
  "unmarshal dec_ICEData zero_ICEData (Some (enc_ICEData
     \<lparr>Candidates = Some [\<lparr>Candidate = ''c1'', SDPMid = Some ''0'', SDPMLineIndex = Some 0\<rparr>], End = True\<rparr>)) =
   Some \<lparr>Candidates = Some [\<lparr>Candidate = ''c1'', SDPMid = Some ''0'', SDPMLineIndex = Some 0\<rparr>], End = True\<rparr>"
  by (rule ice_batch_roundtrip) (simp add: candidate_ok_def ascii_eval)

section \<open>Time stamps\<close>

text \<open>
  An instant is a number of nanoseconds since the Unix epoch, with the offset of the local zone in
  seconds (\<open>Year\<close> is the local year). \<open>time.Unix\<close> shifts its argument to an internal epoch (the
  year 1) in \<open>int64\<close> arithmetic, which wraps.
\<close>

record time =
  unix_ns :: int
  zone :: int

definition unixToInternal :: int where "unixToInternal = 62135596800"

definition Unix :: "int \<Rightarrow> time" where
  "Unix ts = \<lparr>unix_ns = (wrap64 (ts + unixToInternal) - unixToInternal) * 1000000000, zone = 0\<rparr>"

definition unix_sec :: "time \<Rightarrow> int" where
  "unix_sec t = unix_ns t div 1000000000"

text \<open>The Gregorian year of a day, counted from 1 January of the year 1.\<close>

definition year_of_day :: "int \<Rightarrow> int" where
  "year_of_day d =
     (let n400 = d div 146097; d1 = d mod 146097;
          n100 = min 3 (d1 div 36524); d2 = d1 - 36524 * n100;
          n4 = d2 div 1461; d3 = d2 mod 1461;
          n1 = min 3 (d3 div 365)
      in 400 * n400 + 100 * n100 + 4 * n4 + n1 + 1)"

definition Year :: "time \<Rightarrow> int" where
  "Year t = year_of_day ((unix_sec t + zone t) div 86400 + 719162)"

type_synonym duration = "64 word"

text \<open>
  \<open>t.Sub(u)\<close>: the difference, or the largest or smallest duration when it is out of range.
\<close>

definition minDuration :: int where "minDuration = - (2 ^ 63)"
definition maxDuration :: int where "maxDuration = 2 ^ 63 - 1"

definition Sub :: "time \<Rightarrow> time \<Rightarrow> duration" where
  "Sub t u = word_of_int (max minDuration (min maxDuration (unix_ns t - unix_ns u)))"

definition maxClockSkew :: duration where "maxClockSkew = 30 * 1000000000"

definition clockSynced :: "time \<Rightarrow> bool" where
  "clockSynced now \<longleftrightarrow> Year now \<ge> 2024"

definition tsAcceptable :: "int \<Rightarrow> time \<Rightarrow> bool" where
  "tsAcceptable ts now =
     (if \<not> clockSynced now then True
      else let d = Sub now (Unix ts); d = (if d <s 0 then - d else d) in d \<le>s maxClockSkew)"

lemma year_of_day_2024: "year_of_day d \<ge> 2024 \<longleftrightarrow> d \<ge> 738885"
proof -
  define n400 d1 where "n400 = d div 146097" and "d1 = d mod 146097"
  define n100 where "n100 = min 3 (d1 div 36524)"
  define d2 where "d2 = d1 - 36524 * n100"
  define n4 d3 where "n4 = d2 div 1461" and "d3 = d2 mod 1461"
  define n1 where "n1 = min 3 (d3 div 365)"
  have y: "year_of_day d = 400 * n400 + 100 * n100 + 4 * n4 + n1 + 1"
    by (simp add: year_of_day_def Let_def n400_def d1_def n100_def d2_def n4_def d3_def n1_def)
  have d: "d = 146097 * n400 + d1" "0 \<le> d1" "d1 < 146097"
    by (simp_all add: n400_def d1_def)
  have n100: "0 \<le> n100" "n100 \<le> 3" "36524 * n100 \<le> d1" "n100 < 3 \<longrightarrow> d1 < 36524 * n100 + 36524"
    using d by (auto simp: n100_def min_def)
  have d2: "0 \<le> d2" "d2 \<le> 36524" "d1 = 36524 * n100 + d2"
    using d n100 by (auto simp: d2_def)
  have n4: "d2 = 1461 * n4 + d3" "0 \<le> d3" "d3 < 1461" by (simp_all add: n4_def d3_def)
  then have n4b: "0 \<le> n4" "n4 \<le> 24" using d2 by auto
  have n1: "0 \<le> n1" "n1 \<le> 3" "n1 = 3 \<longleftrightarrow> 1095 \<le> d3"
    using n4 by (auto simp: n1_def min_def)
  consider "n400 \<le> 4" | "n400 = 5" | "6 \<le> n400" by linarith
  then show ?thesis
  proof cases
    case 1
    then have "400 * n400 \<le> 1600" "146097 * n400 \<le> 584388" by simp_all
    with y d n100 n4b n1 show ?thesis by linarith
  next
    case 2
    show ?thesis
    proof (cases "n100 = 0")
      case True
      with 2 y d d2 n4 n4b n1 show ?thesis by (cases "n4 \<le> 4"; cases "n4 = 5") (auto; linarith)+
    next
      case False
      with n100 have "1 \<le> n100" by simp
      with 2 y d d2 n4b n1 show ?thesis by simp
    qed
  next
    case 3
    then have "2400 \<le> 400 * n400" "876582 \<le> 146097 * n400" by simp_all
    with y d n100 n4b n1 show ?thesis by linarith
  qed
qed

lemma clockSynced_iff: "clockSynced now \<longleftrightarrow> 1704067200 \<le> unix_sec now + zone now"
  by (simp add: clockSynced_def Year_def year_of_day_2024) linarith

lemma sint_minus_min: "sint (- (word_of_int (- (2 ^ 63)) :: 64 word)) = - (2 ^ 63)"
  by simp

lemma sint_word_id: "in_int64 i \<Longrightarrow> sint (word_of_int i :: 64 word) = i"
  by (simp add: sint_word_of_int_64 wrap64_id)

text \<open>What \<open>d = -d\<close> leaves: the absolute value, except at the smallest duration.\<close>

lemma abs_duration:
  assumes "in_int64 i"
  shows "sint (if (word_of_int i :: duration) <s 0 then - word_of_int i
               else (word_of_int i :: duration)) =
     (if i = - (2 ^ 63) then - (2 ^ 63) else \<bar>i\<bar>)"
proof (cases "i < 0 \<and> i \<noteq> - (2 ^ 63)")
  case True
  then have "in_int64 (- i)" using assms by (auto simp: in_int64_def)
  then have "sint (word_of_int (- i) :: 64 word) = - i" by (rule sint_word_id)
  with True assms show ?thesis by (simp add: word_sless_alt sint_word_id)
next
  case False
  then consider "i = - (2 ^ 63)" | "0 \<le> i" by linarith
  then show ?thesis
  proof cases
    case 1
    then show ?thesis by (simp add: word_sless_alt)
  next
    case 2
    then show ?thesis using assms by (auto simp: word_sless_alt sint_word_id)
  qed
qed

lemma tsAcceptable_char:
  "tsAcceptable ts now \<longleftrightarrow>
     \<not> clockSynced now \<or>
     (let d = unix_ns now - unix_ns (Unix ts) in \<bar>d\<bar> \<le> 30000000000 \<or> d \<le> - (2 ^ 63))"
proof -
  define d where "d = unix_ns now - unix_ns (Unix ts)"
  define s where "s = max minDuration (min maxDuration d)"
  have s: "in_int64 s"
    by (auto simp: s_def in_int64_def minDuration_def maxDuration_def)
  have skew: "sint maxClockSkew = 30000000000" by (simp add: maxClockSkew_def)
  have sub: "Sub now (Unix ts) = word_of_int s" by (simp add: Sub_def d_def s_def)
  have "(let w = Sub now (Unix ts); w = (if w <s 0 then - w else w) in w \<le>s maxClockSkew) \<longleftrightarrow>
      (if s = - (2 ^ 63) then - (2 ^ 63) else \<bar>s\<bar>) \<le> 30000000000"
    unfolding sub Let_def word_sle_eq abs_duration [OF s] skew ..
  also have "\<dots> \<longleftrightarrow> \<bar>d\<bar> \<le> 30000000000 \<or> d \<le> - (2 ^ 63)"
    by (auto simp: s_def minDuration_def maxDuration_def)
  finally show ?thesis by (simp add: tsAcceptable_def d_def Let_def)
qed

lemma Unix_exact:
  "in_int64 (ts + unixToInternal) \<Longrightarrow> unix_ns (Unix ts) = ts * 1000000000"
  by (simp add: Unix_def wrap64_id)

text \<open>
  C37: the time-stamp check, in full. While the local year is before 2024 every stamp passes. From
  2024 on a stamp (in the range \<open>time.Unix\<close> represents) passes exactly when it is at most 30
  seconds from the local clock, in either direction, or so far in the future (more than 292
  years) that the difference saturates at the smallest duration, whose negation overflows.
\<close>

theorem tsAcceptable_iff:
  assumes "in_int64 (ts + unixToInternal)"
  shows "tsAcceptable ts now \<longleftrightarrow>
    unix_sec now + zone now < 1704067200 \<or>
    \<bar>unix_ns now - ts * 1000000000\<bar> \<le> 30000000000 \<or>
    unix_ns now + 2 ^ 63 \<le> ts * 1000000000"
  unfolding tsAcceptable_char Unix_exact [OF assms] clockSynced_iff Let_def by auto

text \<open>13 October 2026, 12:00:00 UTC.\<close>

definition oct_2026 :: time where
  "oct_2026 = \<lparr>unix_ns = 1791892800 * 1000000000, zone = 0\<rparr>"

theorem tsAcceptable_iff_witness:
  "tsAcceptable 1791892771 oct_2026 \<and> \<not> tsAcceptable 1791892831 oct_2026 \<and>
   \<not> tsAcceptable 1791892680 oct_2026"
proof -
  have r: "in_int64 (1791892771 + unixToInternal)" "in_int64 (1791892831 + unixToInternal)"
    "in_int64 (1791892680 + unixToInternal)"
    by (simp_all add: in_int64_def unixToInternal_def)
  show ?thesis
    unfolding tsAcceptable_iff [OF r(1)] tsAcceptable_iff [OF r(2)] tsAcceptable_iff [OF r(3)]
    by (simp add: oct_2026_def unix_sec_def)
qed

text \<open>
  The check does not reject every stamp outside the tolerance: with a synchronized clock, a
  message stamped more than 2^63 nanoseconds (292 years) ahead is accepted, for instance one
  stamped in the year 2326 or later when the clock says October 2026.
\<close>

theorem tsAcceptable_far_future:
  assumes "unix_ns now + 2 ^ 63 \<le> ts * 1000000000" and "in_int64 (ts + unixToInternal)"
  shows "tsAcceptable ts now"
  using assms(1) by (simp add: tsAcceptable_char Unix_exact [OF assms(2)] Let_def)

theorem tsAcceptable_far_future_witness:
  "clockSynced oct_2026 \<and> tsAcceptable 11234567890 oct_2026"
proof -
  have "tsAcceptable 11234567890 oct_2026"
    by (rule tsAcceptable_far_future) (simp_all add: oct_2026_def in_int64_def unixToInternal_def)
  then show ?thesis by (simp add: clockSynced_iff oct_2026_def unix_sec_def)
qed

end
