(* ===== verification/Sdp.thy ===== *)
theory Sdp imports Source begin

text \<open>
  The text parsers of \<open>rtsp_client.go\<close>: the codecs (\<open>ParseCodecs\<close>) and the tracks (\<open>ParseMedia\<close>) of an
  SDP, the session identifier (\<open>ParseSession\<close>), a quoted directive of an authentication challenge
  (\<open>ParseDirective\<close>), the status code, and the connection parameters of the source URL
  (\<open>ParseUrl\<close>). Slice expressions keep their bounds checks: a panic is a result.
\<close>

abbreviation LF :: string where "LF \<equiv> [CHR 0x0A]"
abbreviation CR :: string where "CR \<equiv> [CHR 0x0D]"
abbreviation CRLF :: string where "CRLF \<equiv> [CHR 0x0D, CHR 0x0A]"
abbreviation QUOTE :: string where "QUOTE \<equiv> [CHR 0x22]"

section \<open>Codecs of an SDP\<close>

text \<open>The variables of \<open>ParseCodecs\<close> that its closure \<open>flush\<close> and its loop share.\<close>

record codec_scan =
  scan_info :: SourceInfo
  media :: string
  rtpmapSeen :: bool
  staticAudio :: "string list"

definition flush_section :: "codec_scan \<Rightarrow> codec_scan" where
  "flush_section st =
     (let st1 = (if media st = ''audio'' \<and> \<not> rtpmapSeen st
                 then st\<lparr>scan_info := (scan_info st)\<lparr>Audio := Audio (scan_info st) @ staticAudio st\<rparr>\<rparr>
                 else st)
      in st1\<lparr>rtpmapSeen := False, staticAudio := []\<rparr>)"

fun static_codecs :: "string list \<Rightarrow> string list" where
  "static_codecs [] = []"
| "static_codecs (pt # pts) =
     (if pt = ''0'' then ''pcmu'' # static_codecs pts
      else if pt = ''8'' then ''pcma'' # static_codecs pts
      else static_codecs pts)"

definition media_line :: "string \<Rightarrow> codec_scan \<Rightarrow> codec_scan" where
  "media_line line st0 =
     (let st = flush_section st0;
          fields = Fields (drop 2 line);
          md = (case fields of f # _ \<Rightarrow> (if f = ''video'' \<or> f = ''audio'' then f else '''') | [] \<Rightarrow> '''')
      in st\<lparr>media := md,
            staticAudio := (if md = ''audio'' \<and> length fields > 3
                            then staticAudio st @ static_codecs (drop 3 fields) else staticAudio st)\<rparr>)"

definition rtpmap_line :: "string \<Rightarrow> codec_scan \<Rightarrow> codec_scan" where
  "rtpmap_line line st =
     (let rest = drop (length ''a=rtpmap:'') line
      in case find_sub rest '' '' of
           None \<Rightarrow> st
         | Some sp \<Rightarrow>
             (let name = ToLower (SplitN2_fst (TrimSpace (drop (sp + 1) rest)) ''/'')
              in if media st = ''video''
                 then st\<lparr>scan_info := (scan_info st)\<lparr>Video := Video (scan_info st) @ [name]\<rparr>\<rparr>
                 else st\<lparr>scan_info := (scan_info st)\<lparr>Audio := Audio (scan_info st) @ [name]\<rparr>,
                         rtpmapSeen := True\<rparr>))"

definition codec_line :: "string \<Rightarrow> codec_scan \<Rightarrow> codec_scan" where
  "codec_line raw st =
     (let line = TrimSpace raw
      in if HasPrefix line ''m='' then media_line line st
         else if HasPrefix line ''a=rtpmap:'' \<and> media st \<noteq> '''' then rtpmap_line line st
         else st)"

definition ParseCodecs :: "string \<Rightarrow> SourceInfo" where
  "ParseCodecs sdp =
     scan_info (flush_section (fold codec_line (Split sdp LF)
       \<lparr>scan_info = \<lparr>Video = [], Audio = []\<rparr>, media = '''', rtpmapSeen = False, staticAudio = []\<rparr>))"

section \<open>Tracks and dimensions of an SDP\<close>

definition controlPrefix :: string where "controlPrefix = ''a=control:''"
definition dimensionsPrefix :: string where "dimensionsPrefix = ''a=x-dimensions:''"

text \<open>
  \<open>fmt.Sscanf(s, "%d", &v)\<close> into \<open>v = 0\<close>: leading space (but no line feed) is skipped, then an
  optional sign and the longest run of digits; on any error \<open>v\<close> stays 0.
\<close>

definition scan_int :: "string \<Rightarrow> int" where
  "scan_int s =
     (let t = dropWhile (\<lambda>c. is_space c \<and> c \<noteq> CHR 0x0A) s;
          neg = (t \<noteq> [] \<and> hd t = CHR ''-'');
          d = takeWhile is_digit
                (if t \<noteq> [] \<and> (hd t = CHR ''-'' \<or> hd t = CHR ''+'') then tl t else t);
          v = (if neg then - int (digits_val d) else int (digits_val d))
      in if d = [] \<or> \<not> in_int64 v then 0 else v)"

text \<open>The inner loop: it stops at the first component that is not positive.\<close>

fun scan_dims :: "string list \<Rightarrow> int list" where
  "scan_dims [] = []"
| "scan_dims (s # ss) = (let v = scan_int s in if v \<le> 0 then [] else v # scan_dims ss)"

definition track_of :: "string \<Rightarrow> string list" where
  "track_of element =
     (case find_sub element controlPrefix of
        Some idx \<Rightarrow>
          if Contains element ''*'' then []
          else (let paste = drop (idx + length controlPrefix) element
                in case find_last paste ''/'' of
                     Some slashIdx \<Rightarrow> [drop (slashIdx + 1) paste]
                   | None \<Rightarrow> [paste])
      | None \<Rightarrow> [])"

definition dims_of :: "string \<Rightarrow> int \<times> int \<Rightarrow> int \<times> int" where
  "dims_of element wh =
     (if HasPrefix element dimensionsPrefix
      then (case scan_dims (Split (drop (length dimensionsPrefix) element) '','') of
              [w, h] \<Rightarrow> (w, h) | _ \<Rightarrow> wh)
      else wh)"

text \<open>
  \<open>ParseMedia\<close>: the track names in order, and the client's dimensions \<open>(videow, videoh)\<close> after the
  scan.
\<close>

definition ParseMedia :: "string \<Rightarrow> int \<times> int \<Rightarrow> string list \<times> (int \<times> int)" where
  "ParseMedia header wh =
     (let mparsed = Split header CRLF
      in (concat (map track_of mparsed), fold dims_of mparsed wh))"

section \<open>Header fields\<close>

definition ParseDirective :: "string \<Rightarrow> string \<Rightarrow> string res" where
  "ParseDirective header name =
     (let start = Index header (name @ ''='' @ QUOTE)
      in if start = -1 then Inr ''''
         else let start = start + int (length name) + 2
              in bind_res (slice_from header start) (\<lambda>tail.
                   let e = start + Index tail QUOTE
                   in bind_res (slice header start e) (\<lambda>v. Inr (TrimSpace v))))"

fun session_scan :: "string list \<Rightarrow> string res" where
  "session_scan [] = Inr ''''"
| "session_scan (element # es) =
     (if Contains element ''Session:''
      then if Contains element '';'' then slice_from (hd (Split element '';'')) 9
           else slice_from element 9
      else session_scan es)"

definition ParseSession :: "string \<Rightarrow> string res" where
  "ParseSession header = session_scan (Split header CRLF)"

definition parseRTSPStatusCode :: "string \<Rightarrow> int" where
  "parseRTSPStatusCode statusLine =
     (let parts = Fields statusLine
      in if length parts < 2 then 0
         else let (code, ok) = Atoi (parts ! 1) in if ok then code else 0)"

section \<open>The source URL\<close>

text \<open>What \<open>url.Parse\<close> returns, as far as the client reads it.\<close>

record URL =
  Host :: string
  Path :: string \<comment> \<open>the decoded path\<close>
  RawQuery :: string
  User :: "(string \<times> string option) option"

record endpoint =
  ep_host :: string
  ep_port :: string
  ep_uri :: string
  ep_login :: string
  ep_password :: string

definition ParseUrl :: "(string \<Rightarrow> URL option) \<Rightarrow> string \<Rightarrow> endpoint option" where
  "ParseUrl url_Parse rtsp_url =
     (case url_Parse rtsp_url of
        None \<Rightarrow> None
      | Some u \<Rightarrow>
          (let phost = Split (Host u) '':'';
               host = hd phost;
               port = (if length phost = 2 then phost ! 1 else ''554'');
               login = (case User u of None \<Rightarrow> '''' | Some (n, _) \<Rightarrow> n);
               password = (case User u of Some (_, Some p) \<Rightarrow> p | _ \<Rightarrow> '''');
               uri = ''rtsp://'' @ host @ '':'' @ port @ Path u;
               uri = (if RawQuery u \<noteq> '''' then uri @ ''?'' @ RawQuery u else uri)
           in Some \<lparr>ep_host = host, ep_port = port, ep_uri = uri,
                    ep_login = login, ep_password = password\<rparr>))"

section \<open>Fields of joined words\<close>

definition is_word :: "string \<Rightarrow> bool" where
  "is_word w \<longleftrightarrow> w \<noteq> [] \<and> list_all (\<lambda>c. \<not> is_space c) w"

lemma is_space_consts [simp]:
  "is_space CHR '' ''" "is_space CHR 0x0D" "is_space CHR 0x0A"
  "\<not> is_space CHR ''m''" "\<not> is_space CHR ''a''" "\<not> is_space CHR ''/''" "\<not> is_space CHR ''=''"
  by (simp_all add: is_space_def byte_val_def)

lemma Fields_word:
  assumes "is_word w" and "t = [] \<or> is_space (hd t)"
  shows "Fields (w @ t) = w # Fields t"
proof -
  from assms(1) obtain c u where w: "w = c # u" "\<not> is_space c"
    by (cases w) (auto simp: is_word_def)
  have all: "\<forall>x\<in>set w. \<not> is_space x" using assms(1) by (simp add: is_word_def list_all_iff)
  have tk: "takeWhile (\<lambda>c. \<not> is_space c) (w @ t) = w"
    using all assms(2) by (cases t) (auto simp: takeWhile_append)
  have dr: "dropWhile (\<lambda>c. \<not> is_space c) (w @ t) = t"
    using all assms(2) by (cases t) (auto simp: dropWhile_append)
  have "dropWhile is_space (w @ t) = w @ t" "w @ t \<noteq> []" using w by simp_all
  then show ?thesis by (subst Fields.simps) (simp add: Let_def tk dr)
qed

lemma Fields_space: "is_space c \<Longrightarrow> Fields (c # t) = Fields t"
  by (simp add: Fields.simps [of "c # t"] Fields.simps [of t])

lemma Fields_Nil [simp]: "Fields [] = []"
  by (subst Fields.simps) simp

lemma Fields_join:
  "list_all is_word ws \<Longrightarrow> Fields (join_with '' '' ws) = ws"
proof (induction "'' ''" ws rule: join_with.induct)
  case (2 x)
  then show ?case using Fields_word [of x "[]"] by simp
next
  case (3 x y zs)
  then show ?case
    using Fields_word [of x "'' '' @ join_with '' '' (y # zs)"] by (simp add: Fields_space)
qed simp

lemma TrimSpace_CR:
  assumes "s \<noteq> []" "\<not> is_space (hd s)" "\<not> is_space (last s)"
  shows "TrimSpace (s @ CR) = s"
proof -
  have "dropWhile is_space (s @ CR) = s @ CR" using assms by (cases s) auto
  then have "TrimSpace (s @ CR) = TrimSpace s"
    using assms by (cases s) (auto simp: TrimSpace_def)
  with assms show ?thesis by (simp add: TrimSpace_fixed)
qed

section \<open>A reference SDP and what it announces\<close>

text \<open>
  The abstract form of a DESCRIBE answer: lines before the first media section (status line,
  headers, session part), and media sections, each a kind, payload types, \<open>rtpmap\<close> attributes
  (payload type, codec name, clock) and other lines.
\<close>

record media_section =
  kind :: string
  pts :: "string list"
  rtpmaps :: "(string \<times> string \<times> string) list"
  others :: "string list"

definition map_text :: "string \<times> string \<times> string \<Rightarrow> string" where
  "map_text m = (case m of (pt, name, clock) \<Rightarrow> ''a=rtpmap:'' @ pt @ '' '' @ name @ ''/'' @ clock @ CR)"

definition section_lines :: "media_section \<Rightarrow> string list" where
  "section_lines s =
     [''m='' @ join_with '' '' (kind s # ''0'' # ''RTP/AVP'' # pts s) @ CR] @
     map map_text (rtpmaps s) @ others s"

definition sdp_text :: "string list \<Rightarrow> media_section list \<Rightarrow> string" where
  "sdp_text pre ss = join_with LF (pre @ concat (map section_lines ss))"

definition plain_line :: "string \<Rightarrow> bool" where
  "plain_line l \<longleftrightarrow> CHR 0x0A \<notin> set l \<and> \<not> HasPrefix (TrimSpace l) ''m='' \<and>
     \<not> HasPrefix (TrimSpace l) ''a=rtpmap:''"

definition wf_map :: "string \<times> string \<times> string \<Rightarrow> bool" where
  "wf_map m = (case m of (pt, name, clock) \<Rightarrow>
     is_word pt \<and> is_word name \<and> is_word clock \<and> CHR ''/'' \<notin> set name)"

definition wf_section :: "media_section \<Rightarrow> bool" where
  "wf_section s \<longleftrightarrow> is_word (kind s) \<and> list_all is_word (pts s) \<and> list_all wf_map (rtpmaps s) \<and>
     list_all plain_line (others s)"

definition map_names :: "media_section \<Rightarrow> string list" where
  "map_names s = map (\<lambda>(pt, name, clock). ToLower name) (rtpmaps s)"

definition announced_video :: "media_section \<Rightarrow> string list" where
  "announced_video s = (if kind s = ''video'' then map_names s else [])"

definition announced_audio :: "media_section \<Rightarrow> string list" where
  "announced_audio s =
     (if kind s = ''audio''
      then if rtpmaps s = [] then static_codecs (pts s) else map_names s
      else [])"

lemma word_no_space: "is_word w \<Longrightarrow> is_space c \<Longrightarrow> c \<notin> set w"
  by (auto simp: is_word_def list_all_iff)

lemma join_words:
  assumes "ws \<noteq> []" "list_all is_word ws"
  shows "join_with '' '' ws \<noteq> []" "\<not> is_space (last (join_with '' '' ws))"
    "CHR 0x0A \<notin> set (join_with '' '' ws)"
  using assms
proof (induction "'' ''" ws rule: join_with.induct)
  case (2 x)
  { case 1 then show ?case by (simp add: is_word_def) }
  { case 2 then show ?case by (auto simp: is_word_def list_all_iff) }
  { case 3 then show ?case using word_no_space by fastforce }
next
  case (3 x y zs)
  { case 1 then show ?case by simp }
  { case 2 then show ?case using "3.hyps"(1,2) by simp }
  { case 3 then show ?case using "3.hyps"(3) word_no_space by fastforce }
qed simp_all

lemma TrimSpace_media:
  "TrimSpace (''m='' @ s @ CR) = ''m='' @ s" if "s \<noteq> []" "\<not> is_space (last s)"
  using that TrimSpace_CR [of "''m='' @ s"] by simp

lemma codec_line_media:
  assumes "wf_section s"
  shows "codec_line (''m='' @ join_with '' '' (kind s # ''0'' # ''RTP/AVP'' # pts s) @ CR) st =
     (flush_section st)\<lparr>media := (if kind s = ''video'' \<or> kind s = ''audio'' then kind s else ''''),
        staticAudio := (if kind s = ''audio'' then static_codecs (pts s) else [])\<rparr>"
proof -
  let ?ws = "kind s # ''0'' # ''RTP/AVP'' # pts s"
  have words: "list_all is_word ?ws"
    using assms by (simp add: wf_section_def is_word_def is_space_def byte_val_def)
  have trim: "TrimSpace (''m='' @ join_with '' '' ?ws @ CR) = ''m='' @ join_with '' '' ?ws"
    using join_words [OF _ words] by (intro TrimSpace_media) simp_all
  have fields: "Fields (join_with '' '' ?ws) = ?ws" by (rule Fields_join [OF words])
  have static: "staticAudio (flush_section st) = []" by (simp add: flush_section_def Let_def)
  have head: "HasPrefix (''m='' @ j) ''m=''" "drop 2 (''m='' @ j) = j" for j
    by (rule HasPrefix_append) simp
  have len: "static_codecs (drop 3 ?ws) = (if length ?ws > 3 then static_codecs (pts s) else [])"
    by simp
  show ?thesis
    by (simp only: codec_line_def Let_def trim media_line_def head fields static if_True)
       (cases "pts s"; simp)
qed

lemma rtpmap_parts:
  assumes "wf_map (pt, name, clock)"
  shows "TrimSpace (map_text (pt, name, clock)) = ''a=rtpmap:'' @ pt @ '' '' @ name @ ''/'' @ clock"
    and "find_sub (pt @ '' '' @ name @ ''/'' @ clock) '' '' = Some (length pt)"
    and "TrimSpace (name @ ''/'' @ clock) = name @ ''/'' @ clock"
    and "SplitN2_fst (name @ ''/'' @ clock) ''/'' = name"
    and "\<not> HasPrefix (''a=rtpmap:'' @ pt @ '' '' @ name @ ''/'' @ clock) ''m=''"
    and "CHR 0x0A \<notin> set (map_text (pt, name, clock))"
proof -
  have w: "is_word pt" "is_word name" "is_word clock" "CHR ''/'' \<notin> set name"
    using assms by (simp_all add: wf_map_def)
  then have ends: "name \<noteq> []" "clock \<noteq> []" "\<not> is_space (hd name)" "\<not> is_space (last clock)"
    by (auto simp: is_word_def list_all_iff)
  have "TrimSpace ((''a=rtpmap:'' @ pt @ '' '' @ name @ ''/'' @ clock) @ CR) =
      ''a=rtpmap:'' @ pt @ '' '' @ name @ ''/'' @ clock"
    using ends by (intro TrimSpace_CR) auto
  then show "TrimSpace (map_text (pt, name, clock)) =
      ''a=rtpmap:'' @ pt @ '' '' @ name @ ''/'' @ clock"
    by (simp add: map_text_def)
  show "find_sub (pt @ '' '' @ name @ ''/'' @ clock) '' '' = Some (length pt)"
    using w(1) word_no_space by (intro find_sub_first) auto
  show "TrimSpace (name @ ''/'' @ clock) = name @ ''/'' @ clock"
    using ends by (intro TrimSpace_fixed) auto
  have "find_sub (name @ ''/'' @ clock) ''/'' = Some (length name)"
    using w(4) by (intro find_sub_first) auto
  then show "SplitN2_fst (name @ ''/'' @ clock) ''/'' = name" by (simp add: SplitN2_fst_def)
  show "\<not> HasPrefix (''a=rtpmap:'' @ pt @ '' '' @ name @ ''/'' @ clock) ''m=''"
    by (simp add: HasPrefix_def)
  show "CHR 0x0A \<notin> set (map_text (pt, name, clock))"
    using w(1-3) word_no_space [of _ "CHR 0x0A"] by (auto simp: map_text_def)
qed

lemma codec_line_rtpmap:
  assumes "wf_map (pt, name, clock)"
  shows "codec_line (map_text (pt, name, clock)) st =
     (if media st = '''' then st
      else if media st = ''video''
      then st\<lparr>scan_info := (scan_info st)\<lparr>Video := Video (scan_info st) @ [ToLower name]\<rparr>\<rparr>
      else st\<lparr>scan_info := (scan_info st)\<lparr>Audio := Audio (scan_info st) @ [ToLower name]\<rparr>,
              rtpmapSeen := True\<rparr>)"
proof -
  have "HasPrefix (''a=rtpmap:'' @ pt @ '' '' @ name @ ''/'' @ clock) ''a=rtpmap:''"
    by (rule HasPrefix_append)
  moreover have "drop (length ''a=rtpmap:'') (''a=rtpmap:'' @ pt @ '' '' @ name @ ''/'' @ clock) =
      pt @ '' '' @ name @ ''/'' @ clock"
    by simp
  moreover have "drop (length pt + 1) (pt @ '' '' @ name @ ''/'' @ clock) = name @ ''/'' @ clock"
    by simp
  ultimately show ?thesis
    unfolding codec_line_def rtpmap_line_def Let_def rtpmap_parts(1) [OF assms]
    by (cases "media st = ''''")
       (simp_all only: rtpmap_parts(2-5) [OF assms] if_True if_False option.case simp_thms)
qed

lemma fold_maps:
  assumes "list_all wf_map ms"
  shows "fold codec_line (map map_text ms) st =
     (if media st = '''' \<or> ms = [] then st
      else if media st = ''video''
      then st\<lparr>scan_info := (scan_info st)\<lparr>Video := Video (scan_info st) @ map (\<lambda>(pt, n, c). ToLower n) ms\<rparr>\<rparr>
      else st\<lparr>scan_info := (scan_info st)\<lparr>Audio := Audio (scan_info st) @ map (\<lambda>(pt, n, c). ToLower n) ms\<rparr>,
              rtpmapSeen := True\<rparr>)"
  using assms
proof (induction ms arbitrary: st)
  case (Cons m ms)
  obtain pt n c where m: "m = (pt, n, c)" by (cases m)
  with Cons.prems have "wf_map (pt, n, c)" "list_all wf_map ms" by simp_all
  then show ?case
    unfolding m list.map fold.simps comp_apply codec_line_rtpmap [OF \<open>wf_map (pt, n, c)\<close>]
    by (simp add: Cons.IH)
qed simp

lemma fold_plain: "list_all plain_line ls \<Longrightarrow> fold codec_line ls st = st"
  by (induction ls) (simp_all add: plain_line_def codec_line_def Let_def)

text \<open>One section after another: flushing after a section adds exactly what it announces.\<close>

lemma fold_section:
  assumes "wf_section s"
  shows "flush_section (fold codec_line (section_lines s) st) =
     (flush_section st)\<lparr>scan_info := \<lparr>Video = Video (scan_info (flush_section st)) @ announced_video s,
         Audio = Audio (scan_info (flush_section st)) @ announced_audio s\<rparr>,
       media := (if kind s = ''video'' \<or> kind s = ''audio'' then kind s else '''')\<rparr>"
proof -
  have maps: "list_all wf_map (rtpmaps s)" and oth: "list_all plain_line (others s)"
    using assms by (simp_all add: wf_section_def)
  show ?thesis
    unfolding section_lines_def fold_append comp_apply fold.simps id_apply
      codec_line_media [OF assms] fold_maps [OF maps] fold_plain [OF oth]
    by (cases "rtpmaps s = []"; cases "kind s = ''video''"; cases "kind s = ''audio''")
       (simp_all add: flush_section_def Let_def announced_video_def announced_audio_def map_names_def)
qed

lemma fold_sections:
  assumes "list_all wf_section ss"
  shows "scan_info (flush_section (fold codec_line (concat (map section_lines ss)) st)) =
     \<lparr>Video = Video (scan_info (flush_section st)) @ concat (map announced_video ss),
      Audio = Audio (scan_info (flush_section st)) @ concat (map announced_audio ss)\<rparr>"
  using assms
proof (induction ss arbitrary: st)
  case (Cons s ss)
  then show ?case by (simp add: fold_section)
qed simp

lemma section_lines_no_LF:
  assumes "wf_section s" and "l \<in> set (section_lines s)"
  shows "CHR 0x0A \<notin> set l"
proof -
  let ?ws = "kind s # ''0'' # ''RTP/AVP'' # pts s"
  have "list_all is_word ?ws"
    using assms(1) by (simp add: wf_section_def is_word_def is_space_def byte_val_def)
  then have "CHR 0x0A \<notin> set (join_with '' '' ?ws)" by (intro join_words) simp_all
  moreover have "m \<in> set (rtpmaps s) \<Longrightarrow> CHR 0x0A \<notin> set (map_text m)" for m
    using assms(1) rtpmap_parts(6) [of "fst m" "fst (snd m)" "snd (snd m)"]
    by (auto simp: wf_section_def list_all_iff)
  ultimately show ?thesis
    using assms by (auto simp: section_lines_def wf_section_def plain_line_def list_all_iff
        simp del: join_with.simps)
qed

text \<open>
  C34: \<open>ParseCodecs\<close> reads a well-formed DESCRIBE answer correctly: the video codecs are the lower-case
  \<open>rtpmap\<close> names of the video sections in order; the audio codecs are, section by section, the
  \<open>rtpmap\<close> names if the section has any and otherwise those of the static payload types 0 (PCMU)
  and 8 (PCMA); other sections and lines announce nothing.
\<close>

theorem ParseCodecs_correct:
  assumes "list_all plain_line pre" and "list_all wf_section ss" and "pre \<noteq> []"
  shows "ParseCodecs (sdp_text pre ss) =
     \<lparr>Video = concat (map announced_video ss), Audio = concat (map announced_audio ss)\<rparr>"
proof -
  have "Split (sdp_text pre ss) LF = pre @ concat (map section_lines ss)"
    unfolding sdp_text_def
    using assms section_lines_no_LF
    by (intro Split_join) (auto simp: plain_line_def list_all_iff)
  then show ?thesis
    by (simp add: ParseCodecs_def fold_plain [OF assms(1)] fold_sections [OF assms(2)])
       (simp add: flush_section_def Let_def)
qed

definition sample_pre :: "string list" where
  "sample_pre = [''RTSP/1.0 200 OK'' @ CR, ''CSeq: 2'' @ CR, CR, ''v=0'' @ CR]"

definition sample_sections :: "media_section list" where
  "sample_sections =
     [\<lparr>kind = ''video'', pts = [''96''], rtpmaps = [(''96'', ''H264'', ''90000'')], others = []\<rparr>,
      \<lparr>kind = ''audio'', pts = [''0''], rtpmaps = [], others = [''a=control:track2'' @ CR]\<rparr>,
      \<lparr>kind = ''audio'', pts = [''97''], rtpmaps = [(''97'', ''MPEG4-GENERIC'', ''16000'')], others = []\<rparr>]"

theorem ParseCodecs_correct_witness:
  "ParseCodecs (sdp_text sample_pre sample_sections) =
     \<lparr>Video = [''h264''], Audio = [''pcmu'', ''mpeg4-generic'']\<rparr>"
proof -
  have "list_all plain_line sample_pre" "list_all wf_section sample_sections" "sample_pre \<noteq> []"
    by code_simp+
  from ParseCodecs_correct [OF this]
  have "ParseCodecs (sdp_text sample_pre sample_sections) =
     \<lparr>Video = concat (map announced_video sample_sections),
      Audio = concat (map announced_audio sample_sections)\<rparr>" .
  moreover have "concat (map announced_video sample_sections) = [''h264'']"
    "concat (map announced_audio sample_sections) = [''pcmu'', ''mpeg4-generic'']"
    by code_simp+
  ultimately show ?thesis by simp
qed

section \<open>Header fields: correctness and panics\<close>

lemma HasPrefix_single [simp]: "HasPrefix (c # s) [d] \<longleftrightarrow> c = d"
  by (simp add: HasPrefix_def)

lemma hd_Split: "sep \<noteq> [] \<Longrightarrow> hd (Split s sep) = SplitN2_fst s sep"
  by (subst Split.simps) (simp add: SplitN2_fst_def split: option.splits)

lemma find_sub_char: "find_sub s [c] = None \<longleftrightarrow> c \<notin> set s"
  unfolding find_sub_None_iff by (auto simp: in_set_conv_decomp)

lemma SplitN2_fst_first: "c \<notin> set a \<Longrightarrow> SplitN2_fst (a @ c # b) [c] = a"
  using find_sub_first [of "[c]" a b] by (simp add: SplitN2_fst_def)

lemma session_scan_find:
  "session_scan ls =
     (case find (\<lambda>l. Contains l ''Session:'') ls of
        None \<Rightarrow> Inr '''' | Some l \<Rightarrow> slice_from (SplitN2_fst l '';'') 9)"
  by (induction ls) (auto simp: hd_Split Contains_def SplitN2_fst_def split: option.splits)

lemma ParseSession_lines:
  "ls \<noteq> [] \<Longrightarrow> (\<And>l. l \<in> set ls \<Longrightarrow> CHR 0x0D \<notin> set l) \<Longrightarrow>
     ParseSession (join_with CRLF ls) =
     (case find (\<lambda>l. Contains l ''Session:'') ls of
        None \<Rightarrow> Inr '''' | Some l \<Rightarrow> slice_from (SplitN2_fst l '';'') 9)"
  unfolding ParseSession_def by (subst Split_join) (simp_all add: session_scan_find)

text \<open>
  The session identifier of a SETUP answer: in an answer whose first line with "Session:" is a
  header "Session: id" or "Session: id;timeout=..." (id without a semicolon), \<open>ParseSession\<close> returns
  exactly the identifier, whatever the other lines are; without such a line it returns the empty
  string.
\<close>

theorem ParseSession_correct:
  assumes "\<forall>l\<in>set (pre @ post). CHR 0x0D \<notin> set l" and "\<forall>l\<in>set pre. \<not> Contains l ''Session:''"
    and "CHR 0x0D \<notin> set (sid @ opts)" and "CHR '';'' \<notin> set sid"
    and "opts = '''' \<or> hd opts = CHR '';''"
  shows "ParseSession (join_with CRLF (pre @ (''Session: '' @ sid @ opts) # post)) = Inr sid"
proof -
  let ?l = "''Session: '' @ sid @ opts"
  have first: "find (\<lambda>l. Contains l ''Session:'') (pre @ ?l # post) = Some ?l"
  proof -
    have "Contains ?l ''Session:''"
      unfolding Contains_iff by (rule exI [of _ "[]"], rule exI [of _ "'' '' @ sid @ opts"]) simp
    with assms(2) show ?thesis by (induction pre) auto
  qed
  have cut: "SplitN2_fst ?l '';'' = ''Session: '' @ sid"
  proof (cases opts)
    case Nil
    then have "find_sub ?l '';'' = None" using assms(4) by (simp add: find_sub_char)
    with Nil show ?thesis by (simp add: SplitN2_fst_def)
  next
    case (Cons c u)
    with assms(5) have "c = CHR '';''" by simp
    with Cons assms(4) show ?thesis
      using SplitN2_fst_first [of "CHR '';''" "''Session: '' @ sid" u] by simp
  qed
  have "ParseSession (join_with CRLF (pre @ ?l # post)) =
     (case find (\<lambda>l. Contains l ''Session:'') (pre @ ?l # post) of
        None \<Rightarrow> Inr '''' | Some l \<Rightarrow> slice_from (SplitN2_fst l '';'') 9)"
    using assms(1,3) by (intro ParseSession_lines) auto
  also have "\<dots> = slice_from (''Session: '' @ sid) 9"
    by (simp only: first cut option.case)
  finally show ?thesis by (simp add: slice_from_def)
qed

theorem ParseSession_correct_witness:
  "ParseSession (join_with CRLF
     ([''RTSP/1.0 200 OK'', ''CSeq: 4''] @ (''Session: '' @ ''12345678'' @ '';timeout=60'') # [''''])) =
   Inr ''12345678''"
  by (rule ParseSession_correct) code_simp+

text \<open>
  \<open>ParseSession\<close> assumes at least nine characters before a semicolon: an answer with a bare
  "Session:" header, or with a line that has a semicolon before the name, makes the slice
  expression panic; and a header without the optional space loses the first character of the
  identifier.
\<close>

theorem ParseSession_panics:
  assumes "find (\<lambda>l. Contains l ''Session:'') ls = Some l" and "length (SplitN2_fst l '';'') < 9"
    and "\<forall>l\<in>set ls. CHR 0x0D \<notin> set l"
  shows "panics (ParseSession (join_with CRLF ls))"
proof -
  have "ls \<noteq> []" using assms(1) by auto
  then show ?thesis using assms by (simp add: ParseSession_lines slice_from_panics)
qed

theorem ParseSession_panics_witness:
  "panics (ParseSession (join_with CRLF [''RTSP/1.0 200 OK'', ''Session:'', ''''])) \<and>
   ParseSession (join_with CRLF [''RTSP/1.0 200 OK'', ''Session:12345678'', '''']) = Inr ''2345678''"
proof
  show "panics (ParseSession (join_with CRLF [''RTSP/1.0 200 OK'', ''Session:'', '''']))"
    by (rule ParseSession_panics [where l = "''Session:''"]) code_simp+
  show "ParseSession (join_with CRLF [''RTSP/1.0 200 OK'', ''Session:12345678'', '''']) = Inr ''2345678''"
    by code_simp
qed

lemma Index_None: "find_sub s p = None \<Longrightarrow> Index s p = -1"
  by (simp add: Index_def)

lemma Index_Some: "find_sub s p = Some n \<Longrightarrow> Index s p = int n"
  by (simp add: Index_def)

lemma ParseDirective_cases_parts:
  fixes header name
  defines "key \<equiv> name @ ''='' @ QUOTE"
  shows "find_sub header key = None \<Longrightarrow> ParseDirective header name = Inr ''''"
    and "find_sub header key = Some n \<Longrightarrow> drop (n + length key) header = v @ QUOTE @ rest \<Longrightarrow>
           CHR 0x22 \<notin> set v \<Longrightarrow> ParseDirective header name = Inr (TrimSpace v)"
    and "find_sub header key = Some n \<Longrightarrow> CHR 0x22 \<notin> set (drop (n + length key) header) \<Longrightarrow>
           panics (ParseDirective header name)"
proof -
  have len: "length key = length name + 2" by (simp add: key_def)
  show "find_sub header key = None \<Longrightarrow> ParseDirective header name = Inr ''''"
    by (simp add: ParseDirective_def Index_None key_def)
  have body: "ParseDirective header name =
      (let e = int (n + length key) + Index (drop (n + length key) header) QUOTE
       in bind_res (slice header (int (n + length key)) e) (\<lambda>v. Inr (TrimSpace v)))"
    if n: "find_sub header key = Some n" for n
  proof -
    have "n + length key \<le> length header" using find_sub_Some [OF n] by blast
    then have "slice_from header (int (n + length key)) = Inr (drop (n + length key) header)"
      by (rule slice_from_nat)
    moreover have "Index header key = int n" by (rule Index_Some [OF n])
    moreover have "int n + int (length name) + 2 = int (n + length key)" by (simp add: len)
    moreover have "name @ CHR ''='' # QUOTE = key" by (simp add: key_def)
    ultimately show ?thesis
      by (simp add: ParseDirective_def Let_def del: of_nat_add)
  qed
  { assume n: "find_sub header key = Some n"
      and v: "drop (n + length key) header = v @ QUOTE @ rest" and q: "CHR 0x22 \<notin> set v"
    have "Index (drop (n + length key) header) QUOTE = int (length v)"
      unfolding v using q by (intro Index_Some find_sub_first) simp_all
    moreover have "length header = n + length key + length v + 1 + length rest"
      using arg_cong [OF v, of length] find_sub_Some [OF n] by simp
    moreover have "take (length v) (drop (n + length key) header) = v" by (simp add: v)
    moreover have "nat (int n + int (length key)) = n + length key" by linarith
    ultimately show "ParseDirective header name = Inr (TrimSpace v)"
      unfolding body [OF n] by (simp add: slice_def v Let_def) }
  { assume n: "find_sub header key = Some n" and q: "CHR 0x22 \<notin> set (drop (n + length key) header)"
    then have "Index (drop (n + length key) header) QUOTE = -1"
      by (intro Index_None) (simp add: find_sub_char)
    then show "panics (ParseDirective header name)"
      unfolding body [OF n] by (simp add: slice_def Let_def) }
qed

text \<open>
  C35: a directive of an authentication challenge: where the header holds name="value" and this is
  the first occurrence of name=", \<open>ParseDirective\<close> returns the value without surrounding space; where
  the name does not occur it returns the empty string; where it occurs and no closing quote
  follows, the slice expression panics. There is no other case.
\<close>

theorem ParseDirective_cases:
  fixes header name
  defines "key \<equiv> name @ ''='' @ QUOTE"
  shows "(find_sub header key = None \<longrightarrow> ParseDirective header name = Inr '''') \<and>
    (find_sub header key = Some n \<longrightarrow> drop (n + length key) header = v @ QUOTE @ rest \<longrightarrow>
           CHR 0x22 \<notin> set v \<longrightarrow> ParseDirective header name = Inr (TrimSpace v)) \<and>
    (find_sub header key = Some n \<longrightarrow> CHR 0x22 \<notin> set (drop (n + length key) header) \<longrightarrow>
           panics (ParseDirective header name))"
  unfolding key_def by (intro conjI impI) (rule ParseDirective_cases_parts; assumption?)+

theorem ParseDirective_cases_witness:
  "ParseDirective (''Digest realm='' @ QUOTE @ ''cam'' @ QUOTE) ''nonce'' = Inr '''' \<and>
   ParseDirective (''Digest realm='' @ QUOTE @ ''cam'' @ QUOTE) ''realm'' = Inr ''cam'' \<and>
   panics (ParseDirective (''Digest realm='' @ QUOTE @ ''cam'') ''realm'')"
proof (intro conjI)
  show "ParseDirective (''Digest realm='' @ QUOTE @ ''cam'' @ QUOTE) ''nonce'' = Inr ''''"
    by (rule ParseDirective_cases [THEN conjunct1, THEN mp]) code_simp
  have "ParseDirective (''Digest realm='' @ QUOTE @ ''cam'' @ QUOTE) ''realm'' = Inr (TrimSpace ''cam'')"
    by (rule ParseDirective_cases [where n = 7 and rest = "[]", THEN conjunct2, THEN conjunct1, rule_format]) code_simp+
  then show "ParseDirective (''Digest realm='' @ QUOTE @ ''cam'' @ QUOTE) ''realm'' = Inr ''cam''"
    by (simp add: TrimSpace_fixed is_space_def byte_val_def)
  show "panics (ParseDirective (''Digest realm='' @ QUOTE @ ''cam'') ''realm'')"
    by (rule ParseDirective_cases [where n = 7, THEN conjunct2, THEN conjunct2, rule_format]) code_simp+
qed

lemma show_nat_word: "is_word (show_nat n)"
proof -
  have "is_digit c \<Longrightarrow> \<not> is_space c" for c by (auto simp: is_digit_def is_space_def)
  then show ?thesis
    using show_nat_digits [of n] show_nat_nonempty [of n] by (auto simp: is_word_def list_all_iff)
qed

text \<open>
  The status code of a status line "RTSP/1.0 code reason" is its code (any code in the \<open>int\<close>
  range), whatever the reason phrase.
\<close>

theorem parseRTSPStatusCode_correct:
  assumes "int code < 2 ^ 63"
  shows "parseRTSPStatusCode (''RTSP/1.0 '' @ Itoa (int code) @ '' '' @ reason) = int code"
proof -
  have it: "Itoa (int code) = show_nat code" by (simp add: Itoa_def)
  have "Fields (''RTSP/1.0'' @ '' '' @ show_nat code @ '' '' @ reason) =
      ''RTSP/1.0'' # Fields ('' '' @ show_nat code @ '' '' @ reason)"
    by (rule Fields_word) (simp_all add: is_word_def is_space_def byte_val_def)
  also have "Fields ('' '' @ show_nat code @ '' '' @ reason) =
      show_nat code # Fields ('' '' @ reason)"
    by (simp add: Fields_space Fields_word show_nat_word)
  finally have "Fields (''RTSP/1.0 '' @ show_nat code @ '' '' @ reason) =
      ''RTSP/1.0'' # show_nat code # Fields ('' '' @ reason)" by simp
  moreover have "Atoi (show_nat code) = (int code, True)"
    using Atoi_Itoa [of "int code"] assms by (simp add: it in_int64_def)
  ultimately show ?thesis by (simp add: parseRTSPStatusCode_def it Let_def)
qed

theorem parseRTSPStatusCode_correct_witness:
  "parseRTSPStatusCode (''RTSP/1.0 '' @ Itoa (int 401) @ '' '' @ ''Unauthorized'' @ CRLF) = 401"
  using parseRTSPStatusCode_correct [of 401 "''Unauthorized'' @ CRLF"] by simp

section \<open>Tracks\<close>

lemma track_of_control:
  assumes "CHR ''*'' \<notin> set (base @ name)" and "CHR ''/'' \<notin> set name"
  shows "track_of (''a=control:'' @ base @ ''/'' @ name) = [name]"
    and "track_of (''a=control:'' @ name) = [name]"
proof -
  have star: "\<not> Contains (''a=control:'' @ s) ''*''" if "CHR ''*'' \<notin> set s" for s
    using that by (simp add: Contains_def find_sub_char)
  have at0: "find_sub (''a=control:'' @ s) controlPrefix = Some 0" for s
    unfolding controlPrefix_def by (rule find_sub_append)
  have "find_last (base @ CHR ''/'' # name) ''/'' = Some (length base)"
    by (rule find_last_single_append [OF assms(2)])
  moreover have "find_last name ''/'' = None" using assms(2) by (simp add: find_last_single_None)
  moreover have "drop (0 + length controlPrefix) (''a=control:'' @ s) = s" for s
    by (simp add: controlPrefix_def)
  moreover have "\<not> Contains (''a=control:'' @ base @ ''/'' @ name) ''*''"
    "\<not> Contains (''a=control:'' @ name) ''*''"
    using assms(1) by (intro star; simp)+
  ultimately show "track_of (''a=control:'' @ base @ ''/'' @ name) = [name]"
    "track_of (''a=control:'' @ name) = [name]"
    by (simp_all only: track_of_def at0 option.case if_False Let_def) simp_all
qed

lemma ParseMedia_lines:
  "ls \<noteq> [] \<Longrightarrow> (\<And>l. l \<in> set ls \<Longrightarrow> CHR 0x0D \<notin> set l) \<Longrightarrow>
     ParseMedia (join_with CRLF ls) wh = (concat (map track_of ls), fold dims_of ls wh)"
  unfolding ParseMedia_def by (subst Split_join) simp_all

text \<open>
  The tracks are the control attributes in the order of the lines, reduced to their last path
  component, whatever the kind of the media sections they belong to; aggregate controls with a star
  are skipped.
\<close>

theorem ParseMedia_tracks:
  assumes "\<forall>l\<in>set pre. find_sub l controlPrefix = None \<or> Contains l ''*''"
    and "\<forall>l\<in>set mid. find_sub l controlPrefix = None"
    and "\<forall>l\<in>set post. find_sub l controlPrefix = None"
    and "\<forall>l\<in>set (pre @ mid @ post). CHR 0x0D \<notin> set l"
    and "CHR ''*'' \<notin> set (b1 @ t1) \<and> CHR ''/'' \<notin> set t1 \<and> CHR 0x0D \<notin> set (b1 @ t1)"
    and "CHR ''*'' \<notin> set (b2 @ t2) \<and> CHR ''/'' \<notin> set t2 \<and> CHR 0x0D \<notin> set (b2 @ t2)"
  shows "fst (ParseMedia (join_with CRLF (pre @ [''a=control:'' @ b1 @ ''/'' @ t1] @ mid @
           [''a=control:'' @ b2 @ ''/'' @ t2] @ post)) wh) = [t1, t2]"
proof -
  have "track_of l = []" if "find_sub l controlPrefix = None \<or> Contains l ''*''" for l
    using that by (auto simp: track_of_def split: option.splits)
  then have "concat (map track_of pre) = []" "concat (map track_of mid) = []"
    "concat (map track_of post) = []"
    using assms(1-3) by auto
  note none = this
  have t: "track_of (''a=control:'' @ b1 @ ''/'' @ t1) = [t1]"
    "track_of (''a=control:'' @ b2 @ ''/'' @ t2) = [t2]"
    using assms(5,6) track_of_control(1) by blast+
  let ?ls = "pre @ [''a=control:'' @ b1 @ ''/'' @ t1] @ mid @
           [''a=control:'' @ b2 @ ''/'' @ t2] @ post"
  have "ParseMedia (join_with CRLF ?ls) wh = (concat (map track_of ?ls), fold dims_of ?ls wh)"
    using assms(4-6) by (intro ParseMedia_lines) auto
  then have "fst (ParseMedia (join_with CRLF ?ls) wh) = concat (map track_of ?ls)"
    by (simp only: fst_conv)
  also have "\<dots> = [t1, t2]"
    using none t by (simp only: map_append list.map concat_append concat.simps) simp
  finally show ?thesis .
qed

theorem ParseMedia_tracks_witness:
  "fst (ParseMedia (join_with CRLF ([''v=0'', ''a=control:*'', ''m=audio 0 RTP/AVP 0''] @
      [''a=control:'' @ ''rtsp://10.0.0.1:554'' @ ''/'' @ ''track2''] @ [''m=video 0 RTP/AVP 96''] @
      [''a=control:'' @ ''rtsp://10.0.0.1:554'' @ ''/'' @ ''track1''] @ [''''])) (0, 0)) =
   [''track2'', ''track1'']"
  by (rule ParseMedia_tracks) code_simp+

section \<open>The source URL\<close>

text \<open>
  The endpoint of an RTSP URL: for a parsed host without a colon the port is 554, for "host:port"
  it is the given port, and the request URI repeats both with the decoded path and the query.
\<close>

theorem ParseUrl_endpoint:
  assumes "url_Parse raw = Some u" and "CHR '':'' \<notin> set h" and "CHR '':'' \<notin> set p"
  shows "Host u = h \<Longrightarrow>
           map_option (\<lambda>e. (ep_host e, ep_port e)) (ParseUrl url_Parse raw) = Some (h, ''554'')"
    and "Host u = h @ '':'' @ p \<Longrightarrow>
           map_option (\<lambda>e. (ep_host e, ep_port e)) (ParseUrl url_Parse raw) = Some (h, p)"
    and "Host u = h @ '':'' @ p \<Longrightarrow> RawQuery u = '''' \<Longrightarrow>
           map_option ep_uri (ParseUrl url_Parse raw) =
             Some (''rtsp://'' @ h @ '':'' @ p @ Path u)"
proof -
  have one: "Split h '':'' = [h]" using assms(2) by (intro Split_last) simp_all
  have two: "Split (h @ '':'' @ p) '':'' = [h, p]"
    using assms(2,3) Split_first [of "'':''" h p] Split_last [of "'':''" p] by simp
  show "Host u = h \<Longrightarrow>
      map_option (\<lambda>e. (ep_host e, ep_port e)) (ParseUrl url_Parse raw) = Some (h, ''554'')"
    using one by (simp add: ParseUrl_def assms(1) Let_def)
  show "Host u = h @ '':'' @ p \<Longrightarrow>
      map_option (\<lambda>e. (ep_host e, ep_port e)) (ParseUrl url_Parse raw) = Some (h, p)"
    using two by (simp add: ParseUrl_def assms(1) Let_def)
  show "Host u = h @ '':'' @ p \<Longrightarrow> RawQuery u = '''' \<Longrightarrow>
      map_option ep_uri (ParseUrl url_Parse raw) = Some (''rtsp://'' @ h @ '':'' @ p @ Path u)"
    using two by (simp add: ParseUrl_def assms(1) Let_def)
qed

definition sample_url :: "string \<Rightarrow> URL option" where
  "sample_url raw =
     (if raw = ''rtsp://10.0.0.1:8554/s''
      then Some \<lparr>Host = ''10.0.0.1:8554'', Path = ''/s'', RawQuery = '''', User = None\<rparr>
      else if raw = ''rtsp://[fe80::1]:8554/s''
      then Some \<lparr>Host = ''[fe80::1]:8554'', Path = ''/s'', RawQuery = '''', User = None\<rparr>
      else None)"

theorem ParseUrl_endpoint_witness:
  "map_option (\<lambda>e. (ep_host e, ep_port e)) (ParseUrl sample_url ''rtsp://10.0.0.1:8554/s'') =
     Some (''10.0.0.1'', ''8554'')"
  by (rule ParseUrl_endpoint(2) [where u = "\<lparr>Host = ''10.0.0.1:8554'', Path = ''/s'', RawQuery = '''', User = None\<rparr>"])
     (code_simp | simp add: sample_url_def)+

text \<open>
  An IPv6 source address is cut at its first colon: for a parsed host "[a:b...]" the client
  connects to the host name formed by the bracket and the first group, and to port 554 instead of
  the given port.
\<close>

theorem ParseUrl_ipv6:
  assumes "url_Parse raw = Some u" and "Host u = ''['' @ a @ '':'' @ b @ '':'' @ c"
    and "CHR '':'' \<notin> set a" and "CHR '':'' \<notin> set b"
  shows "map_option (\<lambda>e. (ep_host e, ep_port e)) (ParseUrl url_Parse raw) =
    Some (''['' @ a, ''554'')"
proof -
  have "Split (Host u) '':'' = (''['' @ a) # b # Split c '':''"
    using assms Split_first [of "'':''" "''['' @ a" "b @ '':'' @ c"] Split_first [of "'':''" b c] by simp
  moreover have "Split c '':'' \<noteq> []" by (rule Split_nonempty) simp
  ultimately show ?thesis by (simp add: ParseUrl_def assms(1) Let_def)
qed

theorem ParseUrl_ipv6_witness:
  "map_option (\<lambda>e. (ep_host e, ep_port e)) (ParseUrl sample_url ''rtsp://[fe80::1]:8554/s'') =
     Some (''['' @ ''fe80'', ''554'')"
  by (rule ParseUrl_ipv6 [where u = "\<lparr>Host = ''[fe80::1]:8554'', Path = ''/s'', RawQuery = '''', User = None\<rparr>"
        and b = "''''" and c = "''1]:8554''"])
     (code_simp | simp add: sample_url_def)+

end
