(* ===== verification/RtspWire.thy ===== *)
theory RtspWire imports Sdp begin

text \<open>
  The RTSP connection as the client of \<open>rtsp_client.go\<close> reads it: a \<open>bufio.Reader\<close> over a TCP
  connection whose peer and deadlines decide what arrives when, the interleaved frames
  (\<open>handleTCPPackets\<close>) and the responses (\<open>readRTSPResponse\<close>).

  What the connection delivers is a list of events: a chunk of bytes, or a read deadline that
  passes while the reader waits. The end of the list is the end of the connection. Packets are values
  here; \<open>Buffers\<close> treats the arrays they live in. \<open>SetReadDeadline\<close> succeeds on an open
  connection.
\<close>

section \<open>The buffered reader\<close>

datatype net_event = Chunk string | Deadline

datatype read_error = EOF | Timeout

record reader =
  buf :: string
  net :: "net_event list"

fun fill :: "nat \<Rightarrow> string \<Rightarrow> net_event list \<Rightarrow> string \<times> net_event list \<times> read_error option" where
  "fill n b [] = (b, [], if n \<le> length b then None else Some EOF)"
| "fill n b (Chunk d # es) = (if n \<le> length b then (b, Chunk d # es, None) else fill n (b @ d) es)"
| "fill n b (Deadline # es) =
     (if n \<le> length b then (b, Deadline # es, None) else (b, es, Some Timeout))"

text \<open>\<open>Peek(n)\<close> consumes nothing; \<open>ReadFull\<close> and \<open>Discard\<close> of \<open>n\<close> bytes lose what they read on an error.\<close>

definition Peek :: "nat \<Rightarrow> reader \<Rightarrow> (read_error + string) \<times> reader" where
  "Peek n r =
     (case fill n (buf r) (net r) of
        (b, es, None) \<Rightarrow> (Inr (take n b), \<lparr>buf = b, net = es\<rparr>)
      | (b, es, Some e) \<Rightarrow> (Inl e, \<lparr>buf = b, net = es\<rparr>))"

definition ReadFull :: "nat \<Rightarrow> reader \<Rightarrow> (read_error \<times> string + string) \<times> reader" where
  "ReadFull n r =
     (case fill n (buf r) (net r) of
        (b, es, None) \<Rightarrow> (Inr (take n b), \<lparr>buf = drop n b, net = es\<rparr>)
      | (b, es, Some e) \<Rightarrow> (Inl (e, b), \<lparr>buf = [], net = es\<rparr>))"

text \<open>\<open>ReadString('\n')\<close>.\<close>

fun fill_line :: "string \<Rightarrow> net_event list \<Rightarrow> string \<times> net_event list \<times> read_error option" where
  "fill_line b [] = (b, [], if CHR 0x0A \<in> set b then None else Some EOF)"
| "fill_line b (Chunk d # es) =
     (if CHR 0x0A \<in> set b then (b, Chunk d # es, None) else fill_line (b @ d) es)"
| "fill_line b (Deadline # es) =
     (if CHR 0x0A \<in> set b then (b, Deadline # es, None) else (b, es, Some Timeout))"

definition ReadString :: "reader \<Rightarrow> (read_error + string) \<times> reader" where
  "ReadString r =
     (case fill_line (buf r) (net r) of
        (b, es, None) \<Rightarrow>
          (let n = length (takeWhile (\<lambda>c. c \<noteq> CHR 0x0A) b) + 1
           in (Inr (take n b), \<lparr>buf = drop n b, net = es\<rparr>))
      | (b, es, Some e) \<Rightarrow> (Inl e, \<lparr>buf = [], net = es\<rparr>))"

text \<open>What is still to be read, and a bound on the work left.\<close>

fun event_bytes :: "net_event \<Rightarrow> string" where
  "event_bytes (Chunk d) = d"
| "event_bytes Deadline = []"

definition pending :: "reader \<Rightarrow> string" where
  "pending r = buf r @ concat (map event_bytes (net r))"

definition live :: "reader \<Rightarrow> bool" where
  "live r \<longleftrightarrow> Deadline \<notin> set (net r)"

definition net_size :: "net_event list \<Rightarrow> nat" where
  "net_size es = sum_list (map (\<lambda>e. length (event_bytes e) + (if e = Deadline then 1 else 0)) es)"

definition rsize :: "reader \<Rightarrow> nat" where
  "rsize r = length (buf r) + net_size (net r)"

lemma net_size_simps [simp]:
  "net_size [] = 0" "net_size (Chunk d # es) = length d + net_size es"
  "net_size (Deadline # es) = 1 + net_size es"
  by (simp_all add: net_size_def)

lemma fill_bytes:
  "fill n b es = (b', es', e) \<Longrightarrow>
     b' @ concat (map event_bytes es') = b @ concat (map event_bytes es) \<and>
     (e = None \<longrightarrow> n \<le> length b') \<and> length b' + net_size es' \<le> length b + net_size es \<and>
     (e = Some Timeout \<longrightarrow> length b' + net_size es' < length b + net_size es) \<and>
     (e = Some EOF \<longrightarrow> es' = []) \<and> set es' \<subseteq> set es \<and>
     (e \<noteq> None \<longrightarrow> length b' < n)"
  by (induction n b es rule: fill.induct) (auto split: if_splits)

lemma fill_live:
  "Deadline \<notin> set es \<Longrightarrow> n \<le> length (b @ concat (map event_bytes es)) \<Longrightarrow>
     \<exists>b' es'. fill n b es = (b', es', None)"
  by (induction n b es rule: fill.induct) auto

lemma fill_line_bytes:
  "fill_line b es = (b', es', e) \<Longrightarrow>
     b' @ concat (map event_bytes es') = b @ concat (map event_bytes es) \<and>
     (e = None \<longrightarrow> CHR 0x0A \<in> set b') \<and> length b' + net_size es' \<le> length b + net_size es \<and>
     set es' \<subseteq> set es"
  by (induction b es rule: fill_line.induct) (auto split: if_splits)

lemma fill_line_live:
  "Deadline \<notin> set es \<Longrightarrow> CHR 0x0A \<in> set (b @ concat (map event_bytes es)) \<Longrightarrow>
     \<exists>b' es'. fill_line b es = (b', es', None)"
  by (induction b es rule: fill_line.induct) auto

lemma Peek_props:
  assumes "Peek n r = (res, r')"
  shows "pending r' = pending r" and "rsize r' \<le> rsize r"
    and "res = Inl Timeout \<Longrightarrow> rsize r' < rsize r"
    and "res = Inr s \<Longrightarrow> length s = n"
proof -
  obtain b es e where f: "fill n (buf r) (net r) = (b, es, e)" using prod_cases3 by blast
  note p = fill_bytes [OF f]
  show "pending r' = pending r" "rsize r' \<le> rsize r"
    using assms p by (auto simp: Peek_def f pending_def rsize_def split: option.splits)
  show "res = Inl Timeout \<Longrightarrow> rsize r' < rsize r"
    using assms p by (auto simp: Peek_def f rsize_def split: option.splits)
  show "res = Inr s \<Longrightarrow> length s = n"
    using assms p by (auto simp: Peek_def f split: option.splits)
qed

lemma ReadFull_props:
  assumes "ReadFull n r = (res, r')"
  shows "rsize r' \<le> rsize r"
    and "res = Inr s \<Longrightarrow> length s = n \<and> rsize r' + n \<le> rsize r \<and> pending r = s @ pending r'"
proof -
  obtain b es e where f: "fill n (buf r) (net r) = (b, es, e)" using prod_cases3 by blast
  note p = fill_bytes [OF f]
  show "rsize r' \<le> rsize r"
    using assms p by (auto simp: ReadFull_def f rsize_def split: option.splits)
  { assume "res = Inr s"
    with assms have e: "e = None" and s: "s = take n b" and r': "r' = \<lparr>buf = drop n b, net = es\<rparr>"
      by (auto simp: ReadFull_def f split: option.splits)
    from s have "b = s @ drop n b" by simp
    then have "pending r = s @ pending r'"
      using p unfolding pending_def r' by (metis append.assoc reader.select_convs)
    moreover have "length s = n \<and> rsize r' + n \<le> rsize r"
      using p e by (auto simp: s r' rsize_def)
    ultimately show "length s = n \<and> rsize r' + n \<le> rsize r \<and> pending r = s @ pending r'"
      by blast }
qed

lemma take_line:
  "CHR 0x0A \<in> set b \<Longrightarrow>
     take (Suc (length (takeWhile (\<lambda>c. c \<noteq> CHR 0x0A) b))) b = takeWhile (\<lambda>c. c \<noteq> CHR 0x0A) b @ LF"
  by (induction b) auto

lemma ReadString_props:
  assumes "ReadString r = (res, r')"
  shows "rsize r' \<le> rsize r"
    and "res = Inr s \<Longrightarrow> s \<noteq> [] \<and> rsize r' < rsize r \<and> pending r = s @ pending r'"
proof -
  obtain b es e where f: "fill_line (buf r) (net r) = (b, es, e)" using prod_cases3 by blast
  note p = fill_line_bytes [OF f]
  show "rsize r' \<le> rsize r"
    using assms p by (auto simp: ReadString_def f rsize_def Let_def split: option.splits)
  { assume "res = Inr s"
    define n where "n = length (takeWhile (\<lambda>c. c \<noteq> CHR 0x0A) b) + 1"
    from \<open>res = Inr s\<close> assms have e: "e = None" and s: "s = take n b"
      and r': "r' = \<lparr>buf = drop n b, net = es\<rparr>"
      by (auto simp: ReadString_def f Let_def n_def split: option.splits)
    from e p have ne: "b \<noteq> []" by auto
    from s have "b = s @ drop n b" by simp
    then have "pending r = s @ pending r'"
      using p unfolding pending_def r' by (metis append.assoc reader.select_convs)
    moreover have "s \<noteq> [] \<and> rsize r' < rsize r"
      using p ne by (cases b) (auto simp: s r' rsize_def n_def)
    ultimately show "s \<noteq> [] \<and> rsize r' < rsize r \<and> pending r = s @ pending r'" by blast }
qed

section \<open>The contract of a byte source\<close>

text \<open>
  What the framing code relies on, while no deadline passes: peeking and reading return the next
  bytes of the stream, however the network cut it into chunks.
\<close>

locale byte_source =
  fixes ok :: "'r \<Rightarrow> bool" and todo :: "'r \<Rightarrow> string"
    and peek :: "nat \<Rightarrow> 'r \<Rightarrow> ('e + string) \<times> 'r"
    and full :: "nat \<Rightarrow> 'r \<Rightarrow> ('f + string) \<times> 'r"
    and line :: "'r \<Rightarrow> ('g + string) \<times> 'r"
  assumes peek_ok: "ok r \<Longrightarrow> todo r = s @ t \<Longrightarrow> length s = n \<Longrightarrow>
      \<exists>r'. peek n r = (Inr s, r') \<and> ok r' \<and> todo r' = todo r"
    and full_ok: "ok r \<Longrightarrow> todo r = s @ t \<Longrightarrow> length s = n \<Longrightarrow>
      \<exists>r'. full n r = (Inr s, r') \<and> ok r' \<and> todo r' = t"
    and line_ok: "ok r \<Longrightarrow> todo r = l @ LF @ t \<Longrightarrow> CHR 0x0A \<notin> set l \<Longrightarrow>
      \<exists>r'. line r = (Inr (l @ LF), r') \<and> ok r' \<and> todo r' = t"
begin

lemma peek_then_full:
  assumes "ok r" "todo r = s @ t" "length s = n" "n \<le> m" "length s1 = m" "todo r = s1 @ t1"
  obtains r1 r2 where "peek m r = (Inr s1, r1)" "full n r1 = (Inr s, r2)" "ok r2" "todo r2 = t"
  using peek_ok [OF assms(1,6,5)] full_ok [OF _ _ assms(3)] assms(2) by metis

text \<open>An interleaved frame: four bytes of header, then as many bytes as the header says.\<close>

lemma read_frame:
  assumes "ok r" and "todo r = h @ p @ t" and "length h = 4"
  obtains r1 r2 where "full 4 r = (Inr h, r1)" "full (length p) r1 = (Inr p, r2)"
    "ok r2" "todo r2 = t"
  using full_ok [OF assms(1) _ assms(3), of "p @ t"] full_ok [of _ p t "length p"] assms(2) by metis

end

lemma live_fill: "live r \<Longrightarrow> Deadline \<notin> set (net r)"
  by (simp add: live_def)

interpretation tcp: byte_source live pending Peek ReadFull ReadString
proof
  fix r s t n
  assume r: "live r" and p: "pending r = s @ t" and n: "length s = n"
  have "n \<le> length (buf r @ concat (map event_bytes (net r)))"
    using p n unfolding pending_def by simp
  with live_fill [OF r] obtain b es where f: "fill n (buf r) (net r) = (b, es, None)"
    using fill_live by blast
  note q = fill_bytes [OF f]
  have all: "b @ concat (map event_bytes es) = s @ t" "n \<le> length b"
    using q p unfolding pending_def by simp_all
  then have "take n (b @ concat (map event_bytes es)) = s" using n by simp
  then have s: "take n b = s" using all(2) by simp
  from q r have l: "live \<lparr>buf = b', net = es\<rparr>" for b' by (auto simp: live_def)
  show "\<exists>r'. Peek n r = (Inr s, r') \<and> live r' \<and> pending r' = pending r"
    using q s l by (simp add: Peek_def f pending_def)
  have "drop n b @ concat (map event_bytes es) = t"
  proof -
    have "drop n (b @ concat (map event_bytes es)) = t" using all(1) n by simp
    then show ?thesis using all(2) by simp
  qed
  then show "\<exists>r'. ReadFull n r = (Inr s, r') \<and> live r' \<and> pending r' = t"
    using s l by (simp add: ReadFull_def f pending_def)
next
  fix r l t
  assume r: "live r" and p: "pending r = l @ LF @ t" and nl: "CHR 0x0A \<notin> set l"
  have "CHR 0x0A \<in> set (buf r @ concat (map event_bytes (net r)))"
    using p unfolding pending_def by simp
  with live_fill [OF r] obtain b es where f: "fill_line (buf r) (net r) = (b, es, None)"
    using fill_line_live by blast
  note q = fill_line_bytes [OF f]
  obtain u v where b: "b = u @ CHR 0x0A # v" "CHR 0x0A \<notin> set u"
    using q by (meson split_list_first)
  have "u @ CHR 0x0A # (v @ concat (map event_bytes es)) = l @ CHR 0x0A # t"
    using q p unfolding pending_def b by simp
  then have uv: "u = l" "v @ concat (map event_bytes es) = t"
    using append_Cons_first_unique [OF b(2) nl] by simp_all
  have "takeWhile (\<lambda>c. c \<noteq> CHR 0x0A) b = l"
    using nl by (auto simp: b(1) uv(1) takeWhile_append)
  then show "\<exists>r'. ReadString r = (Inr (l @ LF), r') \<and> live r' \<and> pending r' = t"
    using q r uv by (auto simp: ReadString_def f Let_def b live_def pending_def)
qed

section \<open>The client's state\<close>

text \<open>
  The socket: what has been written, and the outcomes of the writes to come (no entry: success).
  The channel \<open>received\<close> holds at most 512 packets, \<open>signals\<close> at most one.
\<close>

record socket =
  sent :: "string list"
  writes :: "bool list"

record RtspClient =
  socket :: "socket option"
  reader :: "reader option"
  received :: "string list"
  signals :: "bool list"
  host :: string
  port :: string
  uri :: string
  login :: string
  password :: string
  session :: string
  auth :: string
  track :: "string list"
  cseq :: int
  videow :: int
  videoh :: int
  hdr :: string
  payload :: string
  desync :: bool
  looping :: bool \<comment> \<open>the goroutine of the read loop has been started\<close>

definition NewRtspClient :: RtspClient where
  "NewRtspClient =
     \<lparr>socket = None, reader = None, received = [], signals = [], host = '''', port = '''', uri = '''',
      login = '''', password = '''', session = '''', auth = '''', track = [], cseq = 1,
      videow = 0, videoh = 0, hdr = replicate 4 (CHR 0x00), payload = [], desync = False,
      looping = False\<rparr>"

definition received_cap :: nat where "received_cap = 512"

abbreviation DOLLAR :: byte where "DOLLAR \<equiv> CHR 0x24"

section \<open>Interleaved frames\<close>

text \<open>
  One call of \<open>handleTCPPackets\<close>. A closed client (\<open>socket\<close> or \<open>reader\<close> nil) makes the call panic;
  a timeout before the header is no error.
\<close>

definition queue_packet :: "string \<Rightarrow> RtspClient \<Rightarrow> RtspClient" where
  "queue_packet p rc =
     (if length (received rc) < received_cap then rc\<lparr>received := received rc @ [p]\<rparr> else rc)"

definition handle_frame :: "string \<Rightarrow> reader \<Rightarrow> RtspClient \<Rightarrow> RtspClient \<times> unit res" where
  "handle_frame head r1 rc0 =
     (let rc = rc0\<lparr>desync := False, hdr := head, reader := Some (snd (ReadFull 4 r1))\<rparr>;
          r2 = snd (ReadFull 4 r1);
          channel = byte_val (head ! 1);
          payloadLen = be16 (head ! 2) (head ! 3)
      in if (channel \<noteq> 0 \<and> channel \<noteq> 2) \<or> payloadLen < 12
         then if payloadLen > 0
              then (case ReadFull payloadLen r2 of
                      (Inl _, r3) \<Rightarrow>
                        (rc\<lparr>reader := Some r3\<rparr>, Inl (Failed ''error discarding interleaved frame''))
                    | (Inr _, r3) \<Rightarrow> (rc\<lparr>reader := Some r3\<rparr>, Inr ()))
              else (rc, Inr ())
         else let pay = (if payloadLen > length (payload rc)
                         then replicate payloadLen (CHR 0x00) else payload rc)
              in case ReadFull payloadLen r2 of
                   (Inl (_, part), r3) \<Rightarrow>
                     (rc\<lparr>reader := Some r3, payload := part @ drop (length part) pay\<rparr>,
                      Inl (Failed ''error reading RTP payload''))
                 | (Inr data, r3) \<Rightarrow>
                     (queue_packet (head @ data)
                        (rc\<lparr>reader := Some r3, payload := data @ drop payloadLen pay\<rparr>), Inr ()))"

definition handleTCPPackets :: "RtspClient \<Rightarrow> RtspClient \<times> unit res" where
  "handleTCPPackets rc =
     (case (socket rc, reader rc) of
        (Some _, Some r) \<Rightarrow>
          (case Peek 4 r of
             (Inl Timeout, r1) \<Rightarrow> (rc\<lparr>reader := Some r1\<rparr>, Inr ())
           | (Inl EOF, r1) \<Rightarrow>
               (rc\<lparr>reader := Some r1\<rparr>, Inl (Failed ''failed to read interleaved header''))
           | (Inr head, r1) \<Rightarrow>
               (if head ! 0 \<noteq> DOLLAR
                then (rc\<lparr>desync := True, reader := Some (snd (ReadFull 1 r1))\<rparr>, Inr ())
                else handle_frame head r1 rc))
      | _ \<Rightarrow> (rc, Inl (Panicked ''nil pointer dereference'')))"

text \<open>The loop body run \<open>n\<close> times, stopping at the first error.\<close>

fun pump :: "nat \<Rightarrow> RtspClient \<Rightarrow> RtspClient \<times> unit res" where
  "pump 0 rc = (rc, Inr ())"
| "pump (Suc n) rc =
     (case handleTCPPackets rc of (rc', Inr _) \<Rightarrow> pump n rc' | (rc', Inl e) \<Rightarrow> (rc', Inl e))"

lemma pump_add:
  "pump m rc = (rc', Inr ()) \<Longrightarrow> pump (m + n) rc = pump n rc'"
  by (induction m arbitrary: rc) (auto split: prod.splits sum.splits)

text \<open>A frame as the camera sends it, and the frames that carry RTP.\<close>

type_synonym frame = "byte \<times> string"

definition encode_frame :: "frame \<Rightarrow> string" where
  "encode_frame f = (case f of (ch, p) \<Rightarrow>
     [DOLLAR, ch, nat_byte (length p div 256), nat_byte (length p)] @ p)"

definition frame_ok :: "frame \<Rightarrow> bool" where
  "frame_ok f \<longleftrightarrow> length (snd f) < 65536"

definition is_media :: "frame \<Rightarrow> bool" where
  "is_media f \<longleftrightarrow> (byte_val (fst f) = 0 \<or> byte_val (fst f) = 2) \<and> 12 \<le> length (snd f)"

definition open_client :: "RtspClient \<Rightarrow> reader \<Rightarrow> bool" where
  "open_client rc r \<longleftrightarrow> socket rc \<noteq> None \<and> reader rc = Some r \<and> live r"

lemma handle_one_frame:
  assumes rc: "open_client rc r" and p: "pending r = encode_frame f @ t" and f: "frame_ok f"
  shows "\<exists>rc' r'. handleTCPPackets rc = (rc', Inr ()) \<and> open_client rc' r' \<and> pending r' = t \<and>
     received rc' = (if is_media f \<and> length (received rc) < received_cap
                     then received rc @ [encode_frame f] else received rc)"
proof -
  obtain ch d where cd: "f = (ch, d)" by (cases f)
  define h where "h = [DOLLAR, ch, nat_byte (length d div 256), nat_byte (length d)]"
  have enc: "encode_frame f = h @ d" by (simp add: encode_frame_def cd h_def)
  have h4: "length h = 4" and h0: "h ! 0 = DOLLAR" and h1: "h ! 1 = ch" "h ! Suc 0 = ch"
    and hlen: "be16 (h ! 2) (h ! 3) = length d"
    using f by (simp_all add: h_def frame_ok_def cd be16_split)
  from rc have sock: "socket rc \<noteq> None" "reader rc = Some r" and l: "live r"
    by (simp_all add: open_client_def)
  obtain r1 where pk: "Peek 4 r = (Inr h, r1)" "live r1" "pending r1 = h @ d @ t"
    using tcp.peek_ok [OF l _ h4, of "d @ t"] p by (auto simp: enc)
  obtain r2 r3 where rd: "ReadFull 4 r1 = (Inr h, r2)" "ReadFull (length d) r2 = (Inr d, r3)"
    "live r3" "pending r3 = t"
    using tcp.read_frame [OF pk(2,3) h4] by blast
  have live2: "live r2" "pending r2 = d @ t"
    using tcp.full_ok [OF pk(2,3) h4] rd(1) by auto
  have step: "handleTCPPackets rc = handle_frame h r1 rc"
    using sock by (auto simp: handleTCPPackets_def pk h0)
  show ?thesis
  proof (cases "length d = 0")
    case True
    then have "r2 = r3 \<or> True" by simp
    with True have "handle_frame h r1 rc =
        (rc\<lparr>desync := False, hdr := h, reader := Some r2\<rparr>, Inr ())"
      by (simp add: handle_frame_def Let_def rd hlen)
    then show ?thesis
      using True sock live2 by (auto simp: step open_client_def is_media_def cd)
  next
    case False
    then show ?thesis
      using sock rd
      by (cases "(byte_val ch = 0 \<or> byte_val ch = 2) \<and> 12 \<le> length d")
         (auto simp: step handle_frame_def Let_def h1 hlen queue_packet_def open_client_def
            is_media_def cd enc [unfolded cd])
  qed
qed

lemma handle_stray_byte:
  assumes rc: "open_client rc r" and p: "pending r = g # t" and g: "g \<noteq> DOLLAR" and n: "3 \<le> length t"
  shows "\<exists>rc' r'. handleTCPPackets rc = (rc', Inr ()) \<and> open_client rc' r' \<and> pending r' = t \<and>
     received rc' = received rc"
proof -
  from rc have sock: "socket rc \<noteq> None" "reader rc = Some r" and l: "live r"
    by (simp_all add: open_client_def)
  define h u where "h = g # take 3 t" and "u = drop 3 t"
  then have h: "g # t = h @ u" "length h = 4" and h0: "h ! 0 = g" using n by simp_all
  obtain r1 where pk: "Peek 4 r = (Inr h, r1)" "live r1" "pending r1 = [g] @ t"
    using tcp.peek_ok [OF l _ h(2), of u] p h(1) by auto
  obtain r2 where "ReadFull 1 r1 = (Inr [g], r2)" "live r2" "pending r2 = t"
    using tcp.full_ok [OF pk(2,3)] by auto
  then show ?thesis
    using sock g by (auto simp: handleTCPPackets_def pk h0 open_client_def)
qed

lemma pump_frames:
  assumes "open_client rc r" and "pending r = concat (map encode_frame fs) @ t"
    and "list_all frame_ok fs" and "length (received rc) \<le> received_cap"
  shows "\<exists>rc' r'. pump (length fs) rc = (rc', Inr ()) \<and> open_client rc' r' \<and> pending r' = t \<and>
     received rc' = take received_cap (received rc @ map encode_frame (filter is_media fs))"
  using assms
proof (induction fs arbitrary: rc r)
  case Nil
  then show ?case by (intro exI [of _ rc] exI [of _ r]) simp
next
  case (Cons f fs)
  then obtain rc1 r1 where one: "handleTCPPackets rc = (rc1, Inr ())" "open_client rc1 r1"
    "pending r1 = concat (map encode_frame fs) @ t"
    "received rc1 = (if is_media f \<and> length (received rc) < received_cap
                     then received rc @ [encode_frame f] else received rc)"
    using handle_one_frame [of rc r f "concat (map encode_frame fs) @ t"] by auto
  then have "length (received rc1) \<le> received_cap" using Cons.prems(4) by auto
  with Cons.IH [OF one(2,3)] Cons.prems(3) obtain rc2 r2
    where two: "pump (length fs) rc1 = (rc2, Inr ())" "open_client rc2 r2" "pending r2 = t"
      "received rc2 = take received_cap (received rc1 @ map encode_frame (filter is_media fs))"
    by auto
  have "received rc2 = take received_cap (received rc @ map encode_frame (filter is_media (f # fs)))"
    using two(4) one(4) Cons.prems(4)
    by (cases "length (received rc) < received_cap") (auto simp: take_Cons')
  then show ?case using one(1) two(1-3) by auto
qed

lemma pump_garbage:
  assumes "open_client rc r" and "pending r = g @ t" and "DOLLAR \<notin> set g" and "3 \<le> length t"
  shows "\<exists>rc' r'. pump (length g) rc = (rc', Inr ()) \<and> open_client rc' r' \<and> pending r' = t \<and>
     received rc' = received rc"
  using assms
proof (induction g arbitrary: rc r)
  case Nil
  then have "pump (length []) rc = (rc, Inr ())" "pending r = t" by simp_all
  with Nil.prems(1) show ?case by blast
next
  case (Cons c g)
  then obtain rc1 r1 where one: "handleTCPPackets rc = (rc1, Inr ())" "open_client rc1 r1"
    "pending r1 = g @ t" "received rc1 = received rc"
    using handle_stray_byte [of rc r c "g @ t"] by auto
  with Cons.IH [OF one(2,3)] Cons.prems show ?case by auto
qed

text \<open>
  C27: framing is exact, whatever the chunks the network delivers: from a connection whose stream is
  any bytes without a dollar sign followed by well-formed interleaved frames, the calls of
  \<open>handleTCPPackets\<close> recover synchronization, return no error, queue exactly the RTP frames (even
  channels 0 and 2, at least 12 bytes) complete and in order, as far as the queue of 512 has room,
  skip all others entirely, and leave nothing of them unread.
\<close>

theorem handleTCPPackets_framing:
  assumes "open_client rc r" and "pending r = garbage @ concat (map encode_frame fs) @ t"
    and "DOLLAR \<notin> set garbage" and "garbage = [] \<or> fs \<noteq> []" and "list_all frame_ok fs"
    and "length (received rc) \<le> received_cap"
  shows "\<exists>rc' r'. pump (length garbage + length fs) rc = (rc', Inr ()) \<and>
     reader rc' = Some r' \<and> pending r' = t \<and>
     received rc' = take received_cap (received rc @ map encode_frame (filter is_media fs))"
proof -
  have "\<exists>rc1 r1. pump (length garbage) rc = (rc1, Inr ()) \<and> open_client rc1 r1 \<and>
      pending r1 = concat (map encode_frame fs) @ t \<and> received rc1 = received rc"
  proof (cases "garbage = []")
    case True
    then show ?thesis using assms(1,2) by auto
  next
    case False
    with assms(4) obtain f fs' where "fs = f # fs'" by (cases fs) auto
    then have "3 \<le> length (concat (map encode_frame fs) @ t)"
      by (cases f) (simp add: encode_frame_def)
    with pump_garbage [OF assms(1,2,3)] show ?thesis by blast
  qed
  then obtain rc1 r1 where g: "pump (length garbage) rc = (rc1, Inr ())" "open_client rc1 r1"
    "pending r1 = concat (map encode_frame fs) @ t" "received rc1 = received rc" by blast
  from pump_frames [OF g(2,3) assms(5)] assms(6) g(4) obtain rc2 r2
    where "pump (length fs) rc1 = (rc2, Inr ())" "open_client rc2 r2" "pending r2 = t"
      "received rc2 = take received_cap (received rc @ map encode_frame (filter is_media fs))"
    by auto
  then show ?thesis using pump_add [OF g(1)] by (auto simp: open_client_def)
qed

text \<open>The stream of the repository's own resynchronization test, cut into two chunks.\<close>

definition test_rtp :: string where "test_rtp = CHR 0x80 # replicate 19 (CHR 0x00)"

definition test_frames :: "frame list" where
  "test_frames = [(CHR 0x01, replicate 30 (CHR 0x00)), (CHR 0x00, replicate 5 (CHR 0x00)),
     (CHR 0x00, test_rtp), (CHR 0x02, test_rtp)]"

definition test_stream :: string where
  "test_stream = [CHR 0x00, CHR 0x11, CHR 0x22] @ concat (map encode_frame test_frames)"

definition test_client :: RtspClient where
  "test_client = NewRtspClient\<lparr>socket := Some \<lparr>sent = [], writes = []\<rparr>,
     reader := Some \<lparr>buf = [], net = [Chunk (take 40 test_stream), Chunk (drop 40 test_stream)]\<rparr>,
     payload := replicate 8 (CHR 0x00)\<rparr>"

theorem handleTCPPackets_framing_witness:
  "\<exists>rc'. pump (3 + 4) test_client = (rc', Inr ()) \<and>
     received rc' = [encode_frame (CHR 0x00, test_rtp), encode_frame (CHR 0x02, test_rtp)]"
proof -
  have stream: "pending \<lparr>buf = [], net = [Chunk (take 40 test_stream), Chunk (drop 40 test_stream)]\<rparr> =
      [CHR 0x00, CHR 0x11, CHR 0x22] @ concat (map encode_frame test_frames) @ []"
    by (simp add: pending_def) (simp add: test_stream_def)
  have "\<exists>rc' r'. pump (length [CHR 0x00, CHR 0x11, CHR 0x22] + length test_frames) test_client =
       (rc', Inr ()) \<and> reader rc' = Some r' \<and> pending r' = [] \<and>
     received rc' = take received_cap (received test_client @ map encode_frame (filter is_media test_frames))"
    by (rule handleTCPPackets_framing
        [where r = "\<lparr>buf = [], net = [Chunk (take 40 test_stream), Chunk (drop 40 test_stream)]\<rparr>"])
       (use stream in \<open>simp_all add: open_client_def test_client_def NewRtspClient_def live_def
          test_frames_def test_rtp_def frame_ok_def received_cap_def\<close>)
  moreover have "take received_cap (received test_client @ map encode_frame (filter is_media test_frames)) =
     [encode_frame (CHR 0x00, test_rtp), encode_frame (CHR 0x02, test_rtp)]"
    by (simp add: test_client_def NewRtspClient_def received_cap_def test_frames_def is_media_def
          test_rtp_def byte_val_def)
  moreover have "length [CHR 0x00, CHR 0x11, CHR 0x22] + length test_frames = 3 + 4"
    by (simp add: test_frames_def)
  ultimately show ?thesis by metis
qed

section \<open>Any connection: invariant, progress, panics\<close>

text \<open>What the queue holds, whatever arrives: complete RTP frames of the forwarded channels.\<close>

definition packet_ok :: "string \<Rightarrow> bool" where
  "packet_ok p \<longleftrightarrow> 16 \<le> length p \<and> p ! 0 = DOLLAR \<and> (byte_val (p ! 1) = 0 \<or> byte_val (p ! 1) = 2) \<and>
     length p = 4 + be16 (p ! 2) (p ! 3)"

definition queue_inv :: "RtspClient \<Rightarrow> bool" where
  "queue_inv rc \<longleftrightarrow> length (received rc) \<le> received_cap \<and> list_all packet_ok (received rc)"

text \<open>The work left on the connection.\<close>

definition csize :: "RtspClient \<Rightarrow> nat" where
  "csize rc = (case reader rc of None \<Rightarrow> 0 | Some r \<Rightarrow> rsize r)"

lemma ReadFull_size: "rsize (snd (ReadFull n r)) \<le> rsize r"
  using ReadFull_props(1) [of n r "fst (ReadFull n r)" "snd (ReadFull n r)"] by simp

lemma ReadFull_after_peek:
  assumes "Peek n r = (Inr s, r1)" and "m \<le> n"
  shows "\<exists>r2. ReadFull m r1 = (Inr (take m s), r2) \<and> rsize r2 + m \<le> rsize r"
proof -
  obtain b es e where f: "fill n (buf r) (net r) = (b, es, e)" using prod_cases3 by blast
  note p = fill_bytes [OF f]
  from assms(1) have e: "e = None" and s: "s = take n b" and r1: "r1 = \<lparr>buf = b, net = es\<rparr>"
    by (auto simp: Peek_def f split: option.splits)
  have "m \<le> length b" using p e assms(2) by auto
  then have "fill m b es = (b, es, None)" by (cases "(m, b, es)" rule: fill.cases) auto
  then show ?thesis using p assms(2) \<open>m \<le> length b\<close>
    by (auto simp: ReadFull_def r1 s rsize_def min_absorb2 min_absorb1)
qed

lemma handle_frame_props:
  assumes pk: "Peek 4 r = (Inr head, r1)" and h0: "head ! 0 = DOLLAR"
    and q: "queue_inv rc" and hf: "handle_frame head r1 rc = (rc', res)"
  shows "queue_inv rc' \<and> socket rc' = socket rc \<and> \<not> panics res \<and>
     (\<exists>r'. reader rc' = Some r' \<and> rsize r' < rsize r)"
proof -
  have len: "length head = 4" using Peek_props(4) [OF pk] by simp
  from ReadFull_after_peek [OF pk, of 4] obtain r2
    where r2: "ReadFull 4 r1 = (Inr head, r2)" "rsize r2 + 4 \<le> rsize r"
    using len by auto
  define n where "n = be16 (head ! 2) (head ! 3)"
  have n_def': "be16 (head ! 2) (head ! 3) = n" by (simp add: n_def)
  obtain res3 r3 where r3: "ReadFull n r2 = (res3, r3)" by fastforce
  have r3s: "rsize r3 < rsize r" using ReadFull_props(1) [OF r3] r2(2) by linarith
  show ?thesis
  proof (cases "(byte_val (head ! 1) = 0 \<or> byte_val (head ! 1) = 2) \<and> 12 \<le> n")
    case False
    then show ?thesis
      using hf q r2 r3 r3s
      by (cases res3; cases "n = 0")
         (auto simp: handle_frame_def Let_def n_def' queue_inv_def split: prod.splits)
  next
    case True
    show ?thesis
    proof (cases res3)
      case (Inl e)
      then show ?thesis
        using hf q r2 r3 r3s True
        by (cases e) (auto simp: handle_frame_def Let_def n_def' queue_inv_def)
    next
      case (Inr d)
      then have "length d = n" using ReadFull_props(2) [OF r3] by blast
      then have "packet_ok (head @ d)"
        using True len h0 by (auto simp: packet_ok_def nth_append n_def)
      then show ?thesis
        using hf q r2 r3 r3s True Inr
        by (auto simp: handle_frame_def Let_def n_def' queue_inv_def queue_packet_def split: if_splits)
    qed
  qed
qed

lemma handleTCPPackets_step:
  assumes "socket rc \<noteq> None" and r: "reader rc = Some r" and q: "queue_inv rc"
    and h: "handleTCPPackets rc = (rc', res)"
  shows "queue_inv rc'" and "socket rc' = socket rc" and "reader rc' \<noteq> None" and "\<not> panics res"
    and "csize rc' \<le> csize rc" and "res = Inr () \<Longrightarrow> csize rc' < csize rc"
proof -
  obtain pr r1 where pk: "Peek 4 r = (pr, r1)" by fastforce
  note pp = Peek_props [OF pk]
  have step: "handleTCPPackets rc =
      (case (pr, r1) of
         (Inl Timeout, r1) \<Rightarrow> (rc\<lparr>reader := Some r1\<rparr>, Inr ())
       | (Inl EOF, r1) \<Rightarrow> (rc\<lparr>reader := Some r1\<rparr>, Inl (Failed ''failed to read interleaved header''))
       | (Inr head, r1) \<Rightarrow>
           (if head ! 0 \<noteq> DOLLAR
            then (rc\<lparr>desync := True, reader := Some (snd (ReadFull 1 r1))\<rparr>, Inr ())
            else handle_frame head r1 rc))"
    using assms(1) r by (auto simp: handleTCPPackets_def pk)
  have "queue_inv rc' \<and> socket rc' = socket rc \<and> reader rc' \<noteq> None \<and> \<not> panics res \<and>
      csize rc' \<le> csize rc \<and> (res = Inr () \<longrightarrow> csize rc' < csize rc)"
  proof (cases pr)
    case (Inl e)
    then show ?thesis
      using h pp r q by (cases e) (auto simp: step csize_def queue_inv_def)
  next
    case (Inr head)
    show ?thesis
    proof (cases "head ! 0 = DOLLAR")
      case True
      with h Inr have "handle_frame head r1 rc = (rc', res)" by (simp add: step)
      from handle_frame_props [OF pk [unfolded Inr] True q this] r show ?thesis
        by (auto simp: csize_def)
    next
      case False
      obtain r2 where "ReadFull 1 r1 = (Inr (take 1 head), r2)" "rsize r2 + 1 \<le> rsize r"
        using ReadFull_after_peek [OF pk [unfolded Inr], of 1] by auto
      with False h r q Inr show ?thesis by (auto simp: step csize_def queue_inv_def)
    qed
  qed
  then show "queue_inv rc'" "socket rc' = socket rc" "reader rc' \<noteq> None" "\<not> panics res"
    "csize rc' \<le> csize rc" "res = Inr () \<Longrightarrow> csize rc' < csize rc" by blast+
qed

lemma pump_inv:
  assumes "socket rc \<noteq> None" and "reader rc \<noteq> None" and "queue_inv rc" and "pump n rc = (rc', res)"
  shows "queue_inv rc' \<and> \<not> panics res"
  using assms
proof (induction n arbitrary: rc)
  case (Suc n)
  obtain rc1 res1 where one: "handleTCPPackets rc = (rc1, res1)" by fastforce
  from Suc.prems(2) obtain r where r: "reader rc = Some r" by blast
  note st = handleTCPPackets_step [OF Suc.prems(1) r Suc.prems(3) one]
  show ?case using Suc.IH [of rc1] Suc.prems one st by (cases res1) auto
qed auto

lemma handleTCPPackets_queue_safe_parts:
  assumes "socket rc \<noteq> None" and "reader rc = Some r" and "received rc = []"
    and "pump n rc = (rc', res)"
  shows "length (received rc') \<le> 512" and "\<not> panics res"
    and "p \<in> set (received rc') \<Longrightarrow> 16 \<le> length p \<and> p ! 0 = DOLLAR \<and>
           byte_val (p ! 1) \<in> {0, 2} \<and> length p = 4 + be16 (p ! 2) (p ! 3)"
proof -
  have "queue_inv rc" by (simp add: queue_inv_def assms(3))
  from pump_inv [OF assms(1) _ this assms(4)] assms(2)
  have inv: "queue_inv rc'" "\<not> panics res" by auto
  show "length (received rc') \<le> 512" "\<not> panics res"
    using inv by (simp_all add: queue_inv_def received_cap_def)
  show "p \<in> set (received rc') \<Longrightarrow> 16 \<le> length p \<and> p ! 0 = DOLLAR \<and>
      byte_val (p ! 1) \<in> {0, 2} \<and> length p = 4 + be16 (p ! 2) (p ! 3)"
    using inv(1) by (auto simp: queue_inv_def list_all_iff packet_ok_def)
qed

text \<open>
  C28: whatever a camera sends and however the network delivers it (cut frames, timeouts, closed
  connection, garbage), reading from an open client never panics, never lets the queue exceed 512
  packets, and queues only complete frames: a dollar sign, an even media channel, and exactly as
  many payload bytes (at least twelve) as the frame's length field says.
\<close>

theorem handleTCPPackets_queue_safe:
  assumes "socket rc \<noteq> None" and "reader rc = Some r" and "received rc = []"
    and "pump n rc = (rc', res)"
  shows "(length (received rc') \<le> 512) \<and>
    (\<not> panics res) \<and>
    (p \<in> set (received rc') \<longrightarrow> 16 \<le> length p \<and> p ! 0 = DOLLAR \<and>
           byte_val (p ! 1) \<in> {0, 2} \<and> length p = 4 + be16 (p ! 2) (p ! 3))"
  using handleTCPPackets_queue_safe_parts [OF assms] by blast

definition noisy_client :: RtspClient where
  "noisy_client = NewRtspClient\<lparr>socket := Some \<lparr>sent = [], writes = []\<rparr>,
     reader := Some \<lparr>buf = [], net = [Chunk [CHR 0x24], Deadline, Chunk [CHR 0x00, CHR 0x00]]\<rparr>\<rparr>"

theorem handleTCPPackets_queue_safe_witness:
  "length (received (fst (pump 3 noisy_client))) \<le> 512 \<and> \<not> panics (snd (pump 3 noisy_client))"
  using handleTCPPackets_queue_safe
    [of noisy_client "\<lparr>buf = [], net = [Chunk [CHR 0x24], Deadline, Chunk [CHR 0x00, CHR 0x00]]\<rparr>"
        3 "fst (pump 3 noisy_client)" "snd (pump 3 noisy_client)"]
  by (simp add: noisy_client_def NewRtspClient_def)

text \<open>
  A read deadline that passes before a frame header is complete costs nothing: the call returns
  without error, no byte is lost (the ones that had arrived stay in the buffer, before those still
  to come), and neither the queue nor the synchronization state changes.
\<close>

theorem handleTCPPackets_timeout_harmless:
  assumes "socket rc \<noteq> None" and "reader rc = Some \<lparr>buf = b, net = map Chunk ds @ Deadline # es\<rparr>"
    and "length (b @ concat ds) < 4"
  shows "handleTCPPackets rc = (rc\<lparr>reader := Some \<lparr>buf = b @ concat ds, net = es\<rparr>\<rparr>, Inr ())"
proof -
  have "fill 4 b (map Chunk ds @ Deadline # es) = (b @ concat ds, es, Some Timeout)"
    using assms(3) by (induction ds arbitrary: b) auto
  then show ?thesis using assms(1,2) by (auto simp: handleTCPPackets_def Peek_def)
qed

theorem handleTCPPackets_timeout_harmless_witness:
  "handleTCPPackets noisy_client =
     (noisy_client\<lparr>reader := Some \<lparr>buf = [] @ concat [[CHR 0x24]], net = [Chunk [CHR 0x00, CHR 0x00]]\<rparr>\<rparr>, Inr ())"
  by (rule handleTCPPackets_timeout_harmless) (simp_all add: noisy_client_def)

end
