(* ===== verification/RtspResponse.thy ===== *)
theory RtspResponse imports RtspWire begin

text \<open>
  \<open>readRTSPResponse\<close>: one RTSP response is read from the connection, while interleaved frames and
  lines that are not a status line are skipped. Every pass of its loops consumes bytes, so the
  loops are recursions on what is left to read.
\<close>

section \<open>Model\<close>

lemma ReadFull_Inr: "ReadFull n r = (Inr s, r') \<Longrightarrow> rsize r' + n \<le> rsize r"
  using ReadFull_props(2) [of n r "Inr s" r' s] by simp

lemma ReadString_Inr: "ReadString r = (Inr s, r') \<Longrightarrow> rsize r' < rsize r"
  using ReadString_props(2) [of r "Inr s" r' s] by simp

definition read_error_text :: "read_error \<Rightarrow> string" where
  "read_error_text e = (case e of EOF \<Rightarrow> ''EOF'' | Timeout \<Rightarrow> ''i/o timeout'')"

text \<open>What each read leaves, in the form the termination proofs meet it.\<close>

lemma read_sizes:
  "(x, r') = Peek n r \<Longrightarrow> rsize r' \<le> rsize r"
  "(Inr s, r') = ReadFull n r \<Longrightarrow> rsize r' + n \<le> rsize r"
  "(Inr s, r') = ReadString r \<Longrightarrow> rsize r' < rsize r"
  using Peek_props(2) ReadFull_Inr ReadString_Inr by metis+

text \<open>
  On 64-bit Linux \<open>make([]byte, n)\<close> panics when \<open>n\<close> exceeds the address space the runtime manages.
\<close>

definition max_alloc :: int where "max_alloc = 2 ^ 48"

definition content_length :: "int \<Rightarrow> string \<Rightarrow> int" where
  "content_length n line =
     (if HasPrefix (ToLower line) ''content-length:''
      then fst (Atoi (TrimSpace (TrimPrefix (ToLower line) ''content-length:''))) else n)"

function read_headers :: "string \<Rightarrow> int \<Rightarrow> reader \<Rightarrow> (read_error + string \<times> int) \<times> reader" where
  "read_headers acc len r =
     (case ReadString r of
        (Inl e, r1) \<Rightarrow> (Inl e, r1)
      | (Inr line, r1) \<Rightarrow>
          (if line = CRLF then (Inr (acc @ line, len), r1)
           else read_headers (acc @ line) (content_length len line) r1))"
  by pat_completeness auto
termination
  by (relation "measure (\<lambda>(acc, len, r). rsize r)") (auto dest: read_sizes)

declare read_headers.simps [simp del]

text \<open>What follows the status line: headers, then the body.\<close>

definition read_message :: "string \<Rightarrow> reader \<Rightarrow> (string \<times> int) res \<times> reader" where
  "read_message statusLine r =
     (case read_headers statusLine 0 r of
        (Inl e, r1) \<Rightarrow> (Inl (Failed (read_error_text e)), r1)
      | (Inr (text, len), r1) \<Rightarrow>
          (if len > 0
           then if len > max_alloc then (Inl (Panicked ''makeslice: len out of range''), r1)
                else (case ReadFull (nat len) r1 of
                        (Inl (e, _), r2) \<Rightarrow> (Inl (Failed (read_error_text e)), r2)
                      | (Inr body, r2) \<Rightarrow> (Inr (text @ body, parseRTSPStatusCode statusLine), r2))
           else (Inr (text, parseRTSPStatusCode statusLine), r1)))"

function response_loop :: "reader \<Rightarrow> (string \<times> int) res \<times> reader" where
  "response_loop r =
     (case Peek 1 r of
        (Inl e, r1) \<Rightarrow> (Inl (Failed (read_error_text e)), r1)
      | (Inr peek, r1) \<Rightarrow>
          (if peek ! 0 = DOLLAR
           then (case ReadFull 4 r1 of
                   (Inl (e, _), r2) \<Rightarrow> (Inl (Failed ''failed to read interleaved frame header''), r2)
                 | (Inr frameHeader, r2) \<Rightarrow>
                     (if be16 (frameHeader ! 2) (frameHeader ! 3) > 0
                      then (case ReadFull (be16 (frameHeader ! 2) (frameHeader ! 3)) r2 of
                              (Inl (e, _), r3) \<Rightarrow>
                                (Inl (Failed ''failed to discard interleaved frame''), r3)
                            | (Inr _, r3) \<Rightarrow> response_loop r3)
                      else response_loop r2))
           else (case ReadString r1 of
                   (Inl e, r2) \<Rightarrow> (Inl (Failed (read_error_text e)), r2)
                 | (Inr statusLine, r2) \<Rightarrow>
                     (if \<not> HasPrefix statusLine ''RTSP/'' then response_loop r2
                      else read_message statusLine r2))))"
  by pat_completeness auto
termination
  by (relation "measure rsize") (auto dest!: read_sizes)

declare response_loop.simps [simp del]

text \<open>The client's call: it fails on a closed client, and moves the reader on.\<close>

definition readRTSPResponse :: "RtspClient \<Rightarrow> RtspClient \<times> (string \<times> int) res" where
  "readRTSPResponse rc =
     (case (socket rc, reader rc) of
        (Some _, Some r) \<Rightarrow> (let (res, r') = response_loop r in (rc\<lparr>reader := Some r'\<rparr>, res))
      | _ \<Rightarrow> (rc, Inl (Failed ''socket is not initialized'')))"

section \<open>Work done\<close>

lemma read_headers_size: "rsize (snd (read_headers acc len r)) \<le> rsize r"
proof (induction acc len r rule: read_headers.induct)
  case (1 acc len r)
  obtain res r1 where rs: "ReadString r = (res, r1)" by fastforce
  note p = ReadString_props(1) [OF rs]
  show ?case
  proof (cases res)
    case (Inl e)
    then show ?thesis using p by (subst read_headers.simps) (simp add: rs)
  next
    case (Inr line)
    then show ?thesis
      using p "1.IH" [OF rs [symmetric] Inr]
      by (subst read_headers.simps) (auto simp: rs)
  qed
qed

lemma read_message_size: "rsize (snd (read_message l r)) \<le> rsize r"
proof -
  obtain res r1 where rh: "read_headers l 0 r = (res, r1)" by fastforce
  have a: "rsize r1 \<le> rsize r" using read_headers_size [of l 0 r] by (simp add: rh)
  have "rsize (snd (ReadFull n r1)) \<le> rsize r1" for n by (rule ReadFull_size)
  with a show ?thesis
    by (auto simp: read_message_def rh split: sum.splits prod.splits)
       (metis dual_order.trans snd_conv)+
qed

lemma response_loop_size: "rsize (snd (response_loop r)) \<le> rsize r"
proof (induction r rule: response_loop.induct)
  case (1 r)
  obtain pr r1 where pk: "Peek 1 r = (pr, r1)" by fastforce
  note p = Peek_props(2) [OF pk]
  show ?case
  proof (cases pr)
    case (Inl e)
    then show ?thesis using p by (subst response_loop.simps) (simp add: pk pk [unfolded One_nat_def])
  next
    case (Inr peek)
    show ?thesis
    proof (cases "peek ! 0 = DOLLAR")
      case True
      obtain fr r2 where rf: "ReadFull 4 r1 = (fr, r2)" by fastforce
      note p2 = ReadFull_props(1) [OF rf]
      show ?thesis
      proof (cases fr)
        case (Inl e)
        then show ?thesis
          using p p2 True Inr by (cases e; subst response_loop.simps) (simp add: pk pk [unfolded One_nat_def] rf)
      next
        case fr: (Inr h)
        obtain dr r3 where rd: "ReadFull (be16 (h ! 2) (h ! 3)) r2 = (dr, r3)" by fastforce
        note p3 = ReadFull_props(1) [OF rd]
        show ?thesis
          using p p2 p3 True Inr fr rd
            "1.IH"(1) [OF pk [symmetric] Inr True rf [symmetric] fr _ rd [symmetric]]
            "1.IH"(2) [OF pk [symmetric] Inr True rf [symmetric] fr]
          by (cases dr; subst response_loop.simps) (auto simp: pk pk [unfolded One_nat_def] rf)
      qed
    next
      case False
      obtain lr r2 where rl: "ReadString r1 = (lr, r2)" by fastforce
      note p2 = ReadString_props(1) [OF rl]
      show ?thesis
        using p p2 False Inr read_message_size [of _ r2]
          "1.IH"(3) [OF pk [symmetric] Inr False rl [symmetric]]
        by (cases lr; subst response_loop.simps) (auto simp: pk pk [unfolded One_nat_def] rl intro: order.trans [OF read_message_size])
    qed
  qed
qed

lemma readRTSPResponse_frame:
  assumes "readRTSPResponse rc = (rc', res)"
  shows "rc' = rc\<lparr>reader := reader rc'\<rparr>" and "csize rc' \<le> csize rc"
  using assms response_loop_size
  by (auto simp: readRTSPResponse_def csize_def split: option.splits prod.splits)
     (metis snd_conv)

section \<open>Reading a well-formed response\<close>

definition header_text :: "string list \<Rightarrow> string" where
  "header_text hs = concat (map (\<lambda>h. h @ CRLF) hs) @ CRLF"

definition response_text :: "string \<Rightarrow> string list \<Rightarrow> string \<Rightarrow> string" where
  "response_text status hs body = status @ CRLF @ header_text hs @ body"

definition body_length :: "string list \<Rightarrow> int" where
  "body_length hs = fold (\<lambda>h n. content_length n (h @ CRLF)) hs 0"

definition header_line :: "string \<Rightarrow> bool" where
  "header_line h \<longleftrightarrow> h \<noteq> [] \<and> CHR 0x0A \<notin> set h"

text \<open>What may come before the response: frames, and lines that are no status line.\<close>

datatype noise = Interleaved frame | Junk string

fun noise_text :: "noise \<Rightarrow> string" where
  "noise_text (Interleaved f) = encode_frame f"
| "noise_text (Junk l) = l @ LF"

fun noise_ok :: "noise \<Rightarrow> bool" where
  "noise_ok (Interleaved f) = frame_ok f"
| "noise_ok (Junk l) =
     (CHR 0x0A \<notin> set l \<and> (l = [] \<or> hd l \<noteq> DOLLAR) \<and> \<not> HasPrefix (l @ LF) ''RTSP/'')"

lemma read_line_step:
  assumes "live r" and "pending r = l @ CRLF @ t" and "CHR 0x0A \<notin> set l"
  shows "\<exists>r'. ReadString r = (Inr (l @ CRLF), r') \<and> live r' \<and> pending r' = t"
  using tcp.line_ok [OF assms(1), of "l @ CR" t] assms(2,3) by simp

lemma read_headers_text:
  assumes "live r" and "pending r = header_text hs @ t" and "list_all header_line hs"
  shows "\<exists>r'. read_headers acc n r =
      (Inr (acc @ header_text hs, fold (\<lambda>h n. content_length n (h @ CRLF)) hs n), r') \<and>
     live r' \<and> pending r' = t"
  using assms
proof (induction hs arbitrary: acc n r)
  case Nil
  then obtain r' where "ReadString r = (Inr CRLF, r')" "live r'" "pending r' = t"
    using read_line_step [of r "[]" t] by (auto simp: header_text_def)
  then show ?case by (subst read_headers.simps) (simp add: header_text_def)
next
  case (Cons h hs)
  then have hl: "header_line h" and h3: "list_all header_line hs" by simp_all
  from hl have h: "h \<noteq> []" "CHR 0x0A \<notin> set h" by (simp_all add: header_line_def)
  obtain r1 where r1: "ReadString r = (Inr (h @ CRLF), r1)" "live r1" "pending r1 = header_text hs @ t"
    using read_line_step [OF Cons.prems(1), of h "header_text hs @ t"] Cons.prems(2) h
    by (auto simp: header_text_def)
  have ne: "h @ CRLF \<noteq> CRLF" using h(1) by simp
  from Cons.IH [OF r1(2,3) h3, of "acc @ h @ CRLF" "content_length n (h @ CRLF)"]
  show ?case using ne by (subst read_headers.simps) (auto simp: r1 header_text_def)
qed

lemma read_message_text:
  assumes "live r" and "pending r = header_text hs @ body @ t" and "list_all header_line hs"
    and "length body = nat (body_length hs)" and "body_length hs \<le> max_alloc"
  shows "\<exists>r'. read_message l r = (Inr (l @ header_text hs @ body, parseRTSPStatusCode l), r') \<and>
     live r' \<and> pending r' = t"
proof -
  obtain r1 where r1: "read_headers l 0 r = (Inr (l @ header_text hs, body_length hs), r1)"
    "live r1" "pending r1 = body @ t"
    using read_headers_text [OF assms(1,2,3)] by (auto simp: body_length_def)
  show ?thesis
  proof (cases "body_length hs > 0")
    case True
    obtain r2 where "ReadFull (nat (body_length hs)) r1 = (Inr body, r2)" "live r2" "pending r2 = t"
      using tcp.full_ok [OF r1(2,3)] assms(4) by blast
    with True assms(5) r1 show ?thesis by (auto simp: read_message_def)
  next
    case False
    with assms(4) have "body = []" by simp
    with False r1 show ?thesis by (auto simp: read_message_def)
  qed
qed

lemma skip_noise:
  assumes "live r" and "pending r = noise_text x @ t" and "noise_ok x"
  shows "\<exists>r'. response_loop r = response_loop r' \<and> live r' \<and> pending r' = t"
proof (cases x)
  case (Interleaved f)
  obtain ch d where f: "f = (ch, d)" by (cases f)
  define h where "h = [DOLLAR, ch, nat_byte (length d div 256), nat_byte (length d)]"
  have p: "pending r = h @ d @ t"
    using assms(2) by (simp add: Interleaved f encode_frame_def h_def)
  have h4: "length h = 4" and len: "be16 (h ! 2) (h ! 3) = length d"
    using assms(3) by (simp_all add: h_def Interleaved f frame_ok_def be16_split)
  obtain r1 where pk: "Peek 1 r = (Inr [DOLLAR], r1)" "live r1" "pending r1 = h @ d @ t"
    using tcp.peek_ok [OF assms(1), of "[DOLLAR]" "tl h @ d @ t" 1] p by (auto simp: h_def)
  obtain r2 r3 where rd: "ReadFull 4 r1 = (Inr h, r2)" "ReadFull (length d) r2 = (Inr d, r3)"
    "live r3" "pending r3 = t"
    using tcp.read_frame [OF pk(2,3) h4] by blast
  have r2: "live r2" "pending r2 = d @ t"
    using tcp.full_ok [OF pk(2,3) h4] rd(1) by auto
  show ?thesis
  proof (cases "d = []")
    case True
    then have "response_loop r = response_loop r2"
      by (subst response_loop.simps) (simp add: pk pk [unfolded One_nat_def] rd len)
    with r2 True show ?thesis by auto
  next
    case False
    then have "response_loop r = response_loop r3"
      by (subst response_loop.simps) (simp add: pk pk [unfolded One_nat_def] rd len)
    with rd show ?thesis by auto
  qed
next
  case (Junk l)
  define c where "c = hd (l @ LF)"
  have c: "c \<noteq> DOLLAR" using assms(3) by (cases l) (auto simp: c_def Junk)
  have "pending r = [c] @ tl (l @ LF) @ t" using assms(2) by (cases l) (auto simp: c_def Junk)
  then obtain r1 where pk: "Peek 1 r = (Inr [c], r1)" "live r1" "pending r1 = l @ LF @ t"
    using tcp.peek_ok [OF assms(1), of "[c]" "tl (l @ LF) @ t" 1] assms(2) by (auto simp: Junk)
  obtain r2 where "ReadString r1 = (Inr (l @ LF), r2)" "live r2" "pending r2 = t"
    using tcp.line_ok [OF pk(2,3)] assms(3) by (auto simp: Junk)
  moreover have "\<not> HasPrefix (l @ LF) ''RTSP/''" using assms(3) by (simp add: Junk)
  ultimately show ?thesis
    using c by (subst response_loop.simps) (auto simp: pk pk [unfolded One_nat_def])
qed

lemma skip_noises:
  assumes "live r" and "pending r = concat (map noise_text xs) @ t" and "list_all noise_ok xs"
  shows "\<exists>r'. response_loop r = response_loop r' \<and> live r' \<and> pending r' = t"
  using assms
proof (induction xs arbitrary: r)
  case (Cons x xs)
  then obtain r1 where "response_loop r = response_loop r1" "live r1"
    "pending r1 = concat (map noise_text xs) @ t"
    using skip_noise [of r x "concat (map noise_text xs) @ t"] by auto
  with Cons.IH [of r1] Cons.prems(3) show ?case by auto
qed auto

lemma status_line_step:
  assumes "live r" and "pending r = status @ CRLF @ t" and "HasPrefix status ''RTSP/''"
    and "CHR 0x0A \<notin> set status"
  shows "\<exists>r'. response_loop r = read_message (status @ CRLF) r' \<and> live r' \<and> pending r' = t"
proof -
  obtain u where u: "status = ''RTSP/'' @ u" using assms(3) by (auto simp: HasPrefix_iff)
  obtain r1 where pk: "Peek 1 r = (Inr ''R'', r1)" "live r1" "pending r1 = status @ CRLF @ t"
    using tcp.peek_ok [OF assms(1), of "''R''" "''TSP/'' @ u @ CRLF @ t" 1] assms(2) by (auto simp: u)
  obtain r2 where "ReadString r1 = (Inr (status @ CRLF), r2)" "live r2" "pending r2 = t"
    using read_line_step [OF pk(2,3) assms(4)] by blast
  moreover have "HasPrefix (status @ CRLF) ''RTSP/''" by (simp add: HasPrefix_iff u)
  ultimately show ?thesis
    by (subst response_loop.simps) (auto simp: pk pk [unfolded One_nat_def])
qed

text \<open>
  C29: a response is read exactly: after any mix of interleaved frames and stray lines, a status line,
  headers and as many body bytes as the last Content-Length header announces are returned as one
  text with the status code, and the connection is left at the first byte after the body, so that
  no media data behind the response is lost.
\<close>

theorem readRTSPResponse_exact:
  assumes "open_client rc r"
    and "pending r = concat (map noise_text xs) @ response_text status hs body @ rest"
    and "list_all noise_ok xs" and "HasPrefix status ''RTSP/''" and "CHR 0x0A \<notin> set status"
    and "list_all header_line hs" and "length body = nat (body_length hs)"
    and "body_length hs \<le> max_alloc"
  shows "\<exists>r'. readRTSPResponse rc =
      (rc\<lparr>reader := Some r'\<rparr>, Inr (response_text status hs body, parseRTSPStatusCode (status @ CRLF))) \<and>
     live r' \<and> pending r' = rest"
proof -
  from assms(1) have l: "live r" and rc: "socket rc \<noteq> None" "reader rc = Some r"
    by (simp_all add: open_client_def)
  obtain r1 where r1: "response_loop r = response_loop r1" "live r1"
    "pending r1 = response_text status hs body @ rest"
    using skip_noises [OF l assms(2,3)] by blast
  obtain r2 where r2: "response_loop r1 = read_message (status @ CRLF) r2" "live r2"
    "pending r2 = header_text hs @ body @ rest"
    using status_line_step [OF r1(2), of status "header_text hs @ body @ rest"] r1(3) assms(4,5)
    by (auto simp: response_text_def)
  obtain r3 where "read_message (status @ CRLF) r2 =
      (Inr ((status @ CRLF) @ header_text hs @ body, parseRTSPStatusCode (status @ CRLF)), r3)"
    "live r3" "pending r3 = rest"
    using read_message_text [OF r2(2,3) assms(6-8)] by blast
  then show ?thesis
    using rc by (auto simp: readRTSPResponse_def r1(1) r2(1) response_text_def)
qed

definition describe_response :: string where
  "describe_response = response_text ''RTSP/1.0 200 OK'' [''CSeq: 3'', ''CONTENT-Length: 5''] ''v=0'' @ CRLF"

definition response_client :: "string \<Rightarrow> RtspClient" where
  "response_client s = NewRtspClient\<lparr>socket := Some \<lparr>sent = [], writes = []\<rparr>,
     reader := Some \<lparr>buf = [], net = [Chunk s]\<rparr>\<rparr>"

theorem readRTSPResponse_exact_witness:
  "\<exists>r'. snd (readRTSPResponse (response_client (encode_frame (CHR 0x00, ''media'') @
       response_text ''RTSP/1.0 200 OK'' [''CSeq: 3'', ''CONTENT-Length: 3''] ''v=0'' @ ''$next''))) =
      Inr (response_text ''RTSP/1.0 200 OK'' [''CSeq: 3'', ''CONTENT-Length: 3''] ''v=0'', 200) \<and>
     pending r' = ''$next''"
proof -
  let ?msg = "response_text ''RTSP/1.0 200 OK'' [''CSeq: 3'', ''CONTENT-Length: 3''] ''v=0''"
  let ?in = "encode_frame (CHR 0x00, ''media'') @ ?msg @ ''$next''"
  have "\<exists>r'. readRTSPResponse (response_client ?in) =
      ((response_client ?in)\<lparr>reader := Some r'\<rparr>, Inr (?msg, parseRTSPStatusCode (''RTSP/1.0 200 OK'' @ CRLF))) \<and>
     live r' \<and> pending r' = ''$next''"
  proof (rule readRTSPResponse_exact)
    show "open_client (response_client ?in) \<lparr>buf = [], net = [Chunk ?in]\<rparr>"
      by (simp add: open_client_def response_client_def NewRtspClient_def live_def)
    show "pending \<lparr>buf = [], net = [Chunk ?in]\<rparr> =
        concat (map noise_text [Interleaved (CHR 0x00, ''media'')]) @ ?msg @ ''$next''"
      by (simp add: pending_def)
    show "list_all noise_ok [Interleaved (CHR 0x00, ''media'')]" by (simp add: frame_ok_def)
    show "body_length [''CSeq: 3'', ''CONTENT-Length: 3''] \<le> max_alloc"
      "length ''v=0'' = nat (body_length [''CSeq: 3'', ''CONTENT-Length: 3''])"
      by code_simp+
  qed (simp_all add: HasPrefix_def header_line_def)
  moreover have "parseRTSPStatusCode (''RTSP/1.0 200 OK'' @ CRLF) = 200" by code_simp
  ultimately show ?thesis by auto
qed

text \<open>
  A response that announces more bytes than the address space makes the allocation of the body
  panic: \<open>strconv.Atoi\<close> returns the largest \<open>int\<close> for a number out of range, and its error is ignored.
\<close>

theorem readRTSPResponse_length_panics:
  assumes "open_client rc r" and "pending r = status @ CRLF @ header_text hs @ rest"
    and "HasPrefix status ''RTSP/''" and "CHR 0x0A \<notin> set status" and "list_all header_line hs"
    and "body_length hs > max_alloc"
  shows "panics (snd (readRTSPResponse rc))"
proof -
  from assms(1) have l: "live r" and rc: "socket rc \<noteq> None" "reader rc = Some r"
    by (simp_all add: open_client_def)
  obtain r2 where r2: "response_loop r = read_message (status @ CRLF) r2" "live r2"
    "pending r2 = header_text hs @ rest"
    using status_line_step [OF l assms(2,3,4)] by blast
  obtain r3 where "read_headers (status @ CRLF) 0 r2 =
      (Inr ((status @ CRLF) @ header_text hs, body_length hs), r3)"
    using read_headers_text [OF r2(2,3) assms(5), of "status @ CRLF" 0]
    unfolding body_length_def by blast
  then have "panics (fst (read_message (status @ CRLF) r2))"
    using assms(6) by (simp add: read_message_def max_alloc_def)
  then show ?thesis using rc by (auto simp: readRTSPResponse_def r2(1) split: prod.splits)
qed

theorem readRTSPResponse_length_panics_witness:
  "panics (snd (readRTSPResponse (response_client
     (''RTSP/1.0 200 OK'' @ CRLF @ header_text [''Content-Length: 99999999999999999999''] @ []))))"
proof (rule readRTSPResponse_length_panics)
  let ?in = "''RTSP/1.0 200 OK'' @ CRLF @ header_text [''Content-Length: 99999999999999999999''] @ []"
  show "open_client (response_client ?in) \<lparr>buf = [], net = [Chunk ?in]\<rparr>"
    by (simp add: open_client_def response_client_def NewRtspClient_def live_def)
  show "pending \<lparr>buf = [], net = [Chunk ?in]\<rparr> = ?in" by (simp add: pending_def)
  have "body_length [''Content-Length: 99999999999999999999''] = 2 ^ 63 - 1"
    by (simp add: body_length_def content_length_def HasPrefix_def ToLower_def lower_byte_def
          TrimPrefix_def TrimSpace_def is_space_def Atoi_def is_digit_def digits_val_def byte_val_def
          nat_byte_def Let_def char_of_eq_iff)
  then show "body_length [''Content-Length: 99999999999999999999''] > max_alloc"
    by (simp add: max_alloc_def)
qed (simp_all add: HasPrefix_def header_line_def)

end
