(* ===== verification/RtspSession.thy ===== *)
theory RtspSession imports RtspResponse GoCrypto begin

text \<open>
  The RTSP session of \<open>rtsp_client.go\<close>: the request text, \<open>sendRequest\<close> with its authentication,
  \<open>Connect\<close>, \<open>describe\<close>, \<open>ProbeSource\<close>, the set-up sequence \<open>Client\<close>, the read loop
  \<open>RtspRtpLoop\<close> with its keepalives, and \<open>Close\<close>.

  The outside world is a parameter: \<open>url_Parse\<close> (package \<open>net/url\<close>) and \<open>dial\<close>, which gives for an
  address the new connection (the outcomes of its writes and what the camera will send) or None.
  The header map of a request has at most one entry in this program, so its order is immaterial; it
  is a list here.
\<close>

section \<open>Requests\<close>

definition header_field :: "string \<times> string \<Rightarrow> string" where
  "header_field kv = fst kv @ '': '' @ snd kv @ CRLF"

definition request_text ::
  "string \<Rightarrow> string \<Rightarrow> (string \<times> string) list \<Rightarrow> RtspClient \<Rightarrow> string" where
  "request_text requestType u content rc =
     requestType @ '' '' @ u @ '' RTSP/1.0'' @ CRLF @ ''User-Agent: rtsp-client'' @ CRLF @
     ''Accept: application/sdp'' @ CRLF @ ''CSeq: '' @ Itoa (cseq rc) @ CRLF @
     (if auth rc \<noteq> '''' then auth rc @ CRLF else '''') @
     concat (map header_field content) @
     (if session rc \<noteq> '''' then header_field (''Session'', session rc) else '''') @ CRLF"

text \<open>\<open>socket.Write\<close>: the request is sent whole or the write fails.\<close>

definition Write :: "string \<Rightarrow> socket \<Rightarrow> socket \<times> bool" where
  "Write m s =
     (case writes s of
        [] \<Rightarrow> (s\<lparr>sent := sent s @ [m]\<rparr>, True)
      | True # ws \<Rightarrow> (s\<lparr>sent := sent s @ [m], writes := ws\<rparr>, True)
      | False # ws \<Rightarrow> (s\<lparr>writes := ws\<rparr>, False))"

text \<open>The Authorization header the client builds from a challenge.\<close>

definition digest_response :: "string \<Rightarrow> string \<Rightarrow> string \<Rightarrow> RtspClient \<Rightarrow> string" where
  "digest_response requestType realm nonce rc =
     (let hs1 = GetMD5Hash (login rc @ '':'' @ realm @ '':'' @ password rc);
          hs2 = GetMD5Hash (requestType @ '':'' @ uri rc)
      in GetMD5Hash (hs1 @ '':'' @ nonce @ '':'' @ hs2))"

definition digest_header :: "string \<Rightarrow> string \<Rightarrow> string \<Rightarrow> RtspClient \<Rightarrow> string" where
  "digest_header requestType realm nonce rc =
     ''Authorization: Digest username='' @ QUOTE @ login rc @ QUOTE @ '', realm='' @ QUOTE @ realm @ QUOTE @
     '', nonce='' @ QUOTE @ nonce @ QUOTE @ '', uri='' @ QUOTE @ uri rc @ QUOTE @
     '', response='' @ QUOTE @ digest_response requestType realm nonce rc @ QUOTE"

definition basic_header :: "RtspClient \<Rightarrow> string" where
  "basic_header rc = ''Authorization: Basic '' @ b64_EncodeToString (login rc @ '':'' @ password rc)"

definition authenticate :: "string \<Rightarrow> string \<Rightarrow> RtspClient \<Rightarrow> string res" where
  "authenticate requestType result rc =
     (if auth rc \<noteq> '''' then Inr (auth rc)
      else if Contains result ''Digest''
      then bind_res (ParseDirective result ''nonce'') (\<lambda>nonce.
           bind_res (ParseDirective result ''realm'') (\<lambda>realm.
             Inr (digest_header requestType realm nonce rc)))
      else if Contains result ''Basic'' then Inr (basic_header rc)
      else Inr (auth rc))"

definition sendRequest ::
  "string \<Rightarrow> string \<Rightarrow> (string \<times> string) list \<Rightarrow> RtspClient \<Rightarrow> RtspClient \<times> (int \<times> string) res" where
  "sendRequest requestType u content rc =
     (case socket rc of
        None \<Rightarrow> (rc, Inl (Failed ''socket is not initialized''))
      | Some s \<Rightarrow>
          (let rc1 = rc\<lparr>cseq := cseq rc + 1\<rparr>;
               (s1, ok) = Write (request_text requestType u content rc1) s;
               rc2 = rc1\<lparr>socket := Some s1\<rparr>
           in if \<not> ok then (rc2, Inl (Failed ''write error''))
              else (case readRTSPResponse rc2 of
                      (rc3, Inl e) \<Rightarrow> (rc3, Inl e)
                    | (rc3, Inr (result, statusCode)) \<Rightarrow>
                        (case authenticate requestType result rc3 of
                           Inl e \<Rightarrow> (rc3, Inl e)
                         | Inr a \<Rightarrow> (rc3\<lparr>auth := a\<rparr>, Inr (statusCode, result))))))"

text \<open>\<open>SendRequest\<close> holds the connection's mutex meanwhile; it is released on every way out.\<close>

definition SendRequest ::
  "string \<Rightarrow> string \<Rightarrow> (string \<times> string) list \<Rightarrow> RtspClient \<Rightarrow> RtspClient \<times> (int \<times> string) res" where
  "SendRequest requestType u content rc = sendRequest requestType u content rc"

section \<open>Connecting and describing\<close>

type_synonym dialer = "string \<Rightarrow> (socket \<times> reader) option"

definition Connect :: "dialer \<Rightarrow> RtspClient \<Rightarrow> RtspClient \<times> bool" where
  "Connect dial rc =
     (case dial (host rc @ '':'' @ port rc) of
        None \<Rightarrow> (rc, False)
      | Some (s, r) \<Rightarrow> (rc\<lparr>socket := Some s, reader := Some r\<rparr>, True))"

definition set_endpoint :: "endpoint \<Rightarrow> RtspClient \<Rightarrow> RtspClient" where
  "set_endpoint ep rc =
     rc\<lparr>host := ep_host ep, port := ep_port ep, uri := ep_uri ep, login := ep_login ep,
        password := ep_password ep\<rparr>"

text \<open>The status a caller that ignores the error sees: 0 after an error.\<close>

definition status_of :: "(int \<times> string) res \<Rightarrow> int" where
  "status_of r = (case r of Inl _ \<Rightarrow> 0 | Inr (st, _) \<Rightarrow> st)"

text \<open>How a caller turns an error of \<open>SendRequest\<close> into its own; a panic goes through.\<close>

definition relabel :: "string \<Rightarrow> go_exit \<Rightarrow> go_exit" where
  "relabel msg e = (case e of Failed _ \<Rightarrow> Failed msg | Panicked p \<Rightarrow> Panicked p)"

definition options_phase :: "RtspClient \<Rightarrow> RtspClient \<times> unit res" where
  "options_phase rc =
     (case SendRequest ''OPTIONS'' (uri rc) [] rc of
        (rc1, Inl (Panicked p)) \<Rightarrow> (rc1, Inl (Panicked p))
      | (rc1, r1) \<Rightarrow>
          (if status_of r1 \<noteq> 200
           then (case SendRequest ''OPTIONS'' (uri rc1) [] rc1 of
                   (rc2, Inl (Panicked p)) \<Rightarrow> (rc2, Inl (Panicked p))
                 | (rc2, _) \<Rightarrow> (rc2, Inr ()))
           else (rc1, Inr ())))"

definition describe_phase :: "RtspClient \<Rightarrow> RtspClient \<times> string res" where
  "describe_phase rc =
     (case SendRequest ''DESCRIBE'' (uri rc) [] rc of
        (rc1, Inl e) \<Rightarrow>
          (rc1, Inl (relabel ''Unable to read DESCRIBE response; connection lost?'' e))
      | (rc1, Inr (status, message)) \<Rightarrow>
          (if status \<noteq> 200 then (rc1, Inl (Failed ''DESCRIBE error; not status code 200 OK''))
           else (rc1, Inr message)))"

definition describe ::
  "(string \<Rightarrow> URL option) \<Rightarrow> dialer \<Rightarrow> string \<Rightarrow> RtspClient \<Rightarrow> RtspClient \<times> string res" where
  "describe url_Parse dial rtsp_url rc0 =
     (case ParseUrl url_Parse rtsp_url of
        None \<Rightarrow> (rc0, Inl (Failed ''Invalid URL''))
      | Some ep \<Rightarrow>
          (case Connect dial (set_endpoint ep rc0) of
             (rc, False) \<Rightarrow> (rc, Inl (Failed ''Unable to connect''))
           | (rc, True) \<Rightarrow>
               (case options_phase rc of
                  (rc1, Inl e) \<Rightarrow> (rc1, Inl e)
                | (rc1, Inr _) \<Rightarrow> describe_phase rc1)))"

section \<open>\<open>Close\<close>\<close>

text \<open>
  The second component is the socket that was closed, with all that was sent on it. The answer to
  TEARDOWN is ignored, but a panic while reading it is not: the connection then stays open.
\<close>

definition drain :: "RtspClient \<Rightarrow> RtspClient" where
  "drain rc = rc\<lparr>received := []\<rparr>"

definition Close :: "RtspClient \<Rightarrow> RtspClient \<times> socket option \<times> unit res" where
  "Close rc =
     (if socket rc = None then (drain rc, None, Inr ())
      else if session rc \<noteq> ''''
      then (case sendRequest ''TEARDOWN'' (uri rc) [] rc of
              (rc1, Inl (Panicked p)) \<Rightarrow> (rc1, None, Inl (Panicked p))
            | (rc1, _) \<Rightarrow> (drain (rc1\<lparr>socket := None, reader := None\<rparr>), socket rc1, Inr ()))
      else (drain (rc\<lparr>socket := None, reader := None\<rparr>), socket rc, Inr ()))"

section \<open>\<open>ProbeSource\<close>\<close>

text \<open>The deferred \<open>Close\<close> runs on every way out; a panic of it replaces the result.\<close>

definition ProbeSource ::
  "(string \<Rightarrow> URL option) \<Rightarrow> dialer \<Rightarrow> string \<Rightarrow> RtspClient \<times> socket option \<times> SourceInfo res" where
  "ProbeSource url_Parse dial rtsp_url =
     (case describe url_Parse dial rtsp_url NewRtspClient of
        (rc, r) \<Rightarrow>
          (case Close rc of
             (rc', conn, Inl p) \<Rightarrow> (rc', conn, Inl p)
           | (rc', conn, Inr _) \<Rightarrow> (rc', conn, map_sum id ParseCodecs r)))"

section \<open>\<open>Client\<close>: SETUP and PLAY\<close>

text \<open>
  The first announced track is set up on channels 0-1, the second on 2-3; a status other than 200
  is not an error for SETUP. \<open>looping\<close> tells whether the read loop was started (\<open>go rc.RtspRtpLoop()\<close>).
\<close>

definition setup_track :: "nat \<Rightarrow> string \<Rightarrow> RtspClient \<Rightarrow> RtspClient \<times> unit res" where
  "setup_track n transport rc =
     (case SendRequest ''SETUP'' (uri rc @ ''/'' @ track rc ! n) [(''Transport'', transport)] rc of
        (rc1, Inl e) \<Rightarrow> (rc1, Inl (relabel ''Unable to read SETUP response; connection lost'' e))
      | (rc1, Inr (status, message)) \<Rightarrow>
          (if status = 200
           then (case ParseSession message of
                   Inl e \<Rightarrow> (rc1, Inl e)
                 | Inr s \<Rightarrow> (rc1\<lparr>session := s\<rparr>, Inr ()))
           else (rc1, Inr ())))"

definition set_media :: "string \<Rightarrow> RtspClient \<Rightarrow> RtspClient" where
  "set_media message rc =
     (case ParseMedia message (videow rc, videoh rc) of
        (tracks, (w, h)) \<Rightarrow> rc\<lparr>track := tracks, videow := w, videoh := h\<rparr>)"

definition play :: "RtspClient \<Rightarrow> RtspClient \<times> unit res" where
  "play rc =
     (case SendRequest ''PLAY'' (uri rc) [(''Range'', ''npt=0-'')] rc of
        (rc1, Inl e) \<Rightarrow> (rc1, Inl (relabel ''Unable to read PLAY response; connection lost'' e))
      | (rc1, Inr (status, _)) \<Rightarrow>
          (if status = 200 then (rc1\<lparr>looping := True\<rparr>, Inr ())
           else (rc1, Inl (Failed ''other error''))))"

definition Client ::
  "(string \<Rightarrow> URL option) \<Rightarrow> dialer \<Rightarrow> string \<Rightarrow> RtspClient \<Rightarrow> RtspClient \<times> unit res" where
  "Client url_Parse dial rtsp_url rc0 =
     (case describe url_Parse dial rtsp_url rc0 of
        (rc, Inl e) \<Rightarrow> (rc, Inl e)
      | (rc, Inr message) \<Rightarrow>
          (let rc1 = set_media message rc
           in if track rc1 = [] then (rc1, Inl (Failed ''Error; track not found''))
              else (case setup_track 0 ''RTP/AVP/TCP;unicast;interleaved=0-1'' rc1 of
                      (rc2, Inl e) \<Rightarrow> (rc2, Inl e)
                    | (rc2, Inr _) \<Rightarrow>
                        (if length (track rc2) > 1
                         then (case setup_track 1 ''RTP/AVP/TCP;unicast;interleaved=2-3'' rc2 of
                                 (rc3, Inl e) \<Rightarrow> (rc3, Inl e)
                               | (rc3, Inr _) \<Rightarrow> play rc3)
                         else play rc2))))"

section \<open>\<open>RtspRtpLoop\<close>\<close>

text \<open>
  One turn of the loop finds the keepalive ticker fired or not, and before it the consumer may have
  taken some packets from the queue. The loop runs for as long as the camera streams; the model runs it
  for the turns given, and ends with \<open>None\<close> when it is still running after them. It ends with the
  last keepalive given up, a read error, or a recovered panic; \<open>sleeps\<close> are the backoffs in seconds.
\<close>

type_synonym turn = "bool \<times> nat"

datatype loop_end = GaveUp | ReadFailed string | Recovered string

record loop_run =
  client :: RtspClient
  taken :: "string list"
  sleeps :: "int list"

definition maxReconnectAttempts :: nat where "maxReconnectAttempts = 5"

definition backoff :: "nat \<Rightarrow> int" where
  "backoff n = min 30 (2 ^ (n - 1))"

definition consume :: "nat \<Rightarrow> loop_run \<Rightarrow> loop_run" where
  "consume n l =
     l\<lparr>client := (client l)\<lparr>received := drop n (received (client l))\<rparr>,
       taken := taken l @ take n (received (client l))\<rparr>"

lemma sendRequest_csize: "csize (fst (sendRequest m u c rc)) \<le> csize rc"
proof (cases "socket rc")
  case None
  then show ?thesis by (simp add: sendRequest_def)
next
  case (Some s)
  define rc2 where "rc2 = rc\<lparr>cseq := cseq rc + 1,
      socket := Some (fst (Write (request_text m u c (rc\<lparr>cseq := cseq rc + 1\<rparr>)) s))\<rparr>"
  obtain s1 ok where w: "Write (request_text m u c (rc\<lparr>cseq := cseq rc + 1\<rparr>)) s = (s1, ok)"
    by fastforce
  obtain rc3 res where rr: "readRTSPResponse rc2 = (rc3, res)" by fastforce
  have "csize rc3 \<le> csize rc"
    using readRTSPResponse_frame(2) [OF rr] by (simp add: rc2_def csize_def)
  then show ?thesis
    using rr by (auto simp: sendRequest_def Some w rc2_def csize_def Let_def
        split: sum.splits prod.splits)
qed

lemma handleTCPPackets_csize:
  assumes "handleTCPPackets rc = (rc', Inr ())"
  shows "csize rc' < csize rc"
proof -
  from assms obtain s r where sr: "socket rc = Some s" "reader rc = Some r"
    by (auto simp: handleTCPPackets_def split: option.splits)
  obtain rc1 res1 where e: "handleTCPPackets (rc\<lparr>received := []\<rparr>) = (rc1, res1)" by fastforce
  have "csize rc' = csize rc1 \<and> res1 = Inr ()"
    using assms e sr
    by (auto simp: handleTCPPackets_def handle_frame_def Let_def queue_packet_def csize_def
        split: sum.splits prod.splits read_error.splits if_splits)
  moreover have "queue_inv (rc\<lparr>received := []\<rparr>)" by (simp add: queue_inv_def)
  ultimately show ?thesis
    using handleTCPPackets_step(6) [of "rc\<lparr>received := []\<rparr>" r rc1 res1] e sr by (simp add: csize_def)
qed

text \<open>What the tick leaves the loop to do: stop, \<open>continue\<close>, or read the next frame.\<close>

datatype tick_result = Stop loop_run loop_end | Again nat loop_run | Go nat loop_run

definition keepalive :: "nat \<Rightarrow> loop_run \<Rightarrow> tick_result" where
  "keepalive attempts l =
     (case SendRequest ''OPTIONS'' (uri (client l)) [] (client l) of
        (rc, Inl (Panicked p)) \<Rightarrow> Stop (l\<lparr>client := rc\<rparr>) (Recovered p)
      | (rc, Inl (Failed _)) \<Rightarrow>
          (if attempts + 1 > maxReconnectAttempts then Stop (l\<lparr>client := rc\<rparr>) GaveUp
           else Again (attempts + 1) (l\<lparr>client := rc, sleeps := sleeps l @ [backoff (attempts + 1)]\<rparr>))
      | (rc, Inr _) \<Rightarrow> Go 0 (l\<lparr>client := rc\<rparr>))"

definition on_tick :: "bool \<Rightarrow> nat \<Rightarrow> loop_run \<Rightarrow> tick_result" where
  "on_tick tick attempts l = (if tick then keepalive attempts l else Go attempts l)"

lemma keepalive_csize:
  "keepalive a l = Again b l1 \<Longrightarrow> csize (client l1) \<le> csize (client l)"
  "keepalive a l = Go b l1 \<Longrightarrow> csize (client l1) \<le> csize (client l)"
  using sendRequest_csize [of "''OPTIONS''" "uri (client l)" "[]" "client l"]
  by (auto simp: keepalive_def SendRequest_def Let_def
      split: prod.splits sum.splits go_exit.splits if_splits)

lemma csize_consume [simp]: "csize (client (consume n l)) = csize (client l)"
  by (simp add: consume_def csize_def)

lemma on_tick_csize:
  "on_tick t a (consume n l) = Go b l1 \<Longrightarrow> csize (client l1) \<le> csize (client l)"
  "on_tick t a (consume n l) = Again b l1 \<Longrightarrow> csize (client l1) \<le> csize (client l) \<and> t"
  using keepalive_csize [of a "consume n l"] by (auto simp: on_tick_def split: if_splits)

fun rtp_loop :: "nat \<Rightarrow> turn list \<Rightarrow> loop_run \<Rightarrow> loop_run \<times> loop_end option" where
  "rtp_loop attempts [] l = (l, None)"
| "rtp_loop attempts ((tick, n) # ts) l =
     (case on_tick tick attempts (consume n l) of
        Stop l1 e \<Rightarrow> (l1, Some e)
      | Again a l1 \<Rightarrow> rtp_loop a ts l1
      | Go a l1 \<Rightarrow>
          (case handleTCPPackets (client l1) of
             (rc, Inl (Failed e)) \<Rightarrow> (l1\<lparr>client := rc\<rparr>, Some (ReadFailed e))
           | (rc, Inl (Panicked p)) \<Rightarrow> (l1\<lparr>client := rc\<rparr>, Some (Recovered p))
           | (rc, Inr _) \<Rightarrow> rtp_loop a ts (l1\<lparr>client := rc\<rparr>)))"

text \<open>The deferred function recovers a panic and signals the end.\<close>

definition RtspRtpLoop :: "turn list \<Rightarrow> RtspClient \<Rightarrow> loop_run \<times> loop_end option" where
  "RtspRtpLoop ts rc =
     (case rtp_loop 0 ts \<lparr>client = rc\<lparr>payload := replicate 8192 (CHR 0x00)\<rparr>, taken = [], sleeps = []\<rparr> of
        (l, None) \<Rightarrow> (l, None)
      | (l, Some e) \<Rightarrow> (l\<lparr>client := (client l)\<lparr>signals := signals (client l) @ [True]\<rparr>\<rparr>, Some e))"

section \<open>What a request changes\<close>

lemma sendRequest_frame:
  "sendRequest m u c rc = (rc', res) \<Longrightarrow>
     rc' = rc\<lparr>socket := socket rc', reader := reader rc', auth := auth rc', cseq := cseq rc'\<rparr>"
  by (auto simp: sendRequest_def readRTSPResponse_def Let_def split: option.splits prod.splits sum.splits if_splits)

lemma sendRequest_fields [frame_simps]:
  assumes "sendRequest m u c rc = (rc', res)"
  shows "uri rc' = uri rc" "session rc' = session rc" "received rc' = received rc"
    "signals rc' = signals rc" "track rc' = track rc" "login rc' = login rc" "password rc' = password rc"
  by (subst sendRequest_frame [OF assms]; simp)+

lemma sendRequest_socket:
  assumes "sendRequest m u c rc = (rc', res)" and "socket rc = Some s"
  shows "\<exists>s'. socket rc' = Some s' \<and>
    (sent s' = sent s \<or> sent s' = sent s @ [request_text m u c (rc\<lparr>cseq := cseq rc + 1\<rparr>)])"
  using assms
  by (auto simp: sendRequest_def Write_def readRTSPResponse_def Let_def
      split: option.splits prod.splits sum.splits if_splits list.splits bool.splits)

lemma sendRequest_reader:
  assumes "sendRequest m u c rc = (rc', res)" and "reader rc \<noteq> None"
  shows "reader rc' \<noteq> None"
  using assms
  by (auto simp: sendRequest_def readRTSPResponse_def Let_def
      split: option.splits prod.splits sum.splits if_splits)

lemma request_text_frame:
  "auth rc' = auth rc \<Longrightarrow> session rc' = session rc \<Longrightarrow> cseq rc' = cseq rc \<Longrightarrow>
     request_text m u c rc' = request_text m u c rc"
  by (simp add: request_text_def)

lemma authenticate_frame:
  "auth rc' = auth rc \<Longrightarrow> login rc' = login rc \<Longrightarrow> password rc' = password rc \<Longrightarrow> uri rc' = uri rc \<Longrightarrow>
     authenticate m t rc' = authenticate m t rc"
  by (simp add: authenticate_def digest_header_def digest_response_def basic_header_def)

section \<open>A camera that answers\<close>

record answer =
  a_status :: string
  a_headers :: "string list"
  a_body :: string

definition answer_text :: "answer \<Rightarrow> string" where
  "answer_text a = response_text (a_status a) (a_headers a) (a_body a)"

definition answer_code :: "answer \<Rightarrow> int" where
  "answer_code a = parseRTSPStatusCode (a_status a @ CRLF)"

definition answer_ok :: "answer \<Rightarrow> bool" where
  "answer_ok a \<longleftrightarrow> HasPrefix (a_status a) ''RTSP/'' \<and> CHR 0x0A \<notin> set (a_status a) \<and>
     list_all header_line (a_headers a) \<and> length (a_body a) = nat (body_length (a_headers a)) \<and>
     body_length (a_headers a) \<le> max_alloc"

definition no_challenge :: "answer \<Rightarrow> bool" where
  "no_challenge a \<longleftrightarrow> \<not> Contains (answer_text a) ''Digest'' \<and> \<not> Contains (answer_text a) ''Basic''"

text \<open>An open connection on which \<open>ms\<close> has been sent and \<open>todo\<close> is still to be read.\<close>

definition connected :: "RtspClient \<Rightarrow> string \<Rightarrow> string list \<Rightarrow> bool" where
  "connected rc todo ms \<longleftrightarrow>
     (\<exists>r. socket rc = Some \<lparr>sent = ms, writes = []\<rparr> \<and> reader rc = Some r \<and> live r \<and> pending r = todo)"

lemma sendRequest_answer:
  assumes rc: "connected rc (answer_text a @ rest) ms" and a: "answer_ok a"
    and au: "authenticate m (answer_text a) rc = Inr au"
  obtains rc' where "sendRequest m u c rc = (rc', Inr (answer_code a, answer_text a))"
    "connected rc' rest (ms @ [request_text m u c (rc\<lparr>cseq := cseq rc + 1\<rparr>)])"
    "auth rc' = au" "cseq rc' = cseq rc + 1"
    "rc' = rc\<lparr>socket := socket rc', reader := reader rc', auth := au, cseq := cseq rc + 1\<rparr>"
proof -
  from rc obtain r where r: "socket rc = Some \<lparr>sent = ms, writes = []\<rparr>" "reader rc = Some r"
    "live r" "pending r = answer_text a @ rest" by (auto simp: connected_def)
  define t where "t = request_text m u c (rc\<lparr>cseq := cseq rc + 1\<rparr>)"
  define rc2 where "rc2 = rc\<lparr>cseq := cseq rc + 1, socket := Some \<lparr>sent = ms @ [t], writes = []\<rparr>\<rparr>"
  have "open_client rc2 r" using r by (simp add: open_client_def rc2_def)
  moreover have "pending r = concat (map noise_text []) @ response_text (a_status a) (a_headers a) (a_body a) @ rest"
    using r(4) by (simp add: answer_text_def)
  ultimately obtain r' where rr: "readRTSPResponse rc2 =
      (rc2\<lparr>reader := Some r'\<rparr>, Inr (answer_text a, answer_code a))" "live r'" "pending r' = rest"
    using readRTSPResponse_exact [of rc2 r "[]" "a_status a" "a_headers a" "a_body a" rest] a
    by (auto simp: answer_ok_def answer_text_def answer_code_def)
  have au2: "authenticate m (answer_text a) (rc2\<lparr>reader := Some r'\<rparr>) = Inr au"
    using au by (subst authenticate_frame [of _ rc]) (simp_all add: rc2_def)
  define rc' where "rc' = rc2\<lparr>reader := Some r', auth := au\<rparr>"
  show thesis
  proof (rule that [of rc'])
    show "sendRequest m u c rc = (rc', Inr (answer_code a, answer_text a))"
      using r(1) rr au2
      by (simp add: sendRequest_def Write_def t_def [symmetric] rc2_def [symmetric] rc'_def)
    show "connected rc' rest (ms @ [request_text m u c (rc\<lparr>cseq := cseq rc + 1\<rparr>)])"
      using rr by (simp add: connected_def rc'_def rc2_def t_def)
  qed (simp_all add: rc'_def rc2_def)
qed


lemma authenticate_none:
  "no_challenge a \<Longrightarrow> authenticate m (answer_text a) rc = Inr (auth rc)"
  by (simp add: authenticate_def no_challenge_def)

lemma authenticate_kept: "auth rc \<noteq> '''' \<Longrightarrow> authenticate m t rc = Inr (auth rc)"
  by (simp add: authenticate_def)

lemma digest_header_ne [simp]: "digest_header m realm nonce rc \<noteq> ''''"
  by (simp add: digest_header_def)

lemma authenticate_digest:
  "auth rc = '''' \<Longrightarrow> Contains t ''Digest'' \<Longrightarrow> ParseDirective t ''nonce'' = Inr nonce \<Longrightarrow>
     ParseDirective t ''realm'' = Inr realm \<Longrightarrow>
     authenticate m t rc = Inr (digest_header m realm nonce rc)"
  by (simp add: authenticate_def)

text \<open>The camera at an address: a connection with nothing sent, all writes working, and its answers.\<close>

definition camera :: "(string \<Rightarrow> URL option) \<Rightarrow> dialer \<Rightarrow> string \<Rightarrow> endpoint \<Rightarrow> answer list \<Rightarrow> bool" where
  "camera url_Parse dial u ep as \<longleftrightarrow>
     ParseUrl url_Parse u = Some ep \<and> list_all answer_ok as \<and>
     (\<exists>r. dial (ep_host ep @ '':'' @ ep_port ep) = Some (\<lparr>sent = [], writes = []\<rparr>, r) \<and> live r \<and>
          pending r = concat (map answer_text as))"

text \<open>The client of an endpoint before it connects.\<close>

definition fresh :: "endpoint \<Rightarrow> RtspClient" where
  "fresh ep = set_endpoint ep NewRtspClient"

lemma fresh_simps [simp]:
  "uri (fresh ep) = ep_uri ep" "auth (fresh ep) = ''''" "session (fresh ep) = ''''" "cseq (fresh ep) = 1"
  "login (fresh ep) = ep_login ep" "password (fresh ep) = ep_password ep" "received (fresh ep) = []"
  by (simp_all add: fresh_def set_endpoint_def NewRtspClient_def)

lemma camera_connect:
  assumes "camera url_Parse dial u ep as"
  obtains rc where "Connect dial (fresh ep) = (rc, True)" "connected rc (concat (map answer_text as)) []"
    "rc = (fresh ep)\<lparr>socket := socket rc, reader := reader rc\<rparr>"
proof -
  from assms obtain r where r: "dial (ep_host ep @ '':'' @ ep_port ep) = Some (\<lparr>sent = [], writes = []\<rparr>, r)"
    "live r" "pending r = concat (map answer_text as)" by (auto simp: camera_def)
  show thesis
    by (rule that [of "(fresh ep)\<lparr>socket := Some \<lparr>sent = [], writes = []\<rparr>, reader := Some r\<rparr>"])
       (use r in \<open>simp_all add: Connect_def connected_def fresh_def set_endpoint_def NewRtspClient_def\<close>)
qed

text \<open>A request of a client without a session: its number and its authorization are all that varies.\<close>

definition plain_request :: "string \<Rightarrow> string \<Rightarrow> int \<Rightarrow> string \<Rightarrow> string" where
  "plain_request m u n au = request_text m u [] (NewRtspClient\<lparr>cseq := n, auth := au\<rparr>)"

lemma plain_request_text:
  "session rc = '''' \<Longrightarrow> request_text m u [] rc = plain_request m u (cseq rc) (auth rc)"
  unfolding plain_request_def by (rule request_text_frame) (simp_all add: NewRtspClient_def)

definition talking :: "RtspClient \<Rightarrow> endpoint \<Rightarrow> int \<Rightarrow> string \<Rightarrow> string \<Rightarrow> string list \<Rightarrow> bool" where
  "talking rc ep n au todo ms \<longleftrightarrow> connected rc todo ms \<and>
     rc = (fresh ep)\<lparr>socket := socket rc, reader := reader rc, auth := au, cseq := n\<rparr>"

lemma talking_fields:
  assumes "talking rc ep n au todo ms"
  shows "uri rc = ep_uri ep" "session rc = ''''" "auth rc = au" "cseq rc = n"
    "login rc = ep_login ep" "password rc = ep_password ep" "connected rc todo ms"
proof -
  have rc: "rc = (fresh ep)\<lparr>socket := socket rc, reader := reader rc, auth := au, cseq := n\<rparr>"
    using assms by (simp add: talking_def)
  show "uri rc = ep_uri ep" "session rc = ''''" "auth rc = au" "cseq rc = n"
    "login rc = ep_login ep" "password rc = ep_password ep"
    by (subst rc; simp)+
  show "connected rc todo ms" using assms by (simp add: talking_def)
qed

lemma talk:
  assumes t: "talking rc ep n au (answer_text a @ rest) ms" and a: "answer_ok a"
    and au: "authenticate m (answer_text a) ((fresh ep)\<lparr>auth := au\<rparr>) = Inr au'"
  obtains rc' where "SendRequest m (ep_uri ep) [] rc = (rc', Inr (answer_code a, answer_text a))"
    "talking rc' ep (n + 1) au' rest (ms @ [plain_request m (ep_uri ep) (n + 1) au])"
proof -
  note f = talking_fields [OF t]
  have au2: "authenticate m (answer_text a) rc = Inr au'"
    using au by (subst authenticate_frame [of _ "(fresh ep)\<lparr>auth := au\<rparr>"]) (simp_all add: f)
  obtain rc' where rc': "sendRequest m (ep_uri ep) [] rc = (rc', Inr (answer_code a, answer_text a))"
    "connected rc' rest (ms @ [request_text m (ep_uri ep) [] (rc\<lparr>cseq := cseq rc + 1\<rparr>)])"
    "rc' = rc\<lparr>socket := socket rc', reader := reader rc', auth := au', cseq := cseq rc + 1\<rparr>"
    using sendRequest_answer [OF f(7) a au2] by metis
  have "request_text m (ep_uri ep) [] (rc\<lparr>cseq := cseq rc + 1\<rparr>) = plain_request m (ep_uri ep) (n + 1) au"
    by (subst plain_request_text) (simp_all add: f)
  moreover have "rc' = (fresh ep)\<lparr>socket := socket rc', reader := reader rc', auth := au', cseq := n + 1\<rparr>"
  proof -
    from t obtain s r where rc: "rc = (fresh ep)\<lparr>socket := s, reader := r, auth := au, cseq := n\<rparr>"
      unfolding talking_def by metis
    show ?thesis by (rule trans [OF rc'(3)]) (simp add: rc)
  qed
  ultimately show thesis using that rc' by (simp add: talking_def SendRequest_def)
qed

lemma camera_describe:
  assumes "camera url_Parse dial u ep as"
  obtains rc where "talking rc ep 1 '''' (concat (map answer_text as)) []"
    "describe url_Parse dial u NewRtspClient =
       (case options_phase rc of (rc1, Inl e) \<Rightarrow> (rc1, Inl e) | (rc1, Inr _) \<Rightarrow> describe_phase rc1)"
proof -
  from camera_connect [OF assms] obtain rc where rc: "Connect dial (fresh ep) = (rc, True)"
    "connected rc (concat (map answer_text as)) []"
    "rc = (fresh ep)\<lparr>socket := socket rc, reader := reader rc\<rparr>" by metis
  have "rc = (fresh ep)\<lparr>socket := socket rc, reader := reader rc, auth := '''', cseq := 1\<rparr>"
    by (subst rc(3)) (simp add: fresh_def set_endpoint_def NewRtspClient_def)
  with rc(2) have "talking rc ep 1 '''' (concat (map answer_text as)) []"
    by (simp add: talking_def)
  moreover have "ParseUrl url_Parse u = Some ep" using assms by (simp add: camera_def)
  ultimately show thesis
    by (rule_tac that) (simp_all add: describe_def rc(1) fresh_def [symmetric])
qed

section \<open>Describing a camera, with and without credentials\<close>

lemma options_open:
  assumes "talking rc ep n au (answer_text a @ rest) ms" and "answer_ok a" and "answer_code a = 200"
    and "authenticate ''OPTIONS'' (answer_text a) ((fresh ep)\<lparr>auth := au\<rparr>) = Inr au'"
  obtains rc' where "options_phase rc = (rc', Inr ())"
    "talking rc' ep (n + 1) au' rest (ms @ [plain_request ''OPTIONS'' (ep_uri ep) (n + 1) au])"
proof -
  obtain rc1 where 1: "SendRequest ''OPTIONS'' (ep_uri ep) [] rc = (rc1, Inr (answer_code a, answer_text a))"
    "talking rc1 ep (n + 1) au' rest (ms @ [plain_request ''OPTIONS'' (ep_uri ep) (n + 1) au])"
    by (rule talk [OF assms(1,2,4)])
  show thesis
  proof (rule that [of rc1])
    show "options_phase rc = (rc1, Inr ())"
      by (simp add: options_phase_def talking_fields(1) [OF assms(1)] 1(1) status_of_def assms(3))
  qed (rule 1(2))
qed

lemma options_challenged:
  assumes "talking rc ep n au (answer_text a @ answer_text b @ rest) ms"
    and "answer_ok a" "answer_ok b" and "answer_code a \<noteq> 200"
    and "authenticate ''OPTIONS'' (answer_text a) ((fresh ep)\<lparr>auth := au\<rparr>) = Inr au'"
    and "authenticate ''OPTIONS'' (answer_text b) ((fresh ep)\<lparr>auth := au'\<rparr>) = Inr au''"
  obtains rc' where "options_phase rc = (rc', Inr ())"
    "talking rc' ep (n + 1 + 1) au'' rest
       (ms @ [plain_request ''OPTIONS'' (ep_uri ep) (n + 1) au] @
        [plain_request ''OPTIONS'' (ep_uri ep) (n + 1 + 1) au'])"
proof -
  obtain rc1 where 1: "SendRequest ''OPTIONS'' (ep_uri ep) [] rc = (rc1, Inr (answer_code a, answer_text a))"
    "talking rc1 ep (n + 1) au' (answer_text b @ rest) (ms @ [plain_request ''OPTIONS'' (ep_uri ep) (n + 1) au])"
    by (rule talk [OF assms(1,2,5)])
  obtain rc2 where 2: "SendRequest ''OPTIONS'' (ep_uri ep) [] rc1 = (rc2, Inr (answer_code b, answer_text b))"
    "talking rc2 ep (n + 1 + 1) au'' rest ((ms @ [plain_request ''OPTIONS'' (ep_uri ep) (n + 1) au]) @
        [plain_request ''OPTIONS'' (ep_uri ep) (n + 1 + 1) au'])"
    by (rule talk [OF 1(2) assms(3,6)])
  show thesis
  proof (rule that [of rc2])
    show "options_phase rc = (rc2, Inr ())"
      by (simp add: options_phase_def talking_fields(1) [OF assms(1)] talking_fields(1) [OF 1(2)]
            1(1) 2(1) status_of_def assms(4))
  qed (use 2(2) in simp)
qed

lemma Close_talking:
  assumes "talking rc ep n au todo ms"
  shows "\<exists>rc'. Close rc = (rc', Some \<lparr>sent = ms, writes = []\<rparr>, Inr ()) \<and> socket rc' = None \<and> reader rc' = None"
  using talking_fields [OF assms] by (auto simp: Close_def drain_def connected_def)

lemma describe_open:
  assumes "camera url_Parse dial u ep (a # b # as)"
    and "answer_code a = 200" and "answer_code b = 200" and "no_challenge a" and "no_challenge b"
  obtains rc where "describe url_Parse dial u NewRtspClient = (rc, Inr (answer_text b))"
    "talking rc ep 3 '''' (concat (map answer_text as))
       [plain_request ''OPTIONS'' (ep_uri ep) 2 '''', plain_request ''DESCRIBE'' (ep_uri ep) 3 '''']"
proof -
  let ?rest = "concat (map answer_text as)"
  have ok: "answer_ok a" "answer_ok b" using assms(1) by (simp_all add: camera_def)
  obtain rc where rc: "talking rc ep 1 '''' (answer_text a @ answer_text b @ ?rest) []"
    and d: "describe url_Parse dial u NewRtspClient =
       (case options_phase rc of (rc1, Inl e) \<Rightarrow> (rc1, Inl e) | (rc1, Inr _) \<Rightarrow> describe_phase rc1)"
    using camera_describe [OF assms(1)] by auto
  obtain rc1 where 1: "options_phase rc = (rc1, Inr ())"
    "talking rc1 ep (1 + 1) '''' (answer_text b @ ?rest) ([] @ [plain_request ''OPTIONS'' (ep_uri ep) (1 + 1) ''''])"
    by (rule options_open [OF rc ok(1) assms(2)]) (simp_all add: authenticate_none assms(4))
  obtain rc2 where 2: "SendRequest ''DESCRIBE'' (ep_uri ep) [] rc1 = (rc2, Inr (answer_code b, answer_text b))"
    "talking rc2 ep (1 + 1 + 1) '''' ?rest (([] @ [plain_request ''OPTIONS'' (ep_uri ep) (1 + 1) '''']) @
        [plain_request ''DESCRIBE'' (ep_uri ep) (1 + 1 + 1) ''''])"
    by (rule talk [OF 1(2) ok(2)]) (simp_all add: authenticate_none assms(5))
  have "describe url_Parse dial u NewRtspClient = (rc2, Inr (answer_text b))"
    by (simp add: d 1(1) describe_phase_def talking_fields(1) [OF 1(2)] 2(1) assms(3))
  with 2(2) show thesis by (intro that) simp_all
qed

text \<open>
  C31: probing a camera that asks for no credentials sends exactly OPTIONS and DESCRIBE, numbered 2
  and 3, over one connection, closes it, and returns the codecs of the DESCRIBE answer; nothing is
  set up or played.
\<close>

theorem ProbeSource_open_camera:
  assumes "camera url_Parse dial u ep [a, b]"
    and "answer_code a = 200" and "answer_code b = 200" and "no_challenge a" and "no_challenge b"
  shows "\<exists>rc. ProbeSource url_Parse dial u =
      (rc, Some \<lparr>sent = [plain_request ''OPTIONS'' (ep_uri ep) 2 '''', plain_request ''DESCRIBE'' (ep_uri ep) 3 ''''],
                 writes = []\<rparr>,
       Inr (ParseCodecs (answer_text b))) \<and>
     socket rc = None"
proof -
  obtain rc where "describe url_Parse dial u NewRtspClient = (rc, Inr (answer_text b))"
    "talking rc ep 3 '''' (concat (map answer_text []))
       [plain_request ''OPTIONS'' (ep_uri ep) 2 '''', plain_request ''DESCRIBE'' (ep_uri ep) 3 '''']"
    by (rule describe_open [OF assms])
  with Close_talking show ?thesis by (fastforce simp: ProbeSource_def)
qed

text \<open>
  C33: the Digest response is computed once, for the method of the request that was challenged, and
  reused: when the camera challenges OPTIONS, the repeated OPTIONS and the DESCRIBE carry the same
  header, whose response hashes the method OPTIONS. RFC 2617 hashes the method of each request, so a
  camera that checks it refuses the DESCRIBE.
\<close>

theorem ProbeSource_digest_reused:
  assumes "camera url_Parse dial u ep [a, b, c]"
    and "answer_code a \<noteq> 200" and "answer_code b = 200" and "answer_code c = 200"
    and "Contains (answer_text a) ''Digest''"
    and "ParseDirective (answer_text a) ''nonce'' = Inr nonce"
    and "ParseDirective (answer_text a) ''realm'' = Inr realm"
  shows "\<exists>rc. ProbeSource url_Parse dial u =
      (rc, Some \<lparr>sent = [plain_request ''OPTIONS'' (ep_uri ep) 2 '''',
                         plain_request ''OPTIONS'' (ep_uri ep) 3 (digest_header ''OPTIONS'' realm nonce (fresh ep)),
                         plain_request ''DESCRIBE'' (ep_uri ep) 4 (digest_header ''OPTIONS'' realm nonce (fresh ep))],
                 writes = []\<rparr>,
       Inr (ParseCodecs (answer_text c)))"
proof -
  define H where "H = digest_header ''OPTIONS'' realm nonce (fresh ep)"
  have ok: "answer_ok a" "answer_ok b" "answer_ok c" using assms(1) by (simp_all add: camera_def)
  obtain rc where rc: "talking rc ep 1 '''' (answer_text a @ answer_text b @ answer_text c @ []) []"
    and d: "describe url_Parse dial u NewRtspClient =
       (case options_phase rc of (rc1, Inl e) \<Rightarrow> (rc1, Inl e) | (rc1, Inr _) \<Rightarrow> describe_phase rc1)"
    using camera_describe [OF assms(1)] by auto
  have h: "(fresh ep)\<lparr>auth := ''''\<rparr> = fresh ep" by (simp add: fresh_def set_endpoint_def NewRtspClient_def)
  have A: "authenticate ''OPTIONS'' (answer_text a) ((fresh ep)\<lparr>auth := ''''\<rparr>) = Inr H"
    unfolding h H_def by (rule authenticate_digest) (simp_all add: assms(5-7))
  have B: "authenticate m t ((fresh ep)\<lparr>auth := H\<rparr>) = Inr H" for m t
    by (simp add: authenticate_kept H_def)
  obtain rc1 where 1: "options_phase rc = (rc1, Inr ())"
    "talking rc1 ep (1 + 1 + 1) H (answer_text c @ [])
      ([] @ [plain_request ''OPTIONS'' (ep_uri ep) (1 + 1) ''''] @ [plain_request ''OPTIONS'' (ep_uri ep) (1 + 1 + 1) H])"
    by (rule options_challenged [OF rc ok(1,2) assms(2) A B])
  obtain rc2 where 2: "SendRequest ''DESCRIBE'' (ep_uri ep) [] rc1 = (rc2, Inr (answer_code c, answer_text c))"
    "talking rc2 ep (1 + 1 + 1 + 1) H [] (([] @ [plain_request ''OPTIONS'' (ep_uri ep) (1 + 1) ''''] @
        [plain_request ''OPTIONS'' (ep_uri ep) (1 + 1 + 1) H]) @
        [plain_request ''DESCRIBE'' (ep_uri ep) (1 + 1 + 1 + 1) H])"
    by (rule talk [OF 1(2) ok(3) B])
  have "describe url_Parse dial u NewRtspClient = (rc2, Inr (answer_text c))"
    by (simp add: d 1(1) describe_phase_def talking_fields(1) [OF 1(2)] 2(1) assms(4))
  with Close_talking [OF 2(2)] show ?thesis by (auto simp: ProbeSource_def H_def)
qed

text \<open>
  A camera that answers OPTIONS without credentials and asks for them on DESCRIBE can never be
  probed: DESCRIBE is not repeated after its challenge, so the source counts as unreachable though
  the configured login and password are never sent.
\<close>

theorem ProbeSource_describe_challenged:
  assumes "camera url_Parse dial u ep [a, b]"
    and "answer_code a = 200" and "no_challenge a" and "answer_code b \<noteq> 200"
    and "authenticate ''DESCRIBE'' (answer_text b) (fresh ep) = Inr challenge"
  shows "\<exists>rc. ProbeSource url_Parse dial u =
      (rc, Some \<lparr>sent = [plain_request ''OPTIONS'' (ep_uri ep) 2 '''', plain_request ''DESCRIBE'' (ep_uri ep) 3 ''''],
                 writes = []\<rparr>,
       Inl (Failed ''DESCRIBE error; not status code 200 OK''))"
proof -
  have ok: "answer_ok a" "answer_ok b" using assms(1) by (simp_all add: camera_def)
  obtain rc where rc: "talking rc ep 1 '''' (answer_text a @ answer_text b @ []) []"
    and d: "describe url_Parse dial u NewRtspClient =
       (case options_phase rc of (rc1, Inl e) \<Rightarrow> (rc1, Inl e) | (rc1, Inr _) \<Rightarrow> describe_phase rc1)"
    using camera_describe [OF assms(1)] by auto
  have h: "(fresh ep)\<lparr>auth := ''''\<rparr> = fresh ep" by (simp add: fresh_def set_endpoint_def NewRtspClient_def)
  obtain rc1 where 1: "options_phase rc = (rc1, Inr ())"
    "talking rc1 ep (1 + 1) '''' (answer_text b @ []) ([] @ [plain_request ''OPTIONS'' (ep_uri ep) (1 + 1) ''''])"
    by (rule options_open [OF rc ok(1) assms(2)]) (simp_all add: authenticate_none assms(3))
  have B: "authenticate ''DESCRIBE'' (answer_text b) ((fresh ep)\<lparr>auth := ''''\<rparr>) = Inr challenge"
    unfolding h by (rule assms(5))
  obtain rc2 where 2: "SendRequest ''DESCRIBE'' (ep_uri ep) [] rc1 = (rc2, Inr (answer_code b, answer_text b))"
    "talking rc2 ep (1 + 1 + 1) challenge [] (([] @ [plain_request ''OPTIONS'' (ep_uri ep) (1 + 1) '''']) @
        [plain_request ''DESCRIBE'' (ep_uri ep) (1 + 1 + 1) ''''])"
    by (rule talk [OF 1(2) ok(2) B])
  have "describe url_Parse dial u NewRtspClient =
      (rc2, Inl (Failed ''DESCRIBE error; not status code 200 OK''))"
    by (simp add: d 1(1) describe_phase_def talking_fields(1) [OF 1(2)] 2(1) assms(4))
  with Close_talking [OF 2(2)] show ?thesis by (auto simp: ProbeSource_def)
qed

section \<open>Sample cameras\<close>

definition sample_endpoint :: endpoint where
  "sample_endpoint = \<lparr>ep_host = ''cam'', ep_port = ''554'', ep_uri = ''rtsp://cam:554/live'',
     ep_login = ''u'', ep_password = ''p''\<rparr>"

definition sample_parse :: "string \<Rightarrow> URL option" where
  "sample_parse s = Some \<lparr>Host = ''cam'', Path = ''/live'', RawQuery = '''', User = Some (''u'', Some ''p'')\<rparr>"

definition sample_dial :: "answer list \<Rightarrow> dialer" where
  "sample_dial as addr =
     (if addr = ''cam:554''
      then Some (\<lparr>sent = [], writes = []\<rparr>, \<lparr>buf = [], net = map (\<lambda>a. Chunk (answer_text a)) as\<rparr>)
      else None)"

definition answer_200 :: answer where
  "answer_200 = \<lparr>a_status = ''RTSP/1.0 200 OK'', a_headers = [''Content-Length: 22''],
     a_body = ''a=control:*'' @ CRLF @ ''m=audio'' @ CRLF\<rparr>"

definition answer_401 :: answer where
  "answer_401 = \<lparr>a_status = ''RTSP/1.0 401 Unauthorized'',
     a_headers = [''WWW-Authenticate: Digest realm='' @ QUOTE @ ''r'' @ QUOTE @ '', nonce='' @ QUOTE @ ''n'' @ QUOTE],
     a_body = []\<rparr>"

lemma sample_camera:
  assumes "list_all answer_ok as"
  shows "camera sample_parse (sample_dial as) ''rtsp://u:p@cam/live'' sample_endpoint as"
proof -
  have "ParseUrl sample_parse ''rtsp://u:p@cam/live'' = Some sample_endpoint"
    by code_simp
  moreover have "\<exists>r. sample_dial as (ep_host sample_endpoint @ '':'' @ ep_port sample_endpoint) =
      Some (\<lparr>sent = [], writes = []\<rparr>, r) \<and> live r \<and> pending r = concat (map answer_text as)"
    by (rule exI [of _ "\<lparr>buf = [], net = map (\<lambda>a. Chunk (answer_text a)) as\<rparr>"])
       (auto simp: sample_dial_def sample_endpoint_def live_def pending_def comp_def)
  ultimately show ?thesis using assms by (simp add: camera_def)
qed

lemma sample_answers [simp]:
  "answer_ok answer_200" "answer_ok answer_401" "answer_code answer_200 = 200" "answer_code answer_401 = 401"
  "no_challenge answer_200" "Contains (answer_text answer_401) ''Digest''"
  "ParseDirective (answer_text answer_401) ''nonce'' = Inr ''n''"
  "ParseDirective (answer_text answer_401) ''realm'' = Inr ''r''"
  by code_simp+

theorem ProbeSource_open_camera_witness:
  "\<exists>rc. ProbeSource sample_parse (sample_dial [answer_200, answer_200]) ''rtsp://u:p@cam/live'' =
      (rc, Some \<lparr>sent = [plain_request ''OPTIONS'' (ep_uri sample_endpoint) 2 '''',
                         plain_request ''DESCRIBE'' (ep_uri sample_endpoint) 3 ''''], writes = []\<rparr>,
       Inr (ParseCodecs (answer_text answer_200))) \<and> socket rc = None"
  by (rule ProbeSource_open_camera [OF sample_camera]) simp_all

theorem ProbeSource_digest_reused_witness:
  "\<exists>rc H. ProbeSource sample_parse (sample_dial [answer_401, answer_200, answer_200]) ''rtsp://u:p@cam/live'' =
      (rc, Some \<lparr>sent = [plain_request ''OPTIONS'' (ep_uri sample_endpoint) 2 '''',
                         plain_request ''OPTIONS'' (ep_uri sample_endpoint) 3 H,
                         plain_request ''DESCRIBE'' (ep_uri sample_endpoint) 4 H], writes = []\<rparr>,
       Inr (ParseCodecs (answer_text answer_200)))"
proof -
  have "list_all answer_ok [answer_401, answer_200, answer_200]" by simp
  from ProbeSource_digest_reused [OF sample_camera [OF this], of "''n''" "''r''"]
  show ?thesis by auto
qed

theorem ProbeSource_describe_challenged_witness:
  "\<exists>rc. ProbeSource sample_parse (sample_dial [answer_200, answer_401]) ''rtsp://u:p@cam/live'' =
      (rc, Some \<lparr>sent = [plain_request ''OPTIONS'' (ep_uri sample_endpoint) 2 '''',
                         plain_request ''DESCRIBE'' (ep_uri sample_endpoint) 3 ''''], writes = []\<rparr>,
       Inl (Failed ''DESCRIBE error; not status code 200 OK''))"
proof (rule ProbeSource_describe_challenged [OF sample_camera])
  show "authenticate ''DESCRIBE'' (answer_text answer_401) (fresh sample_endpoint) =
      Inr (digest_header ''DESCRIBE'' ''r'' ''n'' (fresh sample_endpoint))"
    by (rule authenticate_digest) simp_all
qed simp_all

section \<open>The request on the wire\<close>

definition request_lines :: "string \<Rightarrow> string \<Rightarrow> (string \<times> string) list \<Rightarrow> RtspClient \<Rightarrow> string list" where
  "request_lines m u c rc =
     [m @ '' '' @ u @ '' RTSP/1.0'', ''User-Agent: rtsp-client'', ''Accept: application/sdp'',
      ''CSeq: '' @ Itoa (cseq rc)] @
     (if auth rc \<noteq> '''' then [auth rc] else []) @ map (\<lambda>(k, v). k @ '': '' @ v) c @
     (if session rc \<noteq> '''' then [''Session: '' @ session rc] else [])"

lemma join_lines: "join_with sep (ls @ ['''', '''']) = concat (map (\<lambda>l. l @ sep) ls) @ sep"
proof (induction ls)
  case (Cons l ls)
  then show ?case by (cases ls) simp_all
qed simp

lemma request_text_lines: "request_text m u c rc = join_with CRLF (request_lines m u c rc @ ['''', ''''])"
  unfolding join_lines
  by (simp add: request_text_def request_lines_def header_field_def [abs_def] comp_def split_def)

lemma Itoa_no_CR: "CHR 0x0D \<notin> set (Itoa n)"
proof -
  have "CHR 0x0D \<notin> set (show_nat k)" for k
    using show_nat_word [of k] word_no_space by auto
  then show ?thesis by (simp add: Itoa_def)
qed

text \<open>
  A request is one well-formed message: split at its line ends it is the request line, the
  client's two fixed headers, the sequence number, then the authorization, the request's own headers
  and the session each exactly when there is one, and the empty line that ends it; sending it adds
  exactly this message to what the connection has carried and raises the number by one.
\<close>

theorem sendRequest_wire:
  assumes "connected rc todo ms" and "sendRequest m u c rc = (rc', res)"
    and "list_all (\<lambda>s. CHR 0x0D \<notin> set s) [m, u, auth rc, session rc]"
    and "list_all (\<lambda>(k, v). CHR 0x0D \<notin> set k \<and> CHR 0x0D \<notin> set v) c"
  shows "\<exists>s t. socket rc' = Some s \<and> sent s = ms @ [t] \<and> cseq rc' = cseq rc + 1 \<and>
     Split t CRLF = request_lines m u c (rc\<lparr>cseq := cseq rc + 1\<rparr>) @ ['''', '''']"
proof -
  define t where "t = request_text m u c (rc\<lparr>cseq := cseq rc + 1\<rparr>)"
  have "Split t CRLF = request_lines m u c (rc\<lparr>cseq := cseq rc + 1\<rparr>) @ ['''', '''']"
    unfolding t_def request_text_lines
  proof (rule Split_join)
    fix x
    assume "x \<in> set (request_lines m u c (rc\<lparr>cseq := cseq rc + 1\<rparr>) @ ['''', ''''])"
    then show "hd CRLF \<notin> set x"
      using assms(3,4) Itoa_no_CR by (auto simp: request_lines_def list_all_iff split: if_splits)
  qed simp_all
  moreover have "\<exists>s. socket rc' = Some s \<and> sent s = ms @ [t] \<and> cseq rc' = cseq rc + 1"
    using assms(1,2)
    by (auto simp: connected_def sendRequest_def Write_def readRTSPResponse_def Let_def t_def
        split: sum.splits prod.splits)
  ultimately show ?thesis by blast
qed

theorem sendRequest_wire_witness:
  "let rc = response_client ''''; rc' = fst (sendRequest ''PLAY'' ''rtsp://cam:554/'' [(''Range'', ''npt=0-'')] rc)
   in \<exists>s t. socket rc' = Some s \<and> sent s = [] @ [t] \<and> cseq rc' = cseq rc + 1 \<and>
     Split t CRLF = request_lines ''PLAY'' ''rtsp://cam:554/'' [(''Range'', ''npt=0-'')] (rc\<lparr>cseq := cseq rc + 1\<rparr>) @ ['''', '''']"
  unfolding Let_def
proof (rule sendRequest_wire)
  show "connected (response_client '''') '''' []"
    by (simp add: connected_def response_client_def NewRtspClient_def live_def pending_def)
  show "sendRequest ''PLAY'' ''rtsp://cam:554/'' [(''Range'', ''npt=0-'')] (response_client '''') =
      (fst (sendRequest ''PLAY'' ''rtsp://cam:554/'' [(''Range'', ''npt=0-'')] (response_client '''')),
       snd (sendRequest ''PLAY'' ''rtsp://cam:554/'' [(''Range'', ''npt=0-'')] (response_client '''')))"
    by (rule prod.collapse [symmetric])
qed (auto simp: response_client_def NewRtspClient_def)

section \<open>Closing\<close>

text \<open>
  \<open>Close\<close> sends TEARDOWN exactly when a session was set up (a single request, with the session),
  and, unless reading the answer panics, leaves the client without connection and with an empty
  queue; closing again sends nothing and changes nothing.
\<close>

theorem Close_teardown:
  assumes "socket rc = Some s" and "Close rc = (rc', Some s', Inr ())"
  shows "sent s' = sent s \<or>
           session rc \<noteq> '''' \<and>
           sent s' = sent s @ [request_text ''TEARDOWN'' (uri rc) [] (rc\<lparr>cseq := cseq rc + 1\<rparr>)]"
    and "session rc \<noteq> '''' \<Longrightarrow> writes s = [] \<Longrightarrow> sent s' \<noteq> sent s"
    and "socket rc' = None \<and> reader rc' = None \<and> received rc' = []"
    and "Close rc' = (rc', None, Inr ())"
proof -
  obtain rc1 res where sr: "sendRequest ''TEARDOWN'' (uri rc) [] rc = (rc1, res)" by fastforce
  obtain s1 where s1: "socket rc1 = Some s1"
    "sent s1 = sent s \<or> sent s1 = sent s @ [request_text ''TEARDOWN'' (uri rc) [] (rc\<lparr>cseq := cseq rc + 1\<rparr>)]"
    using sendRequest_socket [OF sr assms(1)] by blast
  have cl: "(session rc \<noteq> '''' \<longrightarrow> s' = s1) \<and> (session rc = '''' \<longrightarrow> s' = s) \<and>
      socket rc' = None \<and> reader rc' = None \<and> received rc' = []"
    using assms sr s1(1)
    by (auto simp: Close_def drain_def split: if_splits sum.splits go_exit.splits)
  then show "sent s' = sent s \<or> session rc \<noteq> '''' \<and>
      sent s' = sent s @ [request_text ''TEARDOWN'' (uri rc) [] (rc\<lparr>cseq := cseq rc + 1\<rparr>)]"
    using s1(2) by auto
  show "socket rc' = None \<and> reader rc' = None \<and> received rc' = []" using cl by blast
  then show "Close rc' = (rc', None, Inr ())" by (simp add: Close_def drain_def)
  assume "session rc \<noteq> ''''" and "writes s = []"
  moreover from this have "sent s1 = sent s @ [request_text ''TEARDOWN'' (uri rc) [] (rc\<lparr>cseq := cseq rc + 1\<rparr>)]"
    using sr s1(1) assms(1)
    by (auto simp: sendRequest_def Write_def readRTSPResponse_def Let_def
        split: sum.splits prod.splits option.splits)
  ultimately show "sent s' \<noteq> sent s" using cl by auto
qed

theorem Close_teardown_witness:
  "let rc = (response_client '''')\<lparr>session := ''42''\<rparr>; (rc', s', r) = Close rc
   in r = Inr () \<and> socket rc' = None \<and> Close rc' = (rc', None, Inr ()) \<and>
      map_option sent s' \<noteq> Some []"
proof -
  let ?rc = "(response_client '''')\<lparr>session := ''42''\<rparr>"
  obtain rc1 res where sr: "sendRequest ''TEARDOWN'' (uri ?rc) [] ?rc = (rc1, res)" by fastforce
  have sock: "socket ?rc = Some \<lparr>sent = [], writes = []\<rparr>"
    by (simp add: response_client_def NewRtspClient_def)
  obtain s1 where s1: "socket rc1 = Some s1" using sendRequest_socket [OF sr sock] by blast
  have "res = Inl (Failed ''EOF'')"
    using sr by (auto simp: response_client_def NewRtspClient_def sendRequest_def Write_def
        readRTSPResponse_def response_loop.simps Peek_def read_error_text_def Let_def)
  then have cl: "Close ?rc = (drain (rc1\<lparr>socket := None, reader := None\<rparr>), Some s1, Inr ())"
    using sr s1 by (simp add: Close_def response_client_def NewRtspClient_def)
  show ?thesis
    using Close_teardown(2-4) [OF sock cl] cl
    by (simp add: response_client_def NewRtspClient_def)
qed

section \<open>The read loop\<close>

lemma queue_packet_signals [simp]: "signals (queue_packet p rc) = signals rc"
  by (simp add: queue_packet_def)

lemma handleTCPPackets_signals:
  "handleTCPPackets rc = (rc', res) \<Longrightarrow> signals rc' = signals rc"
  by (auto simp: handleTCPPackets_def handle_frame_def Let_def
      split: option.splits sum.splits prod.splits read_error.splits if_splits)

lemma handleTCPPackets_queue:
  assumes "queue_inv rc" and "handleTCPPackets rc = (rc', res)"
  shows "queue_inv rc'"
proof (cases "socket rc = None \<or> reader rc = None")
  case True
  with assms show ?thesis by (auto simp: handleTCPPackets_def split: option.splits)
next
  case False
  then obtain r where "socket rc \<noteq> None" "reader rc = Some r" by blast
  from handleTCPPackets_step(1) [OF this assms] show ?thesis .
qed

text \<open>The invariant: what the consumer got, what is queued, and the backoffs since the last success.\<close>

definition loop_inv :: "nat \<Rightarrow> loop_run \<Rightarrow> bool" where
  "loop_inv a l \<longleftrightarrow> queue_inv (client l) \<and> list_all packet_ok (taken l) \<and> signals (client l) = [] \<and>
     a \<le> maxReconnectAttempts \<and> set (sleeps l) \<subseteq> {1, 2, 4, 8, 16} \<and>
     (\<exists>ps. sleeps l = ps @ map backoff [1..<Suc a])"

lemma backoff_values: "1 \<le> n \<Longrightarrow> n \<le> maxReconnectAttempts \<Longrightarrow> backoff n \<in> {1, 2, 4, 8, 16}"
proof -
  assume "1 \<le> n" "n \<le> maxReconnectAttempts"
  then have "n \<in> {1, 2, 3, 4, 5}" by (auto simp: maxReconnectAttempts_def)
  then show ?thesis by (auto simp: backoff_def)
qed

lemma loop_inv_consume: "loop_inv a l \<Longrightarrow> loop_inv a (consume n l)"
  by (auto simp: loop_inv_def consume_def queue_inv_def list_all_iff dest: in_set_takeD in_set_dropD)

lemma loop_inv_read:
  "loop_inv a l \<Longrightarrow> handleTCPPackets (client l) = (rc, res) \<Longrightarrow> loop_inv a (l\<lparr>client := rc\<rparr>)"
  using handleTCPPackets_queue handleTCPPackets_signals by (fastforce simp: loop_inv_def)

lemma loop_inv_tick:
  assumes l: "loop_inv a l"
  shows "on_tick t a l = Stop l1 e \<Longrightarrow> loop_inv a l1 \<and> (e = GaveUp \<longrightarrow> a = maxReconnectAttempts)"
    and "on_tick t a l = Again b l1 \<Longrightarrow> loop_inv b l1"
    and "on_tick t a l = Go b l1 \<Longrightarrow> loop_inv b l1"
proof -
  obtain rc res where sr: "sendRequest ''OPTIONS'' (uri (client l)) [] (client l) = (rc, res)" by fastforce
  have q: "queue_inv rc" "signals rc = []"
    using l sendRequest_fields [OF sr] by (simp_all add: loop_inv_def queue_inv_def)
  have m: "a \<le> maxReconnectAttempts" using l by (simp add: loop_inv_def)
  have c: "loop_inv a (l\<lparr>client := rc\<rparr>)" "loop_inv 0 (l\<lparr>client := rc\<rparr>)"
    using l q by (auto simp: loop_inv_def)
  have s: "loop_inv (Suc a) (l\<lparr>client := rc, sleeps := sleeps l @ [backoff (Suc a)]\<rparr>)"
    if "Suc a \<le> maxReconnectAttempts"
    using l q that backoff_values [of "Suc a"] by (auto simp: loop_inv_def)
  show "on_tick t a l = Stop l1 e \<Longrightarrow> loop_inv a l1 \<and> (e = GaveUp \<longrightarrow> a = maxReconnectAttempts)"
    using c(1) l m sr by (auto simp: on_tick_def keepalive_def SendRequest_def
        split: if_splits sum.splits go_exit.splits)
  show "on_tick t a l = Again b l1 \<Longrightarrow> loop_inv b l1"
    using s sr by (auto simp: on_tick_def keepalive_def SendRequest_def
        split: if_splits sum.splits go_exit.splits)
  show "on_tick t a l = Go b l1 \<Longrightarrow> loop_inv b l1"
    using c l sr by (auto simp: on_tick_def keepalive_def SendRequest_def
        split: if_splits sum.splits go_exit.splits)
qed

lemma rtp_loop_inv:
  "loop_inv a l \<Longrightarrow> rtp_loop a ts l = (l', e) \<Longrightarrow>
     \<exists>b. loop_inv b l' \<and> (e = Some GaveUp \<longrightarrow> b = maxReconnectAttempts)"
proof (induction a ts l rule: rtp_loop.induct)
  case (2 a tick n ts l)
  note inv = loop_inv_tick [OF loop_inv_consume [OF "2.prems"(1)], of tick]
  show ?case
  proof (cases "on_tick tick a (consume n l)")
    case (Stop l1 e1)
    then show ?thesis using "2.prems"(2) inv(1) [OF Stop] by auto
  next
    case (Again b l1)
    with "2.prems"(2) "2.IH"(1) [OF Again inv(2) [OF Again]] show ?thesis by simp
  next
    case (Go b l1)
    obtain rc res where h: "handleTCPPackets (client l1) = (rc, res)" by fastforce
    note c = loop_inv_read [OF inv(3) [OF Go] h]
    show ?thesis
      using "2.prems"(2) c "2.IH"(2) [OF Go h [symmetric] _ c]
      by (cases res) (auto simp: Go h split: go_exit.splits)
  qed
qed auto

text \<open>
  The work left: each turn that reads takes something from the connection, and at most five
  failed keepalives can come before the next one.
\<close>

lemma rtp_loop_ends:
  assumes "a \<le> maxReconnectAttempts" and "6 * csize (client l) + 5 < length ts + a"
  shows "snd (rtp_loop a ts l) \<noteq> None"
  using assms
proof (induction a ts l rule: rtp_loop.induct)
  case (2 a tick n ts l)
  note size = on_tick_csize [of tick a n l]
  show ?case
  proof (cases "on_tick tick a (consume n l)")
    case (Again b l1)
    then have "b = Suc a" "b \<le> maxReconnectAttempts"
      by (auto simp: on_tick_def keepalive_def split: if_splits prod.splits sum.splits go_exit.splits)
    with "2.IH"(1) [OF Again] "2.prems" size(2) [OF Again] Again show ?thesis by simp
  next
    case (Go b l1)
    then have b: "b \<le> maxReconnectAttempts" using "2.prems"(1)
      by (auto simp: on_tick_def keepalive_def split: if_splits prod.splits sum.splits go_exit.splits)
    obtain rc res where h: "handleTCPPackets (client l1) = (rc, res)" by fastforce
    show ?thesis
    proof (cases res)
      case (Inr u)
      with h have "csize rc < csize (client l1)" using handleTCPPackets_csize by simp
      then have "6 * csize rc + 6 \<le> 6 * csize (client l)" using size(1) [OF Go] by simp
      with "2.IH"(2) [OF Go h [symmetric] Inr b] "2.prems" show ?thesis
        by (simp add: Go h Inr maxReconnectAttempts_def)
    qed (auto simp: Go h split: go_exit.split)
  qed simp
qed (simp add: maxReconnectAttempts_def)

text \<open>While the camera streams whole frames and no keepalive is due, the loop goes on.\<close>

lemma rtp_loop_streams:
  assumes "open_client (client l) r" and "pending r = concat (map encode_frame fs) @ t"
    and "list_all frame_ok fs" and "length ts \<le> length fs" and "list_all (\<lambda>x. \<not> fst x) ts"
  shows "snd (rtp_loop a ts l) = None"
  using assms
proof (induction ts arbitrary: a l r fs)
  case (Cons x ts)
  obtain n where x: "x = (False, n)" using Cons.prems(5) by (cases x) simp
  obtain f fs1 where fs: "fs = f # fs1" using Cons.prems(4) by (cases fs) auto
  have "open_client (client (consume n l)) r"
    using Cons.prems(1) by (simp add: consume_def open_client_def)
  then obtain rc r1 where one: "handleTCPPackets (client (consume n l)) = (rc, Inr ())"
    "open_client rc r1" "pending r1 = concat (map encode_frame fs1) @ t"
    using handle_one_frame [of "client (consume n l)" r f "concat (map encode_frame fs1) @ t"]
      Cons.prems(2,3) fs by auto
  then show ?case
    using Cons.IH [of "(consume n l)\<lparr>client := rc\<rparr>" r1 fs1 a] Cons.prems(3-5)
    by (simp add: x fs on_tick_def)
qed simp

lemma RtspRtpLoop_safe_parts:
  assumes "received rc = []" and "signals rc = []" and "RtspRtpLoop ts rc = (l, e)"
  shows "signals (client l) = (if e = None then [] else [True])"
    and "length (received (client l)) \<le> 512"
    and "p \<in> set (taken l @ received (client l)) \<Longrightarrow>
       16 \<le> length p \<and> p ! 0 = DOLLAR \<and> byte_val (p ! 1) \<in> {0, 2} \<and> length p = 4 + be16 (p ! 2) (p ! 3)"
    and "set (sleeps l) \<subseteq> {1, 2, 4, 8, 16}"
    and "e = Some GaveUp \<Longrightarrow> \<exists>ps. sleeps l = ps @ [1, 2, 4, 8, 16]"
    and "6 * csize rc + 5 < length ts \<Longrightarrow> e \<noteq> None"
    and "open_client rc r \<Longrightarrow> pending r = concat (map encode_frame fs) @ t \<Longrightarrow> list_all frame_ok fs \<Longrightarrow>
       length ts \<le> length fs \<Longrightarrow> list_all (\<lambda>x. \<not> fst x) ts \<Longrightarrow> e = None"
proof -
  define l0 where "l0 = \<lparr>client = rc\<lparr>payload := replicate 8192 (CHR 0x00)\<rparr>, taken = [], sleeps = []\<rparr>"
  have "loop_inv 0 l0" using assms(1,2) by (simp add: l0_def loop_inv_def queue_inv_def)
  moreover obtain l1 where l1: "rtp_loop 0 ts l0 = (l1, e)"
    "l = (if e = None then l1 else l1\<lparr>client := (client l1)\<lparr>signals := signals (client l1) @ [True]\<rparr>\<rparr>)"
    using assms(3) by (auto simp: RtspRtpLoop_def l0_def split: prod.splits option.splits)
  ultimately obtain b where b: "loop_inv b l1" "e = Some GaveUp \<longrightarrow> b = maxReconnectAttempts"
    using rtp_loop_inv by blast
  then have ok: "\<forall>p\<in>set (taken l @ received (client l)). packet_ok p"
    using l1(2) by (auto simp: loop_inv_def queue_inv_def list_all_iff)
  show "signals (client l) = (if e = None then [] else [True])" "length (received (client l)) \<le> 512"
    "set (sleeps l) \<subseteq> {1, 2, 4, 8, 16}"
    using b(1) by (simp_all add: l1(2) loop_inv_def queue_inv_def received_cap_def)
  show "16 \<le> length p \<and> p ! 0 = DOLLAR \<and> byte_val (p ! 1) \<in> {0, 2} \<and> length p = 4 + be16 (p ! 2) (p ! 3)"
    if "p \<in> set (taken l @ received (client l))"
  proof -
    have "packet_ok p" using ok that by blast
    then show ?thesis by (simp add: packet_ok_def)
  qed
  show "e \<noteq> None" if "6 * csize rc + 5 < length ts"
    using rtp_loop_ends [of 0 l0 ts] that l1(1) by (simp add: l0_def csize_def)
  show "e = None" if "open_client rc r" "pending r = concat (map encode_frame fs) @ t"
    "list_all frame_ok fs" "length ts \<le> length fs" "list_all (\<lambda>x. \<not> fst x) ts"
    using rtp_loop_streams [of l0 r fs t ts 0] that l1(1) by (simp add: l0_def open_client_def)
  have five: "map backoff [1..<Suc maxReconnectAttempts] = [1, 2, 4, 8, 16]"
    by (simp add: maxReconnectAttempts_def backoff_def upt_rec)
  assume "e = Some GaveUp"
  then have "b = maxReconnectAttempts" using b(2) by blast
  with b(1) obtain ps where "sleeps l1 = ps @ map backoff [1..<Suc maxReconnectAttempts]"
    unfolding loop_inv_def by blast
  then show "\<exists>ps. sleeps l = ps @ [1, 2, 4, 8, 16]" unfolding five by (simp add: l1(2))
qed

text \<open>
  C30: the read loop, after any number of turns. It hands the consumer nothing but complete RTP
  frames, keeps its queue within 512 packets, and has signalled its end exactly when it has ended,
  once, on every way out, a panic included. Its backoffs are 1, 2, 4, 8 and 16 seconds, so that the
  bound of 30 seconds never applies, and it gives up only after five of them without a successful
  keepalive between. It runs while the camera streams whole frames and no keepalive is due, for
  however many; and once nothing more than \<open>n\<close> bytes and read timeouts come on the connection
  before it is closed, it ends within \<open>6 n + 6\<close> turns.
\<close>

theorem RtspRtpLoop_safe:
  assumes "received rc = []" and "signals rc = []" and "RtspRtpLoop ts rc = (l, e)"
  shows "(signals (client l) = (if e = None then [] else [True])) \<and>
    (length (received (client l)) \<le> 512) \<and>
    (p \<in> set (taken l @ received (client l)) \<longrightarrow>
       16 \<le> length p \<and> p ! 0 = DOLLAR \<and> byte_val (p ! 1) \<in> {0, 2} \<and> length p = 4 + be16 (p ! 2) (p ! 3)) \<and>
    (set (sleeps l) \<subseteq> {1, 2, 4, 8, 16}) \<and>
    (e = Some GaveUp \<longrightarrow> (\<exists>ps. sleeps l = ps @ [1, 2, 4, 8, 16])) \<and>
    (open_client rc r \<longrightarrow> pending r = concat (map encode_frame fs) @ t \<longrightarrow> list_all frame_ok fs \<longrightarrow>
       length ts \<le> length fs \<longrightarrow> list_all (\<lambda>x. \<not> fst x) ts \<longrightarrow> e = None) \<and>
    (6 * csize rc + 5 < length ts \<longrightarrow> e \<noteq> None)"
  using RtspRtpLoop_safe_parts [OF assms] by blast

text \<open>Three bytes and a timeout, then the camera closes: after thirty turns the loop has ended.\<close>

theorem RtspRtpLoop_safe_witness:
  "signals (client (fst (RtspRtpLoop (replicate 30 (False, 2)) noisy_client))) = [True]"
proof -
  obtain l e where r: "RtspRtpLoop (replicate 30 (False, 2)) noisy_client = (l, e)" by fastforce
  have "received noisy_client = []" "signals noisy_client = []" "csize noisy_client = 4"
    by (simp_all add: noisy_client_def NewRtspClient_def csize_def rsize_def)
  with RtspRtpLoop_safe [OF _ _ r] have "signals (client l) = [True]" by simp
  then show ?thesis by (simp add: r)
qed

section \<open>Setting up and playing\<close>

definition session_request :: "string \<Rightarrow> string \<Rightarrow> (string \<times> string) list \<Rightarrow> int \<Rightarrow> string \<Rightarrow> string" where
  "session_request m u c n se = request_text m u c (NewRtspClient\<lparr>cseq := n, session := se\<rparr>)"

definition stage :: "RtspClient \<Rightarrow> string \<Rightarrow> int \<Rightarrow> string \<Rightarrow> string list \<Rightarrow> string \<Rightarrow> string list \<Rightarrow> bool" where
  "stage rc u n se tr todo ms \<longleftrightarrow> connected rc todo ms \<and> uri rc = u \<and> auth rc = '''' \<and>
     session rc = se \<and> cseq rc = n \<and> track rc = tr"

lemma stage_send:
  assumes "stage rc u0 n se tr (answer_text a @ rest) ms" and "answer_ok a" and "no_challenge a"
    and "n' = n + 1"
  obtains rc' where "SendRequest m u c rc = (rc', Inr (answer_code a, answer_text a))"
    "stage rc' u0 n' se tr rest (ms @ [session_request m u c n' se])"
proof -
  have f: "connected rc (answer_text a @ rest) ms" "uri rc = u0" "auth rc = ''''" "session rc = se"
    "cseq rc = n" "track rc = tr" using assms(1) by (simp_all add: stage_def)
  have au: "authenticate m (answer_text a) rc = Inr ''''"
    using authenticate_none [OF assms(3)] f(3) by simp
  obtain rc' where rc': "sendRequest m u c rc = (rc', Inr (answer_code a, answer_text a))"
    "connected rc' rest (ms @ [request_text m u c (rc\<lparr>cseq := cseq rc + 1\<rparr>)])"
    "auth rc' = ''''" "cseq rc' = cseq rc + 1"
    using sendRequest_answer [OF f(1) assms(2) au] by metis
  have "request_text m u c (rc\<lparr>cseq := cseq rc + 1\<rparr>) = session_request m u c n' se"
    unfolding session_request_def assms(4) by (rule request_text_frame) (simp_all add: f NewRtspClient_def)
  then show thesis
    using that rc' sendRequest_fields [OF rc'(1)] f assms(4) by (simp add: SendRequest_def stage_def)
qed

lemma stage_setup:
  assumes "stage rc u n se tr (answer_text a @ rest) ms" and "answer_ok a" and "no_challenge a"
    and "answer_code a = 200" and "ParseSession (answer_text a) = Inr se'"
    and "n' = n + 1"
  obtains rc' where "setup_track i tp rc = (rc', Inr ())"
    "stage rc' u n' se' tr rest
       (ms @ [session_request ''SETUP'' (u @ ''/'' @ tr ! i) [(''Transport'', tp)] n' se])"
proof -
  obtain rc1 where rc1: "SendRequest ''SETUP'' (u @ ''/'' @ tr ! i) [(''Transport'', tp)] rc =
      (rc1, Inr (answer_code a, answer_text a))"
    "stage rc1 u n' se tr rest
       (ms @ [session_request ''SETUP'' (u @ ''/'' @ tr ! i) [(''Transport'', tp)] n' se])"
    by (rule stage_send [OF assms(1-3,6)])
  have "uri rc = u" "track rc = tr" using assms(1) by (simp_all add: stage_def)
  then have "setup_track i tp rc = (rc1\<lparr>session := se'\<rparr>, Inr ())"
    using rc1(1) assms(4,5) by (simp add: setup_track_def)
  moreover have "stage (rc1\<lparr>session := se'\<rparr>) u n' se' tr rest
       (ms @ [session_request ''SETUP'' (u @ ''/'' @ tr ! i) [(''Transport'', tp)] n' se])"
    using rc1(2) by (simp add: stage_def connected_def)
  ultimately show thesis by (rule that)
qed

lemma talking_stage:
  assumes "talking rc ep n '''' todo ms" and "fst (ParseMedia t (videow rc, videoh rc)) = tr"
  shows "stage (set_media t rc) (ep_uri ep) n '''' tr todo ms"
proof -
  obtain tracks w h where p: "ParseMedia t (videow rc, videoh rc) = (tracks, (w, h))"
    by (metis prod.exhaust)
  show ?thesis
    using assms(2) talking_fields [OF assms(1)]
    by (simp add: set_media_def p stage_def connected_def)
qed

definition setup_transport :: "nat \<Rightarrow> string" where
  "setup_transport i = [''RTP/AVP/TCP;unicast;interleaved=0-1'', ''RTP/AVP/TCP;unicast;interleaved=2-3''] ! i"

text \<open>The SETUP of the track \<open>i\<close>, with the session of the answer before it.\<close>

definition setup_request :: "string \<Rightarrow> string list \<Rightarrow> string list \<Rightarrow> nat \<Rightarrow> string" where
  "setup_request u ts ss i =
     session_request ''SETUP'' (u @ ''/'' @ ts ! i) [(''Transport'', setup_transport i)] (4 + int i) (('''' # ss) ! i)"

lemma stage_play:
  assumes "stage rc u n se tr (answer_text e) ms" and "answer_ok e" and "no_challenge e"
    and "answer_code e = 200" and "n' = n + 1"
  obtains rc' where "play rc = (rc', Inr ())" "looping rc'" "session rc' = se"
    "socket rc' = Some \<lparr>sent = ms @ [session_request ''PLAY'' u [(''Range'', ''npt=0-'')] n' se], writes = []\<rparr>"
proof -
  have s: "stage rc u n se tr (answer_text e @ []) ms" using assms(1) by simp
  obtain rc5 where 5: "SendRequest ''PLAY'' u [(''Range'', ''npt=0-'')] rc = (rc5, Inr (answer_code e, answer_text e))"
    "stage rc5 u n' se tr [] (ms @ [session_request ''PLAY'' u [(''Range'', ''npt=0-'')] n' se])"
    by (rule stage_send [OF s assms(2,3,5)])
  moreover have "uri rc = u" using assms(1) by (simp add: stage_def)
  ultimately show thesis
    by (intro that [of "rc5\<lparr>looping := True\<rparr>"]) (simp_all add: play_def assms(4) stage_def connected_def)
qed

text \<open>
  C32: against a camera without credentials that accepts every request and announces at least one
  track, \<open>Client\<close> plays: it sends OPTIONS, DESCRIBE, the SETUP of the first announced track on
  channels 0-1, that of the second, if there is one, on 2-3, each with the session of the answer
  before it, and PLAY with the last session, all numbered from 2; it stores that session, starts
  the read loop and succeeds. Further tracks are ignored. The channels follow the order of the
  tracks in the SDP alone: whatever the first track carries gets channel 0.
\<close>

theorem Client_plays:
  assumes "camera url_Parse dial u ep ([a, b] @ cs @ [e])"
    and "list_all (\<lambda>x. answer_code x = 200 \<and> no_challenge x) ([a, b] @ cs @ [e])"
    and "\<And>wh. fst (ParseMedia (answer_text b) wh) = ts" and "ts \<noteq> []" and "length cs = min 2 (length ts)"
    and "map (\<lambda>c. ParseSession (answer_text c)) cs = map Inr ss"
  shows "\<exists>rc. Client url_Parse dial u NewRtspClient = (rc, Inr ()) \<and> looping rc \<and> session rc = last ss \<and>
      socket rc = Some \<lparr>sent =
        [plain_request ''OPTIONS'' (ep_uri ep) 2 '''', plain_request ''DESCRIBE'' (ep_uri ep) 3 ''''] @
        map (setup_request (ep_uri ep) ts ss) [0..<length cs] @
        [session_request ''PLAY'' (ep_uri ep) [(''Range'', ''npt=0-'')] (4 + int (length cs)) (last ss)],
        writes = []\<rparr>"
proof -
  have ok: "answer_ok a" "answer_ok b" "list_all answer_ok cs" "answer_ok e"
    using assms(1) by (simp_all add: camera_def)
  have nc: "no_challenge a" "no_challenge b" "no_challenge e" and st: "answer_code a = 200"
      "answer_code b = 200" "answer_code e = 200"
    and cs: "list_all (\<lambda>x. answer_code x = 200 \<and> no_challenge x) cs" using assms(2) by simp_all
  let ?P = "[plain_request ''OPTIONS'' (ep_uri ep) 2 '''', plain_request ''DESCRIBE'' (ep_uri ep) 3 '''']"
  obtain c cs' where c: "cs = c # cs'" using assms(4,5) by (cases cs; cases ts) auto
  then obtain s1 ss' where s1: "ss = s1 # ss'" "ParseSession (answer_text c) = Inr s1"
    "map (\<lambda>c. ParseSession (answer_text c)) cs' = map Inr ss'" using assms(6) by (cases ss) auto
  obtain rc2 where dd: "describe url_Parse dial u NewRtspClient = (rc2, Inr (answer_text b))"
    "talking rc2 ep 3 '''' (concat (map answer_text (cs @ [e]))) ?P"
    using describe_open [of url_Parse dial u ep a b "cs @ [e]"] assms(1) st(1,2) nc(1,2) by auto
  then have s2: "stage (set_media (answer_text b) rc2) (ep_uri ep) 3 '''' ts
      (answer_text c @ concat (map answer_text (cs' @ [e]))) ?P"
    using talking_stage [OF dd(2) assms(3)] by (simp add: c)
  obtain rc3 where 3: "setup_track 0 (setup_transport 0) (set_media (answer_text b) rc2) = (rc3, Inr ())"
    "stage rc3 (ep_uri ep) 4 s1 ts (concat (map answer_text (cs' @ [e]))) (?P @ [setup_request (ep_uri ep) ts ss 0])"
    using stage_setup [OF s2, where i = 0 and n' = 4 and se' = s1 and tp = "setup_transport 0"] ok(3) cs s1(2)
    by (auto simp: c setup_request_def)
  have tr: "track (set_media (answer_text b) rc2) = ts" "track rc3 = ts" using s2 3(2) by (simp_all add: stage_def)
  note tp = setup_transport_def
  show ?thesis
  proof (cases cs')
    case Nil
    then have l: "length ts = 1" "ss' = []" using assms(4,5) s1(3) c by (auto simp: min_def split: if_splits)
    have "stage rc3 (ep_uri ep) 4 s1 ts (answer_text e) (?P @ [setup_request (ep_uri ep) ts ss 0])"
      using 3(2) Nil by simp
    from stage_play [OF this ok(4) nc(3) st(3), of 5] obtain rc' where "play rc3 = (rc', Inr ())"
      "looping rc'" "session rc' = s1" "socket rc' = Some \<lparr>sent = (?P @ [setup_request (ep_uri ep) ts ss 0]) @
        [session_request ''PLAY'' (ep_uri ep) [(''Range'', ''npt=0-'')] 5 s1], writes = []\<rparr>" by auto
    then show ?thesis using dd(1) tr 3(1) l assms(4)
      by (simp add: Client_def tp c Nil s1(1))
  next
    case (Cons d ds)
    then have l: "1 < length ts" "ds = []" using assms(5) c by (auto simp: min_def split: if_splits)
    then obtain s3 where s3: "ss' = [s3]" "ParseSession (answer_text d) = Inr s3"
      using s1(3) Cons by (cases ss') auto
    have "stage rc3 (ep_uri ep) 4 s1 ts (answer_text d @ answer_text e) (?P @ [setup_request (ep_uri ep) ts ss 0])"
      using 3(2) Cons l(2) by simp
    from stage_setup [OF this, where i = 1 and n' = 5 and se' = s3 and tp = "setup_transport 1"]
    obtain rc4 where 4: "setup_track 1 (setup_transport 1) rc3 = (rc4, Inr ())"
      "stage rc4 (ep_uri ep) 5 s3 ts (answer_text e)
         ((?P @ [setup_request (ep_uri ep) ts ss 0]) @ [setup_request (ep_uri ep) ts ss 1])"
      using ok(3) cs s3(2) by (auto simp: c Cons setup_request_def s1(1))
    from stage_play [OF 4(2) ok(4) nc(3) st(3), of 6] obtain rc' where "play rc4 = (rc', Inr ())"
      "looping rc'" "session rc' = s3" "socket rc' = Some \<lparr>sent =
        ((?P @ [setup_request (ep_uri ep) ts ss 0]) @ [setup_request (ep_uri ep) ts ss 1]) @
        [session_request ''PLAY'' (ep_uri ep) [(''Range'', ''npt=0-'')] 6 s3], writes = []\<rparr>" by auto
    then show ?thesis using dd(1) tr 3(1) 4(1) l assms(4)
      by (simp add: Client_def tp c Cons s1(1) s3(1))
  qed
qed

text \<open>A camera that announces its audio track first.\<close>

definition answer_tracks :: answer where
  "answer_tracks = \<lparr>a_status = ''RTSP/1.0 200 OK'', a_headers = [''Content-Length: 44''],
     a_body = ''m=audio'' @ CRLF @ ''a=control:a'' @ CRLF @ ''m=video'' @ CRLF @ ''a=control:v'' @ CRLF\<rparr>"

definition answer_session :: answer where
  "answer_session = \<lparr>a_status = ''RTSP/1.0 200 OK'', a_headers = [''Session: 42;timeout=60''], a_body = []\<rparr>"

lemma sample_tracks: "fst (ParseMedia (answer_text answer_tracks) wh) = [''a'', ''v'']"
  unfolding ParseMedia_def fst_conv by code_simp

lemma sample_setup [simp]:
  "answer_ok answer_tracks" "answer_code answer_tracks = 200" "no_challenge answer_tracks"
  "answer_ok answer_session" "answer_code answer_session = 200" "no_challenge answer_session"
  "ParseSession (answer_text answer_session) = Inr ''42''"
  by code_simp+

theorem Client_plays_witness:
  "\<exists>rc. Client sample_parse (sample_dial [answer_200, answer_tracks, answer_session, answer_session, answer_200])
        ''rtsp://u:p@cam/live'' NewRtspClient = (rc, Inr ()) \<and> looping rc \<and> session rc = ''42''"
proof -
  have ok: "list_all answer_ok ([answer_200, answer_tracks] @ [answer_session, answer_session] @ [answer_200])"
    by simp
  have "list_all (\<lambda>x. answer_code x = 200 \<and> no_challenge x)
      ([answer_200, answer_tracks] @ [answer_session, answer_session] @ [answer_200])" by simp
  from Client_plays [OF sample_camera [OF ok] this sample_tracks, of "[''42'', ''42'']"]
  show ?thesis by auto
qed
end
