(* ===== verification/Mqtt.thy ===== *)
theory Mqtt imports Config Protocol begin

text \<open>
  \<open>mqtt.go\<close>: the client of the message broker. The library (paho) is not part of the repository; what
  the agent asks it to do is a list of actions, and what it hands back (a message of a subscribed
  topic, the outcome of a subscription) is an argument. A message payload is its JSON value, None
  when it is not valid JSON. \<open>stateFn\<close> is the state callback the agent installs.
\<close>

section \<open>What the broker connection is asked to do\<close>

datatype action =
    Subscribe string int
  | Unsubscribe string
  | Publish string int bool json \<comment> \<open>topic, QoS, retained, payload\<close>
  | Disconnect int

record MqttClient =
  mq_id :: string
  mq_cfg :: MQTT
  aclCheck :: bool \<comment> \<open>the \<open>sync.Once\<close> has run\<close>
  topicIn :: string
  topicState :: string

section \<open>Configuration of the connection\<close>

definition usesTLS :: "string \<Rightarrow> bool" where
  "usesTLS url =
     (let u = ToLower url
      in HasPrefix u ''ssl://'' \<or> HasPrefix u ''tls://'' \<or> HasPrefix u ''tcps://'' \<or>
         HasPrefix u ''wss://'' \<or> HasPrefix u ''mqtts://'')"

text \<open>
  \<open>tls.Config\<close>, as far as it is set: \<open>RootCAs = None\<close> is the system store, \<open>Some pem\<close> the pool that
  holds the certificates of \<open>pem\<close> only. \<open>validPEM\<close> is the result of \<open>AppendCertsFromPEM\<close>.
\<close>

datatype tls_version = TLS10 | TLS11 | TLS12 | TLS13

record tls_config =
  MinVersion :: tls_version
  RootCAs :: "string option"
  InsecureSkipVerify :: bool

definition buildTLSConfig ::
  "(string \<Rightarrow> string res) \<Rightarrow> (string \<Rightarrow> bool) \<Rightarrow> MQTT \<Rightarrow> tls_config res" where
  "buildTLSConfig readFile validPEM cfg =
     (let tlsConfig = \<lparr>MinVersion = TLS12, RootCAs = None, InsecureSkipVerify = False\<rparr>
      in if CA cfg = '''' then Inr tlsConfig
         else case readFile (CA cfg) of
                Inl (Failed e) \<Rightarrow> Inl (Failed (''cannot read mqtt.ca: '' @ e))
              | Inl p \<Rightarrow> Inl p
              | Inr pem \<Rightarrow>
                  (if \<not> validPEM pem
                   then Inl (Failed (''mqtt.ca: no valid PEM certificate in '' @ CA cfg))
                   else Inr (tlsConfig\<lparr>RootCAs := Some pem\<rparr>)))"

text \<open>The options of the connection; durations are in seconds.\<close>

record ClientOptions =
  Broker :: string
  opt_Version :: int
  ClientID :: string
  opt_Username :: string
  opt_Password :: string
  CleanSession :: bool
  KeepAlive :: int
  AutoReconnect :: bool
  ConnectRetry :: bool
  ConnectRetryInterval :: int
  MaxReconnectInterval :: int
  WillTopic :: string
  WillPayload :: json
  WillQos :: int
  WillRetained :: bool
  TLSConfig :: tls_config

definition NewMqttClient ::
  "(string \<Rightarrow> string res) \<Rightarrow> (string \<Rightarrow> bool) \<Rightarrow> MQTT \<Rightarrow> (bool \<Rightarrow> State) \<Rightarrow>
     (MqttClient \<times> ClientOptions) res" where
  "NewMqttClient readFile validPEM cfg stateFn =
     (let m = \<lparr>mq_id = TrimSpace (Username cfg), mq_cfg = cfg, aclCheck = False,
               topicIn = ''ocam/dev/'' @ Username cfg @ ''/in/'',
               topicState = ''ocam/dev/'' @ Username cfg @ ''/state''\<rparr>
      in case buildTLSConfig readFile validPEM cfg of
           Inl e \<Rightarrow> Inl e
         | Inr tlsConfig \<Rightarrow>
             Inr (m, \<lparr>Broker = mqtt_URL cfg, opt_Version = 4, ClientID = mq_id m,
                      opt_Username = Username cfg, opt_Password = Password cfg,
                      CleanSession = True, KeepAlive = 30, AutoReconnect = True,
                      ConnectRetry = True, ConnectRetryInterval = 5, MaxReconnectInterval = 30,
                      WillTopic = topicState m, WillPayload = enc_State (stateFn False),
                      WillQos = 1, WillRetained = True, TLSConfig = tlsConfig\<rparr>))"

section \<open>Publishing\<close>

text \<open>\<open>publish\<close> does not wait; a failure is only logged.\<close>

definition publish :: "string \<Rightarrow> bool \<Rightarrow> json \<Rightarrow> action" where
  "publish topic retained payload = Publish topic 1 retained payload"

definition PublishState :: "MqttClient \<Rightarrow> (bool \<Rightarrow> State) \<Rightarrow> bool \<Rightarrow> action" where
  "PublishState m stateFn on = publish (topicState m) True (enc_State (stateFn on))"

definition viewer_topic :: "MqttClient \<Rightarrow> string \<Rightarrow> string" where
  "viewer_topic m to = ''ocam/cli/'' @ to @ ''/in/'' @ mq_id m"

text \<open>\<open>data = None\<close> is the nil value; the data types of the protocol always encode.\<close>

definition Send :: "MqttClient \<Rightarrow> time \<Rightarrow> string \<Rightarrow> string \<Rightarrow> string \<Rightarrow> json option \<Rightarrow> action" where
  "Send m now to typ sid data =
     publish (viewer_topic m to) False
       (enc_Envelope \<lparr>V = ProtocolVersion, TS = unix_sec now, SID = sid, Type = typ, Data = data\<rparr>)"

section \<open>Connection events\<close>

text \<open>
  \<open>onConnect\<close>: the subscription, the state, and on the first connection only the self-test of the
  access rules (second component: whether it is started).
\<close>

definition onConnect :: "(bool \<Rightarrow> State) \<Rightarrow> MqttClient \<Rightarrow> MqttClient \<times> action list \<times> bool" where
  "onConnect stateFn m =
     (m\<lparr>aclCheck := True\<rparr>,
      [Subscribe (topicIn m @ ''#'') 1, PublishState m stateFn True], \<not> aclCheck m)"

text \<open>What the token of the probing subscription tells: nothing in time, an error, or a return code.\<close>

datatype sub_result = NoAnswer | SubError | SubAnswer "int option"

definition acl_probe :: string where "acl_probe = ''ocam/dev/+/state''"

definition selfTestACL :: "sub_result \<Rightarrow> action list" where
  "selfTestACL r =
     Subscribe acl_probe 0 #
     (case r of
        NoAnswer \<Rightarrow> []
      | SubError \<Rightarrow> []
      | SubAnswer code \<Rightarrow> (if code = Some 0x80 then [] else [Unsubscribe acl_probe]))"

text \<open>\<open>Close\<close>: the offline state only while the connection is open.\<close>

definition mqtt_Close :: "MqttClient \<Rightarrow> (bool \<Rightarrow> State) \<Rightarrow> bool \<Rightarrow> action list" where
  "mqtt_Close m stateFn isOpen =
     (if isOpen then [Publish (topicState m) 1 True (enc_State (stateFn False))] else []) @
     [Disconnect 250]"

section \<open>Incoming messages\<close>

text \<open>\<open>handleMessage\<close>: the call of \<open>onEnv\<close> it makes, if any.\<close>

definition handleMessage ::
  "MqttClient \<Rightarrow> time \<Rightarrow> string \<Rightarrow> json option \<Rightarrow> (string \<times> Envelope \<times> bool) option" where
  "handleMessage m now topic payload =
     (if \<not> HasPrefix topic (topicIn m) then None
      else let from = drop (length (topicIn m)) topic
           in if \<not> idPattern from then None
              else case unmarshal dec_Envelope zero_Envelope payload of
                     None \<Rightarrow> None
                   | Some env \<Rightarrow>
                       (if V env > ProtocolVersion then None
                        else let stale = \<not> tsAcceptable (TS env) now
                             in Some (from, env, stale)))"

section \<open>Topics\<close>

lemma id_levels:
  assumes "idPattern s"
  shows "CHR ''/'' \<notin> set s" "CHR ''+'' \<notin> set s" "CHR ''#'' \<notin> set s" "TrimSpace s = s"
  using assms id_char_not_special idPattern_trimmed by (auto simp: idPattern_def list_all_iff)

lemma Split_levels:
  assumes "list_all (\<lambda>l. CHR ''/'' \<notin> set l) ls" and "ls \<noteq> []"
  shows "Split (join_with ''/'' ls) ''/'' = ls"
  by (rule Split_join) (use assms in \<open>auto simp: list_all_iff\<close>)

lemma viewer_topic_join:
  "viewer_topic m to = join_with ''/'' [''ocam'', ''cli'', to, ''in'', mq_id m]"
  by (simp add: viewer_topic_def)

lemma NewMqttClient_client:
  "NewMqttClient rd vp cfg sf = Inr (m, opts) \<Longrightarrow>
     mq_id m = TrimSpace (Username cfg) \<and> topicIn m = ''ocam/dev/'' @ Username cfg @ ''/in/'' \<and>
     topicState m = ''ocam/dev/'' @ Username cfg @ ''/state'' \<and> \<not> aclCheck m"
  by (auto simp: NewMqttClient_def Let_def split: sum.splits)

text \<open>
  A message reaches the agent exactly when its topic is the agent's own mailbox followed by one
  level that is a valid identifier (which is the sender), its payload is an envelope and the
  version is at most the agent's; every such message is passed on, of whatever type, and flagged
  stale exactly when its time stamp is not acceptable.
\<close>

theorem handleMessage_iff:
  "handleMessage m now topic payload = Some (from, env, stale) \<longleftrightarrow>
     topic = topicIn m @ from \<and> idPattern from \<and>
     unmarshal dec_Envelope zero_Envelope payload = Some env \<and> V env \<le> ProtocolVersion \<and>
     (stale \<longleftrightarrow> \<not> tsAcceptable (TS env) now)"
  by (auto simp: handleMessage_def HasPrefix_iff Let_def split: option.splits)

lemma reply_topic_safe_parts:
  assumes "NewMqttClient rd vp cfg sf = Inr (m, opts)" and "idPattern (Username cfg)"
    and "handleMessage m now topic payload = Some (from, env, stale)"
  shows "Split (viewer_topic m from) ''/'' = [''ocam'', ''cli'', from, ''in'', Username cfg]"
    and "CHR ''+'' \<notin> set (viewer_topic m from)" and "CHR ''#'' \<notin> set (viewer_topic m from)"
proof -
  have f: "idPattern from" using assms(3) by (simp add: handleMessage_iff)
  have id: "mq_id m = Username cfg"
    using NewMqttClient_client [OF assms(1)] id_levels [OF assms(2)] by simp
  show "Split (viewer_topic m from) ''/'' = [''ocam'', ''cli'', from, ''in'', Username cfg]"
    unfolding viewer_topic_join id by (rule Split_levels) (simp_all add: id_levels f assms(2))
  show "CHR ''+'' \<notin> set (viewer_topic m from)" "CHR ''#'' \<notin> set (viewer_topic m from)"
    by (simp_all add: viewer_topic_def id id_levels f assms(2))
qed

text \<open>
  No sender can make the agent publish outside its own mailbox: for a camera with a valid
  identifier, the reply to any sender the agent listens to goes to a topic of exactly five levels,
  the sender's mailbox and the agent's identifier, none of which is a wildcard.
\<close>

theorem reply_topic_safe:
  assumes "NewMqttClient rd vp cfg sf = Inr (m, opts)" and "idPattern (Username cfg)"
    and "handleMessage m now topic payload = Some (from, env, stale)"
  shows "(Split (viewer_topic m from) ''/'' = [''ocam'', ''cli'', from, ''in'', Username cfg]) \<and>
    (CHR ''+'' \<notin> set (viewer_topic m from)) \<and>
    (CHR ''#'' \<notin> set (viewer_topic m from))"
  by (intro conjI impI) (rule reply_topic_safe_parts [OF assms]; assumption?)+

text \<open>
  C39: Mailboxes of different cameras are disjoint: a topic that one camera's agent accepts is
  rejected by the agent of every other camera, however similar their identifiers.
\<close>

theorem mailboxes_disjoint:
  assumes "NewMqttClient rd vp cfg sf = Inr (m, opts)" and "NewMqttClient rd' vp' cfg' sf' = Inr (m', opts')"
    and "idPattern (Username cfg)" and "idPattern (Username cfg')" and "Username cfg \<noteq> Username cfg'"
    and "handleMessage m now topic payload \<noteq> None"
  shows "handleMessage m' now' topic payload' = None"
proof (rule ccontr)
  assume "handleMessage m' now' topic payload' \<noteq> None"
  then obtain f env st f' env' st' where h: "handleMessage m now topic payload = Some (f, env, st)"
    "handleMessage m' now' topic payload' = Some (f', env', st')"
    using assms(6) by (metis not_None_eq prod_cases3)
  have t: "topicIn m @ f = topicIn m' @ f'" using h by (simp add: handleMessage_iff)
  have "Username cfg @ CHR ''/'' # (''in/'' @ f) = Username cfg' @ CHR ''/'' # (''in/'' @ f')"
    using t NewMqttClient_client [OF assms(1)] NewMqttClient_client [OF assms(2)] by simp
  with append_Cons_first_unique [OF id_levels(1) id_levels(1)] assms(3-5) show False by blast
qed

text \<open>A camera, its client and a message of a viewer.\<close>

definition sample_mqtt :: "string \<Rightarrow> MQTT" where
  "sample_mqtt user = \<lparr>mqtt_URL = ''ssl://broker:8883'', Username = user, Password = ''pw'', CA = ''ca.pem''\<rparr>"

definition sample_state :: "bool \<Rightarrow> State" where
  "sample_state on = \<lparr>st_V = 1, st_TS = 0, st_Name = ''cam'', Online = on, Busy = False, Viewer = None,
     Kind = ''relay'', Caps = None, st_Agent = None\<rparr>"

definition sample_envelope :: Envelope where
  "sample_envelope = \<lparr>V = 1, TS = 1791892800, SID = ''session01'', Type = ''bye'', Data = None\<rparr>"

definition sample_client :: "string \<Rightarrow> MqttClient" where
  "sample_client user = \<lparr>mq_id = user, mq_cfg = sample_mqtt user, aclCheck = False,
     topicIn = ''ocam/dev/'' @ user @ ''/in/'', topicState = ''ocam/dev/'' @ user @ ''/state''\<rparr>"

lemma sample_NewMqttClient:
  "TrimSpace user = user \<Longrightarrow>
     \<exists>opts. NewMqttClient (\<lambda>_. Inr ''pem'') (\<lambda>_. True) (sample_mqtt user) sample_state = Inr (sample_client user, opts)"
  by (simp add: NewMqttClient_def buildTLSConfig_def sample_client_def sample_mqtt_def Let_def)

lemma sample_ids [simp]: "idPattern ''cam-1''" "idPattern ''cam-12''" "idPattern ''viewer''"
  "TrimSpace ''cam-1'' = ''cam-1''" "TrimSpace ''cam-12'' = ''cam-12''"
  by code_simp+

lemma sample_message:
  "handleMessage (sample_client ''cam-1'') oct_2026 ''ocam/dev/cam-1/in/viewer'' (Some (enc_Envelope sample_envelope)) =
     Some (''viewer'', sample_envelope, \<not> tsAcceptable 1791892800 oct_2026)"
  by (simp add: handleMessage_iff envelope_codec.unmarshal_enc in_int64_def ProtocolVersion_def
        sample_client_def) (simp add: sample_envelope_def envelope_codec.unmarshal_enc in_int64_def ascii_eval)

theorem reply_topic_safe_witness:
  "Split (viewer_topic (sample_client ''cam-1'') ''viewer'') ''/'' =
     [''ocam'', ''cli'', ''viewer'', ''in'', ''cam-1'']"
proof -
  obtain opts where "NewMqttClient (\<lambda>_. Inr ''pem'') (\<lambda>_. True) (sample_mqtt ''cam-1'') sample_state =
      Inr (sample_client ''cam-1'', opts)"
    using sample_NewMqttClient [of "''cam-1''"] by auto
  from reply_topic_safe [OF this _ sample_message, THEN conjunct1] show ?thesis by (simp add: sample_mqtt_def)
qed

theorem mailboxes_disjoint_witness:
  "handleMessage (sample_client ''cam-12'') oct_2026 ''ocam/dev/cam-1/in/viewer'' None = None"
proof -
  obtain o1 o2 where n: "NewMqttClient (\<lambda>_. Inr ''pem'') (\<lambda>_. True) (sample_mqtt ''cam-1'') sample_state =
      Inr (sample_client ''cam-1'', o1)"
    "NewMqttClient (\<lambda>_. Inr ''pem'') (\<lambda>_. True) (sample_mqtt ''cam-12'') sample_state =
      Inr (sample_client ''cam-12'', o2)"
    using sample_NewMqttClient [of "''cam-1''"] sample_NewMqttClient [of "''cam-12''"] by auto
  show ?thesis
    by (rule mailboxes_disjoint [OF n, where now = oct_2026 and payload = "Some (enc_Envelope sample_envelope)"])
       (simp_all add: sample_mqtt_def sample_message)
qed

section \<open>What is sent, and how the connection is made\<close>

text \<open>
  What the agent sends to a viewer is one message that is not retained, to the viewer's mailbox
  at the agent's identifier, and the viewer that decodes it reads exactly the protocol version, the
  agent's clock, the session, the type and the data given (session and type in UTF-8).
\<close>

theorem Send_delivers:
  assumes "in_int64 (unix_sec now)" and "utf8 sid" and "utf8 typ"
  shows "\<exists>payload. Send m now to typ sid data = Publish (''ocam/cli/'' @ to @ ''/in/'' @ mq_id m) 1 False payload \<and>
     unmarshal dec_Envelope zero_Envelope (Some payload) =
       Some \<lparr>V = 1, TS = unix_sec now, SID = sid, Type = typ, Data = data\<rparr>"
proof -
  have "in_int64 ProtocolVersion" by (simp add: ProtocolVersion_def in_int64_def)
  then have "unmarshal dec_Envelope zero_Envelope
      (Some (enc_Envelope \<lparr>V = ProtocolVersion, TS = unix_sec now, SID = sid, Type = typ, Data = data\<rparr>)) =
      Some \<lparr>V = ProtocolVersion, TS = unix_sec now, SID = sid, Type = typ, Data = data\<rparr>"
    using assms by (intro envelope_codec.unmarshal_enc) simp
  then show ?thesis by (simp add: Send_def publish_def viewer_topic_def ProtocolVersion_def)
qed

theorem Send_delivers_witness:
  "\<exists>payload. Send (sample_client ''cam-1'') oct_2026 ''viewer'' ''bye'' ''session01'' None =
       Publish (''ocam/cli/'' @ ''viewer'' @ ''/in/'' @ mq_id (sample_client ''cam-1'')) 1 False payload \<and>
     unmarshal dec_Envelope zero_Envelope (Some payload) =
       Some \<lparr>V = 1, TS = unix_sec oct_2026, SID = ''session01'', Type = ''bye'', Data = None\<rparr>"
  by (rule Send_delivers) (simp_all add: oct_2026_def unix_sec_def in_int64_def ascii_eval)

lemma NewMqttClient_options_parts:
  assumes "NewMqttClient readFile validPEM cfg stateFn = Inr (m, opts)"
  shows "\<not> InsecureSkipVerify (TLSConfig opts)" and "MinVersion (TLSConfig opts) = TLS12"
    and "CA cfg = '''' \<Longrightarrow> RootCAs (TLSConfig opts) = None"
    and "CA cfg \<noteq> '''' \<Longrightarrow> \<exists>pem. readFile (CA cfg) = Inr pem \<and> validPEM pem \<and> RootCAs (TLSConfig opts) = Some pem"
    and "WillTopic opts = topicState m \<and> WillRetained opts \<and> WillPayload opts = enc_State (stateFn False)"
    and "PublishState m stateFn False = Publish (WillTopic opts) (WillQos opts) (WillRetained opts) (WillPayload opts)"
  using assms
  by (auto simp: NewMqttClient_def buildTLSConfig_def PublishState_def publish_def Let_def
      split: sum.splits go_exit.splits if_splits)

text \<open>
  Every connection the agent configures verifies the broker (never without verification, at
  least TLS 1.2), trusts only the configured certificate authority when there is one, and has as Last
  Will the retained offline state of its own state topic; an authority that cannot be read or holds
  no certificate is an error, not a fall back to the system store.
\<close>

theorem NewMqttClient_options:
  assumes "NewMqttClient readFile validPEM cfg stateFn = Inr (m, opts)"
  shows "(\<not> InsecureSkipVerify (TLSConfig opts)) \<and>
    (MinVersion (TLSConfig opts) = TLS12) \<and>
    (CA cfg = '''' \<longrightarrow> RootCAs (TLSConfig opts) = None) \<and>
    (CA cfg \<noteq> '''' \<longrightarrow> (\<exists>pem. readFile (CA cfg) = Inr pem \<and> validPEM pem \<and> RootCAs (TLSConfig opts) = Some pem)) \<and>
    (WillTopic opts = topicState m \<and> WillRetained opts \<and> WillPayload opts = enc_State (stateFn False)) \<and>
    (PublishState m stateFn False = Publish (WillTopic opts) (WillQos opts) (WillRetained opts) (WillPayload opts))"
  using NewMqttClient_options_parts [OF assms] by blast

theorem NewMqttClient_options_witness:
  "\<exists>opts. NewMqttClient (\<lambda>_. Inr ''pem'') (\<lambda>_. True) (sample_mqtt ''cam-1'') sample_state =
      Inr (sample_client ''cam-1'', opts) \<and>
    \<not> InsecureSkipVerify (TLSConfig opts) \<and> RootCAs (TLSConfig opts) = Some ''pem''"
proof -
  obtain opts where o: "NewMqttClient (\<lambda>_. Inr ''pem'') (\<lambda>_. True) (sample_mqtt ''cam-1'') sample_state =
      Inr (sample_client ''cam-1'', opts)"
    using sample_NewMqttClient [of "''cam-1''"] by auto
  have "CA (sample_mqtt ''cam-1'') \<noteq> ''''" by (simp add: sample_mqtt_def)
  with NewMqttClient_options [OF o] o show ?thesis by auto
qed
end
