(* ===== verification/WebRtc.thy ===== *)
theory WebRtc imports RtspSession Protocol begin

text \<open>
  \<open>webrtc.go\<close>: the proxy of one session, a PeerConnection and the RTSP stream behind it. The WebRTC
  library (pion) is not part of the repository: what its calls answer is an argument (\<open>pion\<close>), what
  the proxy asks of it, of the RTSP client and of the agent's call-backs is a list of effects in
  the order of the calls. A connection is identified with what was configured on it.
\<close>

section \<open>Types\<close>

record SessionError =
  se_Code :: string
  se_Msg :: string

definition newSessionError :: "string \<Rightarrow> string \<Rightarrow> SessionError" where
  "newSessionError code msg = \<lparr>se_Code = code, se_Msg = msg\<rparr>"

text \<open>A timer that was created: still running, or stopped.\<close>

datatype timer = Running | Stopped

datatype wp_effect =
    NewPC "string list" \<comment> \<open>the STUN servers configured\<close>
  | ClosePC
  | AddTrack string
  | AddCandidate ICECandidate
  | WriteVideo string
  | WriteAudio string
  | CloseRTSP RtspClient
  | StartRTSP \<comment> \<open>\<open>go StartRTSPStream\<close>\<close>
  | OnConnected
  | OnEnd string

record WebRTCProxy =
  rtspUrl :: string
  videoCodec :: string
  audioCodec :: string
  stun :: "string list"
  videoTrack :: bool
  audioTrack :: bool
  pc :: bool \<comment> \<open>the PeerConnection is not nil\<close>
  rtspClient :: "RtspClient option"
  closed :: bool
  started :: bool
  disconnectTimer :: "timer option"
  closeOnce :: bool \<comment> \<open>\<open>Close\<close> has run, the channel \<open>done\<close> is closed\<close>
  hasEnd :: bool \<comment> \<open>the call-backs are set\<close>
  hasConnected :: bool

definition NewWebRTCProxy :: "string \<Rightarrow> string \<Rightarrow> string \<Rightarrow> string list \<Rightarrow> WebRTCProxy" where
  "NewWebRTCProxy url video audio stun' =
     \<lparr>rtspUrl = url, videoCodec = ''video/'' @ video,
      audioCodec = (if audio \<noteq> '''' then ''audio/'' @ audio else ''''), stun = stun',
      videoTrack = False, audioTrack = False, pc = False, rtspClient = None, closed = False,
      started = False, disconnectTimer = None, closeOnce = False, hasEnd = False, hasConnected = False\<rparr>"

section \<open>\<open>Close\<close> and \<open>end\<close>\<close>

definition proxy_Close :: "WebRTCProxy \<Rightarrow> WebRTCProxy \<times> wp_effect list" where
  "proxy_Close wp =
     (if closeOnce wp then (wp, [])
      else (wp\<lparr>closeOnce := True, closed := True, pc := False, rtspClient := None,
               disconnectTimer := map_option (\<lambda>_. Stopped) (disconnectTimer wp)\<rparr>,
            (if pc wp then [ClosePC] else []) @
            (case rtspClient wp of None \<Rightarrow> [] | Some c \<Rightarrow> [CloseRTSP c])))"

definition proxy_end :: "string \<Rightarrow> WebRTCProxy \<Rightarrow> WebRTCProxy \<times> wp_effect list" where
  "proxy_end reason wp =
     (if closed wp then (wp, [])
      else if hasEnd wp then (wp, [OnEnd reason])
      else proxy_Close wp)"

section \<open>The offer\<close>

text \<open>
  The answers of the library: whether a connection with these servers, a track of this type, its
  addition, the remote and the local description are accepted, the answer it creates for an offer
  and the tracks, the description it then reports, and whether a candidate is accepted.
\<close>

record pion =
  okPC :: "string list \<Rightarrow> bool"
  okTrack :: "string \<Rightarrow> bool"
  okAdd :: "string \<Rightarrow> bool"
  okRemote :: "string \<Rightarrow> bool"
  mkAnswer :: "string \<Rightarrow> string list \<Rightarrow> string option"
  okLocal :: "string \<Rightarrow> bool"
  currentLocal :: "string \<Rightarrow> string"
  okCandidate :: "ICECandidate \<Rightarrow> bool"

text \<open>The descriptions: from the remote one on.\<close>

definition negotiate ::
  "pion \<Rightarrow> string \<Rightarrow> string list \<Rightarrow> SessionError + string" where
  "negotiate p offer tracks =
     (if \<not> okRemote p offer then Inl (newSessionError ErrBadRequest ''offre SDP invalide'')
      else case mkAnswer p offer tracks of
             None \<Rightarrow> Inl (newSessionError ErrInternal ''cannot create the answer'')
           | Some answer \<Rightarrow>
               (if \<not> okLocal p answer then Inl (newSessionError ErrInternal ''cannot apply the answer'')
                else Inr (currentLocal p answer)))"

text \<open>The audio track: a type the library refuses is only left out.\<close>

definition add_audio ::
  "pion \<Rightarrow> bool \<Rightarrow> WebRTCProxy \<Rightarrow> WebRTCProxy \<times> wp_effect list \<times> SessionError option" where
  "add_audio p addAudio wp =
     (if \<not> addAudio then (wp, [], None)
      else if \<not> okTrack p (audioCodec wp) then (wp\<lparr>audioTrack := False\<rparr>, [], None)
      else if \<not> okAdd p (audioCodec wp)
      then (wp\<lparr>audioTrack := True\<rparr>, [], Some (newSessionError ErrInternal ''cannot add the audio track''))
      else (wp\<lparr>audioTrack := True\<rparr>, [AddTrack (audioCodec wp)], None))"

definition track_types :: "wp_effect list \<Rightarrow> string list" where
  "track_types es = concat (map (\<lambda>e. case e of AddTrack t \<Rightarrow> [t] | _ \<Rightarrow> []) es)"

definition createAnswer ::
  "pion \<Rightarrow> string \<Rightarrow> bool \<Rightarrow> WebRTCProxy \<Rightarrow> WebRTCProxy \<times> wp_effect list \<times> (SessionError + string)" where
  "createAnswer p offer addAudio wp =
     (if \<not> okPC p (stun wp)
      then (wp, [], Inl (newSessionError ErrInternal ''cannot create the PeerConnection''))
      else if closed wp
      then (wp, [NewPC (stun wp), ClosePC], Inl (newSessionError ErrInternal ''session closed''))
      else let wp1 = wp\<lparr>pc := True\<rparr>
           in if \<not> okTrack p (videoCodec wp1)
              then (wp1\<lparr>videoTrack := False\<rparr>, [NewPC (stun wp)],
                    Inl (newSessionError ErrUnsupportedCodec ''unsupported video codec''))
              else let wp2 = wp1\<lparr>videoTrack := True\<rparr>
                   in if \<not> okAdd p (videoCodec wp2)
                      then (wp2, [NewPC (stun wp)], Inl (newSessionError ErrInternal ''cannot add the video track''))
                      else case add_audio p addAudio wp2 of
                             (wp3, es, Some err) \<Rightarrow> (wp3, [NewPC (stun wp), AddTrack (videoCodec wp)] @ es, Inl err)
                           | (wp3, es, None) \<Rightarrow>
                               (let es' = [NewPC (stun wp), AddTrack (videoCodec wp)] @ es
                                in (wp3, es', negotiate p offer (track_types es'))))"

definition HandleOffer ::
  "pion \<Rightarrow> string \<Rightarrow> bool \<Rightarrow> WebRTCProxy \<Rightarrow> WebRTCProxy \<times> wp_effect list \<times> (SessionError + string)" where
  "HandleOffer p offer wantAudio wp =
     (let videoName = ToLower (TrimPrefix (videoCodec wp) ''video/'');
          lowerSDP = ToLower offer
      in if \<not> Contains lowerSDP ('' '' @ videoName @ ''/'')
         then (wp, [], Inl (newSessionError ErrUnsupportedCodec
                              (''the offer does not contain video codec '' @ videoName)))
         else let addAudio = (wantAudio \<and> audioCodec wp \<noteq> '''' \<and> Contains lowerSDP ''m=audio'')
              in case createAnswer p offer addAudio wp of
                   (wp1, es, Inl err) \<Rightarrow>
                     (let (wp2, cs) = proxy_Close wp1 in (wp2, es @ cs, Inl err))
                 | (wp1, es, Inr answer) \<Rightarrow> (wp1, es, Inr answer))"

section \<open>Connection states\<close>

datatype PeerConnectionState =
  StateNew | StateConnecting | StateConnected | StateDisconnected | StateFailed | StateClosed

definition stop_disconnect :: "PeerConnectionState \<Rightarrow> WebRTCProxy \<Rightarrow> WebRTCProxy" where
  "stop_disconnect state wp =
     (if state \<noteq> StateDisconnected \<and> disconnectTimer wp \<noteq> None
      then wp\<lparr>disconnectTimer := None\<rparr> else wp)"

text \<open>
  The timer of the state \<open>disconnected\<close> calls \<open>end\<close> when it fires (\<open>disconnect_fires\<close>). The
  handler's log of the selected pair of addresses is below.
\<close>

definition handleConnectionState :: "PeerConnectionState \<Rightarrow> WebRTCProxy \<Rightarrow> WebRTCProxy \<times> wp_effect list" where
  "handleConnectionState state wp0 =
     (if closed wp0 then (wp0, [])
      else let wp = stop_disconnect state wp0
           in case state of
                StateFailed \<Rightarrow> proxy_end ByeICEFailed wp
              | StateDisconnected \<Rightarrow>
                  (if disconnectTimer wp = None \<and> \<not> closed wp
                   then (wp\<lparr>disconnectTimer := Some Running\<rparr>, []) else (wp, []))
              | StateConnected \<Rightarrow>
                  (if started wp then (wp, [])
                   else (wp\<lparr>started := True\<rparr>,
                         [StartRTSP] @ (if hasConnected wp then [OnConnected] else [])))
              | _ \<Rightarrow> (wp, []))"

definition disconnect_fires :: "WebRTCProxy \<Rightarrow> WebRTCProxy \<times> wp_effect list" where
  "disconnect_fires wp =
     (if disconnectTimer wp = Some Running then proxy_end ByeICEFailed wp else (wp, []))"

definition AddICECandidate :: "pion \<Rightarrow> ICECandidate \<Rightarrow> WebRTCProxy \<Rightarrow> wp_effect list \<times> unit res" where
  "AddICECandidate p c wp =
     (if \<not> pc wp then ([], Inl (Failed ''PeerConnection is null''))
      else if okCandidate p c then ([AddCandidate c], Inr ())
      else ([], Inl (Failed ''candidate rejected'')))"

section \<open>Forwarding packets\<close>

text \<open>\<open>write\<close> tells whether the library accepts a packet on the track (an error is only logged).\<close>

definition sendRTPPacket :: "string \<Rightarrow> WebRTCProxy \<Rightarrow> wp_effect list" where
  "sendRTPPacket data wp =
     (if length data \<le> 4 then []
      else let channel = byte_val (data ! 1); packetBytes = drop 4 data
           in if channel = 0 then (if videoTrack wp then [WriteVideo packetBytes] else [])
              else if channel = 2 then (if audioTrack wp then [WriteAudio packetBytes] else [])
              else [])"

text \<open>
  What \<open>consumeRTPPackets\<close> does with the packets it takes from the queue until the loop is left (by
  the client's signal or by the closed proxy); its counters only serve the log.
\<close>

definition forward_one :: "string \<Rightarrow> WebRTCProxy \<Rightarrow> wp_effect list" where
  "forward_one data wp =
     (if length data > 12
      then (if byte_val (data ! 1) = 0 \<or> byte_val (data ! 1) = 2 then sendRTPPacket data wp else [])
      else [])"

definition consumeRTPPackets :: "string list \<Rightarrow> WebRTCProxy \<Rightarrow> wp_effect list" where
  "consumeRTPPackets packets wp = concat (map (\<lambda>d. forward_one d wp) packets)"

section \<open>The stream and its reconnections\<close>

text \<open>
  What happens around one attempt: whether the proxy is closed (by another goroutine) during the
  backoff or before the client is stored, while the client has no connection yet (the dial may take
  five seconds; a \<open>Close\<close> that hits a later point of \<open>Client\<close> makes it fail), or while packets are
  forwarded; how \<open>Client\<close> ends; the packets the consumer takes before the read loop signals its end
  or the proxy is closed; and the client then.
\<close>

record attempt =
  closes_waiting :: bool
  closes_dialing :: bool
  connects :: "RtspClient \<times> unit res"
  packets :: "string list"
  closes_playing :: bool
  client_after :: RtspClient

datatype stream_end = StreamClosed | StreamLost | StreamPanic string

record stream_run =
  proxy :: WebRTCProxy
  effects :: "wp_effect list"
  waits :: "int list"
  dials :: nat

definition maxAttempts :: nat where "maxAttempts = 5"

definition emit :: "wp_effect list \<Rightarrow> stream_run \<Rightarrow> stream_run" where
  "emit es s = s\<lparr>effects := effects s @ es\<rparr>"

text \<open>Another goroutine closes the proxy: its effects are part of the run.\<close>

definition closing :: "bool \<Rightarrow> stream_run \<Rightarrow> stream_run" where
  "closing b s =
     (if b then (let (wp, es) = proxy_Close (proxy s) in s\<lparr>proxy := wp, effects := effects s @ es\<rparr>) else s)"

definition wait_backoff :: "nat \<Rightarrow> stream_run \<Rightarrow> stream_run" where
  "wait_backoff n s = (if n > 0 then s\<lparr>waits := waits s @ [backoff n]\<rparr> else s)"

text \<open>The proxy, while not closed, points to the client: its field holds the client's present state.\<close>

definition track_client :: "RtspClient \<Rightarrow> stream_run \<Rightarrow> stream_run" where
  "track_client c s =
     (if rtspClient (proxy s) = None then s else s\<lparr>proxy := (proxy s)\<lparr>rtspClient := Some c\<rparr>\<rparr>)"

text \<open>\<open>client.Close()\<close> on the client of the attempt.\<close>

definition close_client :: "RtspClient \<Rightarrow> stream_run \<Rightarrow> stream_run" where
  "close_client c s = track_client (fst (Close c)) (emit [CloseRTSP c] s)"

definition set_client :: "RtspClient \<Rightarrow> stream_run \<Rightarrow> stream_run" where
  "set_client c s = s\<lparr>proxy := (proxy s)\<lparr>rtspClient := Some c\<rparr>, dials := dials s + 1\<rparr>"

definition stream_lost :: "stream_run \<Rightarrow> stream_run" where
  "stream_lost s =
     (case proxy_end ByeSourceLost (proxy s) of
        (wp, es) \<Rightarrow> s\<lparr>proxy := wp, effects := effects s @ es\<rparr>)"

text \<open>One attempt: it ends the loop, or the loop goes on.\<close>

definition one_attempt :: "nat \<Rightarrow> attempt \<Rightarrow> stream_run \<Rightarrow> stream_run \<times> stream_end option" where
  "one_attempt n a s0 =
     (let s1 = closing (closes_waiting a) (wait_backoff n s0)
      in if closed (proxy s1) then (s1, Some StreamClosed)
         else let s2 = closing (closes_dialing a) (set_client NewRtspClient s1)
              in case connects a of
                   (c, Inl (Panicked e)) \<Rightarrow> (s2, Some (StreamPanic e))
                 | (c, Inl (Failed _)) \<Rightarrow> (close_client c s2, None)
                 | (c, Inr _) \<Rightarrow>
                     (let s3 = emit (consumeRTPPackets (packets a) (proxy s2)) s2;
                          s4 = closing (closes_playing a) (track_client (client_after a) s3)
                      in if closed (proxy s4) then (s4, Some StreamClosed)
                         else (close_client (client_after a) s4, None)))"

function stream_loop :: "nat \<Rightarrow> (nat \<Rightarrow> attempt) \<Rightarrow> stream_run \<Rightarrow> stream_run \<times> stream_end" where
  "stream_loop n att s =
     (if n \<ge> maxAttempts then (stream_lost s, StreamLost)
      else case one_attempt n (att n) s of
             (s', Some e) \<Rightarrow> (s', e)
           | (s', None) \<Rightarrow> stream_loop (n + 1) att s')"
  by pat_completeness auto
termination by (relation "measure (\<lambda>(n, _). maxAttempts - n)") auto

declare stream_loop.simps [simp del]

definition StartRTSPStream :: "(nat \<Rightarrow> attempt) \<Rightarrow> WebRTCProxy \<Rightarrow> stream_run \<times> stream_end" where
  "StartRTSPStream att wp = stream_loop 0 att \<lparr>proxy = wp, effects = [], waits = [], dials = 0\<rparr>"

section \<open>Logging the source\<close>

definition redactURL :: "string \<Rightarrow> string" where
  "redactURL raw =
     (let scheme = Index raw ''://''; at = LastIndex raw ''@''
      in if scheme < 0 \<or> at < scheme then raw
         else take (nat (scheme + 3)) raw @ ''***@'' @ drop (nat (at + 1)) raw)"

section \<open>Addresses of the selected pair\<close>

text \<open>A \<open>net.IP\<close> is 4 or 16 bytes; \<open>To4\<close> gives the 4 bytes of an IPv4 or IPv4-mapped address.\<close>

type_synonym IP = "nat list"

definition v4_prefix :: "nat list" where
  "v4_prefix = replicate 10 0 @ [255, 255]"

definition To4 :: "IP \<Rightarrow> IP option" where
  "To4 ip =
     (if length ip = 4 then Some ip
      else if length ip = 16 \<and> take 12 ip = v4_prefix then Some (drop 12 ip)
      else None)"

text \<open>\<open>IsPrivate\<close> and \<open>IsLinkLocalUnicast\<close> of an address that is no IPv4 address.\<close>

definition v6_private :: "IP \<Rightarrow> bool" where
  "v6_private ip \<longleftrightarrow> length ip = 16 \<and> ip ! 0 AND 0xfe = 0xfc"

definition v6_link_local :: "IP \<Rightarrow> bool" where
  "v6_link_local ip \<longleftrightarrow> length ip = 16 \<and> ip ! 0 = 0xfe \<and> ip ! 1 AND 0xc0 = 0x80"

definition isPrivateOrLinkLocalIP :: "IP \<Rightarrow> bool" where
  "isPrivateOrLinkLocalIP ip =
     (case To4 ip of
        Some ip4 \<Rightarrow>
          (if ip4 ! 0 = 10 then True
           else if ip4 ! 0 = 172 \<and> ip4 ! 1 \<ge> 16 \<and> ip4 ! 1 \<le> 31 then True
           else if ip4 ! 0 = 192 \<and> ip4 ! 1 = 168 then True
           else if ip4 ! 0 = 169 \<and> ip4 ! 1 = 254 then True
           else False)
      | None \<Rightarrow> v6_private ip \<or> v6_link_local ip)"

text \<open>
  What the system reports: interfaces with their flags and addresses (None: the query failed); an
  address is a network (address and mask) or something else.
\<close>

datatype addr = IPNet IP "nat list" | OtherAddr

record iface =
  FlagUp :: bool
  FlagLoopback :: bool
  Addrs :: "addr list option"

text \<open>\<open>IPNet.Contains\<close>: both addresses in their short form, of the mask's length, equal under the mask.\<close>

definition short :: "IP \<Rightarrow> IP" where
  "short ip = (case To4 ip of Some ip4 \<Rightarrow> ip4 | None \<Rightarrow> ip)"

definition net_mask :: "IP \<Rightarrow> nat list \<Rightarrow> nat list option" where
  "net_mask ip m =
     (if length m = length ip \<and> (length ip = 4 \<or> length ip = 16) then Some m
      else if length m = 16 \<and> length ip = 4 then Some (drop 12 m) else None)"

definition Contains_ip :: "IP \<Rightarrow> nat list \<Rightarrow> IP \<Rightarrow> bool" where
  "Contains_ip n m ip =
     (case net_mask (short n) m of
        None \<Rightarrow> False
      | Some m' \<Rightarrow>
          length (short ip) = length (short n) \<and>
          map2 (\<lambda>x y. x AND y) (short n) m' = map2 (\<lambda>x y. x AND y) (short ip) m')"

fun addr_contains :: "IP \<Rightarrow> addr list \<Rightarrow> bool" where
  "addr_contains remoteIP [] = False"
| "addr_contains remoteIP (OtherAddr # as) = addr_contains remoteIP as"
| "addr_contains remoteIP (IPNet ip m # as) =
     (if (To4 ip = None) \<noteq> (To4 remoteIP = None) then addr_contains remoteIP as
      else if Contains_ip ip m remoteIP then True
      else addr_contains remoteIP as)"

fun iface_contains :: "IP \<Rightarrow> iface list \<Rightarrow> bool" where
  "iface_contains remoteIP [] = False"
| "iface_contains remoteIP (i # is) =
     (if \<not> FlagUp i \<or> FlagLoopback i then iface_contains remoteIP is
      else case Addrs i of
             None \<Rightarrow> iface_contains remoteIP is
           | Some addrs \<Rightarrow>
               (if addr_contains remoteIP addrs then True else iface_contains remoteIP is))"

definition isInLocalSubnet :: "iface list option \<Rightarrow> IP \<Rightarrow> bool" where
  "isInLocalSubnet ifaces remoteIP =
     (case ifaces of None \<Rightarrow> False | Some is \<Rightarrow> iface_contains remoteIP is)"

text \<open>
  The selected pair: the first one a sender reports (None: it has no transport; an error ends the
  search), else that of the data channel. An end of a pair is its address, parsed, and whether it is
  a host candidate. The log line says whether both ends are on one local network.
\<close>

datatype pair_query = PairError | NoPair | Pair "(IP option \<times> bool) \<times> (IP option \<times> bool)"

fun sender_pair :: "pair_query option list \<Rightarrow> pair_query" where
  "sender_pair [] = NoPair"
| "sender_pair (None # qs) = sender_pair qs"
| "sender_pair (Some NoPair # qs) = sender_pair qs"
| "sender_pair (Some q # qs) = q"

definition getSelectedICECandidatePair :: "pair_query option list \<Rightarrow> pair_query option \<Rightarrow> pair_query" where
  "getSelectedICECandidatePair senders sctp =
     (case sender_pair senders of
        NoPair \<Rightarrow> (case sctp of Some q \<Rightarrow> q | None \<Rightarrow> NoPair)
      | q \<Rightarrow> q)"

datatype pair_log = Unable | NotAvailable | SameUnknown | SameNetwork bool

definition logSelectedICEPairNetwork ::
  "iface list option \<Rightarrow> pair_query option list \<Rightarrow> pair_query option \<Rightarrow> pair_log" where
  "logSelectedICEPairNetwork ifaces senders sctp =
     (case getSelectedICECandidatePair senders sctp of
        PairError \<Rightarrow> Unable
      | NoPair \<Rightarrow> NotAvailable
      | Pair ((Some localIP, localHost), (Some remoteIP, remoteHost)) \<Rightarrow>
          SameNetwork (localHost \<and> remoteHost \<and> isPrivateOrLinkLocalIP remoteIP \<and>
                       isInLocalSubnet ifaces remoteIP)
      | Pair _ \<Rightarrow> SameUnknown)"

section \<open>Releasing what was opened\<close>

lemma proxy_Close_twice: "proxy_Close (fst (proxy_Close wp)) = (fst (proxy_Close wp), [])"
  by (simp add: proxy_Close_def)

lemma proxy_Close_closed [simp]:
  "closed (fst (proxy_Close wp)) \<longleftrightarrow> closed wp \<or> \<not> closeOnce wp"
  "closeOnce (fst (proxy_Close wp))"
  by (simp_all add: proxy_Close_def)

text \<open>The connections opened and not yet closed among the effects.\<close>

definition open_pcs :: "wp_effect list \<Rightarrow> int" where
  "open_pcs es = int (length (filter (\<lambda>e. \<exists>s. e = NewPC s) es)) - int (length (filter (\<lambda>e. e = ClosePC) es))"

lemma open_pcs_simps [simp]:
  "open_pcs [] = 0" "open_pcs (NewPC s # es) = 1 + open_pcs es" "open_pcs (ClosePC # es) = open_pcs es - 1"
  "open_pcs (AddTrack t # es) = open_pcs es" "open_pcs (CloseRTSP c # es) = open_pcs es"
  "open_pcs (OnEnd r # es) = open_pcs es" "open_pcs (es @ es') = open_pcs es + open_pcs es'"
  by (simp_all add: open_pcs_def)

text \<open>What the steps of an offer leave alone.\<close>

definition same_life :: "WebRTCProxy \<Rightarrow> WebRTCProxy \<Rightarrow> bool" where
  "same_life wp' wp \<longleftrightarrow> rtspClient wp' = rtspClient wp \<and> closed wp' = closed wp \<and>
     closeOnce wp' = closeOnce wp \<and> hasEnd wp' = hasEnd wp \<and> hasConnected wp' = hasConnected wp \<and>
     disconnectTimer wp' = disconnectTimer wp \<and> started wp' = started wp"

lemma add_audio_spec:
  assumes "add_audio p b wp = (wp', es, r)"
  shows "same_life wp' wp" and "pc wp' = pc wp" and "videoTrack wp' = videoTrack wp" and "open_pcs es = 0"
    and "r = Some err \<Longrightarrow> se_Code err = ErrInternal"
    and "r = None \<Longrightarrow> es = (if b \<and> audioTrack wp' then [AddTrack (audioCodec wp)] else [])"
  using assms by (auto simp: add_audio_def same_life_def newSessionError_def split: if_splits)

lemma negotiate_code:
  "negotiate p offer ts = Inl err \<Longrightarrow> se_Code err \<in> {ErrBadRequest, ErrInternal}"
  by (auto simp: negotiate_def newSessionError_def split: if_splits option.splits)

lemma createAnswer_early:
  assumes "createAnswer p offer addAudio wp = (wp', es, r)" and "\<not> pc wp"
    and "\<not> okPC p (stun wp) \<or> closed wp \<or> \<not> okTrack p (videoCodec wp) \<or> \<not> okAdd p (videoCodec wp)"
  shows "same_life wp' wp \<and> open_pcs es = (if pc wp' then 1 else 0) \<and>
    (\<exists>err. r = Inl err \<and> se_Code err \<in> {ErrUnsupportedCodec, ErrInternal})"
  using assms by (auto simp: createAnswer_def same_life_def newSessionError_def Let_def split: if_splits)

lemma createAnswer_late:
  assumes "okPC p (stun wp)" "\<not> closed wp" "okTrack p (videoCodec wp)" "okAdd p (videoCodec wp)"
    and "add_audio p addAudio (wp\<lparr>pc := True, videoTrack := True\<rparr>) = (wp3, es3, r3)"
  shows "createAnswer p offer addAudio wp =
    (wp3, [NewPC (stun wp), AddTrack (videoCodec wp)] @ es3,
     case r3 of Some err \<Rightarrow> Inl err
     | None \<Rightarrow> negotiate p offer (track_types ([NewPC (stun wp), AddTrack (videoCodec wp)] @ es3)))"
  using assms by (simp add: createAnswer_def Let_def split: option.split)

lemma createAnswer_spec:
  assumes c: "createAnswer p offer addAudio wp = (wp', es, r)" and "\<not> pc wp"
  shows "same_life wp' wp" and "open_pcs es = (if pc wp' then 1 else 0)"
    and "r = Inl err \<Longrightarrow> se_Code err \<in> {ErrBadRequest, ErrUnsupportedCodec, ErrInternal}"
    and "r = Inr a \<Longrightarrow> pc wp' \<and> videoTrack wp' \<and> es = NewPC (stun wp) # AddTrack (videoCodec wp) #
             (if addAudio \<and> audioTrack wp' then [AddTrack (audioCodec wp)] else [])"
proof -
  have "same_life wp' wp \<and> open_pcs es = (if pc wp' then 1 else 0) \<and>
    (r = Inl err \<longrightarrow> se_Code err \<in> {ErrBadRequest, ErrUnsupportedCodec, ErrInternal}) \<and>
    (r = Inr a \<longrightarrow> pc wp' \<and> videoTrack wp' \<and> es = NewPC (stun wp) # AddTrack (videoCodec wp) #
             (if addAudio \<and> audioTrack wp' then [AddTrack (audioCodec wp)] else []))"
  proof (cases "\<not> okPC p (stun wp) \<or> closed wp \<or> \<not> okTrack p (videoCodec wp) \<or> \<not> okAdd p (videoCodec wp)")
    case True
    from createAnswer_early [OF assms True] show ?thesis by auto
  next
    case False
    obtain wp3 es3 r3 where au: "add_audio p addAudio (wp\<lparr>pc := True, videoTrack := True\<rparr>) = (wp3, es3, r3)"
      by (metis prod_cases3)
    note sp = add_audio_spec [OF au]
    have eq: "wp' = wp3" "es = [NewPC (stun wp), AddTrack (videoCodec wp)] @ es3"
      "r = (case r3 of Some err \<Rightarrow> Inl err
            | None \<Rightarrow> negotiate p offer (track_types ([NewPC (stun wp), AddTrack (videoCodec wp)] @ es3)))"
      using createAnswer_late [of p wp, OF _ _ _ _ au] False c by simp_all
    have "same_life wp' wp" "open_pcs es = 1" "pc wp'" "videoTrack wp'"
      using sp(1-4) by (simp_all add: eq same_life_def)
    then show ?thesis
      using sp(5,6) negotiate_code by (cases r3) (auto simp: eq(2,3) eq(1))
  qed
  then show "same_life wp' wp" "open_pcs es = (if pc wp' then 1 else 0)"
    "r = Inl err \<Longrightarrow> se_Code err \<in> {ErrBadRequest, ErrUnsupportedCodec, ErrInternal}"
    "r = Inr a \<Longrightarrow> pc wp' \<and> videoTrack wp' \<and> es = NewPC (stun wp) # AddTrack (videoCodec wp) #
             (if addAudio \<and> audioTrack wp' then [AddTrack (audioCodec wp)] else [])" by blast+
qed

text \<open>A proxy on which nothing has happened yet.\<close>

definition unused :: "WebRTCProxy \<Rightarrow> bool" where
  "unused wp \<longleftrightarrow> \<not> pc wp \<and> \<not> closed wp \<and> \<not> closeOnce wp \<and> rtspClient wp = None \<and>
     disconnectTimer wp = None \<and> \<not> started wp"

lemma unused_new [simp]: "unused (NewWebRTCProxy url video audio stun')"
  "unused (wp\<lparr>hasEnd := b, hasConnected := b'\<rparr>) \<longleftrightarrow> unused wp"
  by (simp_all add: unused_def NewWebRTCProxy_def)

text \<open>The audio asked of \<open>createAnswer\<close>, and what \<open>HandleOffer\<close> does with its result.\<close>

definition add_audio_wanted :: "string \<Rightarrow> bool \<Rightarrow> WebRTCProxy \<Rightarrow> bool" where
  "add_audio_wanted offer wantAudio wp \<longleftrightarrow>
     wantAudio \<and> audioCodec wp \<noteq> '''' \<and> Contains (ToLower offer) ''m=audio''"

lemma HandleOffer_cases:
  "HandleOffer p offer wantAudio wp =
     (if \<not> Contains (ToLower offer) ('' '' @ ToLower (TrimPrefix (videoCodec wp) ''video/'') @ ''/'')
      then (wp, [], Inl (newSessionError ErrUnsupportedCodec
              (''the offer does not contain video codec '' @ ToLower (TrimPrefix (videoCodec wp) ''video/''))))
      else case createAnswer p offer (add_audio_wanted offer wantAudio wp) wp of
             (wp1, es, Inl err) \<Rightarrow> (fst (proxy_Close wp1), es @ snd (proxy_Close wp1), Inl err)
           | (wp1, es, Inr answer) \<Rightarrow> (wp1, es, Inr answer))"
  by (simp add: HandleOffer_def add_audio_wanted_def Let_def case_prod_beta)

lemma HandleOffer_error:
  assumes h: "HandleOffer p offer wantAudio wp0 = (wp, es, Inl err)" and u: "unused wp0"
  shows "open_pcs es = 0" and "\<not> pc wp" and "se_Code err \<in> {ErrBadRequest, ErrUnsupportedCodec, ErrInternal}"
proof -
  obtain wp1 es1 r1 where c: "createAnswer p offer (add_audio_wanted offer wantAudio wp0) wp0 = (wp1, es1, r1)"
    by (metis prod_cases3)
  have new: "\<not> pc wp0" using u by (simp add: unused_def)
  note sp = createAnswer_spec [OF c new]
  have cl: "\<not> closeOnce wp1 \<and> rtspClient wp1 = None" using sp(1) u by (simp add: same_life_def unused_def)
  have "(es = [] \<and> wp = wp0 \<and> se_Code err = ErrUnsupportedCodec) \<or>
        (r1 = Inl err \<and> wp = fst (proxy_Close wp1) \<and> es = es1 @ snd (proxy_Close wp1))"
    using h by (auto simp: HandleOffer_cases c newSessionError_def split: if_splits sum.splits)
  then show "open_pcs es = 0" "\<not> pc wp" "se_Code err \<in> {ErrBadRequest, ErrUnsupportedCodec, ErrInternal}"
    using sp(2,3) cl new by (auto simp: proxy_Close_def)
qed

lemma HandleOffer_answer:
  assumes h: "HandleOffer p offer wantAudio wp0 = (wp, es, Inr answer)" and u: "unused wp0"
  shows "open_pcs es = 1" and "pc wp" and "videoTrack wp" and "same_life wp wp0"
    and "es = NewPC (stun wp0) # AddTrack (videoCodec wp0) #
      (if add_audio_wanted offer wantAudio wp0 \<and> audioTrack wp then [AddTrack (audioCodec wp0)] else [])"
proof -
  have new: "\<not> pc wp0" using u by (simp add: unused_def)
  have c: "createAnswer p offer (add_audio_wanted offer wantAudio wp0) wp0 = (wp, es, Inr answer)"
    using h by (auto simp: HandleOffer_cases split: if_splits sum.splits prod.splits)
  note sp = createAnswer_spec [OF c new]
  show "open_pcs es = 1" "pc wp" "videoTrack wp" "same_life wp wp0"
    "es = NewPC (stun wp0) # AddTrack (videoCodec wp0) #
      (if add_audio_wanted offer wantAudio wp0 \<and> audioTrack wp then [AddTrack (audioCodec wp0)] else [])"
    using sp(1,2) sp(4) [OF refl] by simp_all
qed

lemma HandleOffer_releases_parts:
  assumes "HandleOffer p offer wantAudio (NewWebRTCProxy url video audio stun') = (wp, es, r)"
  shows "r = Inl err \<Longrightarrow> open_pcs es = 0 \<and> \<not> pc wp \<and>
           se_Code err \<in> {ErrBadRequest, ErrUnsupportedCodec, ErrInternal}"
    and "r = Inr answer \<Longrightarrow> open_pcs es = 1 \<and> pc wp \<and> \<not> closed wp \<and> videoTrack wp \<and>
           AddTrack (''video/'' @ video) \<in> set es \<and>
           (\<forall>t. AddTrack t \<in> set es \<longrightarrow> t = ''video/'' @ video \<or>
              t = ''audio/'' @ audio \<and> wantAudio \<and> audio \<noteq> '''' \<and> Contains (ToLower offer) ''m=audio'')"
proof -
  let ?wp0 = "NewWebRTCProxy url video audio stun'"
  have codec: "videoCodec ?wp0 = ''video/'' @ video"
    "audioCodec ?wp0 = (if audio \<noteq> '''' then ''audio/'' @ audio else '''')"
    by (simp_all add: NewWebRTCProxy_def)
  { assume "r = Inl err"
    then have h: "HandleOffer p offer wantAudio ?wp0 = (wp, es, Inl err)" using assms by simp
    show "open_pcs es = 0 \<and> \<not> pc wp \<and> se_Code err \<in> {ErrBadRequest, ErrUnsupportedCodec, ErrInternal}"
      using HandleOffer_error [OF h unused_new(1)] by blast }
  { assume "r = Inr answer"
    then have h: "HandleOffer p offer wantAudio ?wp0 = (wp, es, Inr answer)" using assms by simp
    note a = HandleOffer_answer [OF h unused_new(1)]
    show "open_pcs es = 1 \<and> pc wp \<and> \<not> closed wp \<and> videoTrack wp \<and> AddTrack (''video/'' @ video) \<in> set es \<and>
        (\<forall>t. AddTrack t \<in> set es \<longrightarrow> t = ''video/'' @ video \<or>
           t = ''audio/'' @ audio \<and> wantAudio \<and> audio \<noteq> '''' \<and> Contains (ToLower offer) ''m=audio'')"
      using a(1-4) unfolding a(5) codec
      by (auto simp: add_audio_wanted_def codec same_life_def NewWebRTCProxy_def split: if_splits) }
qed

text \<open>
  C21: no error of \<open>HandleOffer\<close> leaves a PeerConnection open: for the proxy of a new session, whatever
  the library answers, an error means that every connection created was closed again and none is
  referred to; the error is one of three protocol codes; and an answer is only given with exactly
  one open connection that carries the video track, and the audio track only when the viewer wants
  audio, the camera has a codec for it and the offer has an audio section.
\<close>

theorem HandleOffer_releases:
  assumes "HandleOffer p offer wantAudio (NewWebRTCProxy url video audio stun') = (wp, es, r)"
  shows "(r = Inl err \<longrightarrow> open_pcs es = 0 \<and> \<not> pc wp \<and>
           se_Code err \<in> {ErrBadRequest, ErrUnsupportedCodec, ErrInternal}) \<and>
    (r = Inr answer \<longrightarrow> open_pcs es = 1 \<and> pc wp \<and> \<not> closed wp \<and> videoTrack wp \<and>
           AddTrack (''video/'' @ video) \<in> set es \<and>
           (\<forall>t. AddTrack t \<in> set es \<longrightarrow> t = ''video/'' @ video \<or>
              t = ''audio/'' @ audio \<and> wantAudio \<and> audio \<noteq> '''' \<and> Contains (ToLower offer) ''m=audio''))"
  using HandleOffer_releases_parts [OF assms] by blast

definition sample_pion :: pion where
  "sample_pion = \<lparr>okPC = \<lambda>_. True, okTrack = \<lambda>_. True, okAdd = \<lambda>_. True,
     okRemote = \<lambda>s. Contains s ''m='', mkAnswer = \<lambda>s ts. Some ''v=0 answer'', okLocal = \<lambda>_. True,
     currentLocal = \<lambda>a. a, okCandidate = \<lambda>_. True\<rparr>"

definition sample_proxy :: WebRTCProxy where
  "sample_proxy = NewWebRTCProxy ''rtsp://cam/s'' ''h264'' ''pcmu'' [''stun:s'']"

theorem HandleOffer_releases_witness:
  "open_pcs (fst (snd (HandleOffer sample_pion ''x H264/90000'' True sample_proxy))) = 0 \<and>
   open_pcs (fst (snd (HandleOffer sample_pion ''m=audio H264/90000'' True sample_proxy))) = 1"
proof
  define h where "h = HandleOffer sample_pion ''x H264/90000'' True sample_proxy"
  have "snd (snd h) = Inl (newSessionError ErrBadRequest ''offre SDP invalide'')"
    unfolding h_def by code_simp
  then have "HandleOffer sample_pion ''x H264/90000'' True sample_proxy =
      (fst h, fst (snd h), Inl (newSessionError ErrBadRequest ''offre SDP invalide''))"
    by (metis h_def prod.collapse)
  from HandleOffer_releases [OF this [unfolded sample_proxy_def], THEN conjunct1, THEN mp, OF refl]
  show "open_pcs (fst (snd (HandleOffer sample_pion ''x H264/90000'' True sample_proxy))) = 0"
    by (simp add: h_def)
  define g where "g = HandleOffer sample_pion ''m=audio H264/90000'' True sample_proxy"
  have "snd (snd g) = Inr ''v=0 answer''"
    unfolding g_def by code_simp
  then have "HandleOffer sample_pion ''m=audio H264/90000'' True sample_proxy =
      (fst g, fst (snd g), Inr ''v=0 answer'')"
    by (metis g_def prod.collapse)
  from HandleOffer_releases [OF this [unfolded sample_proxy_def], THEN conjunct2, THEN mp, OF refl]
  show "open_pcs (fst (snd (HandleOffer sample_pion ''m=audio H264/90000'' True sample_proxy))) = 1"
    by (simp add: g_def)
qed

text \<open>
  The comment of \<open>HandleOffer\<close> says that the proxy is closed on error; after an offer without the
  camera's video codec it is not, and nothing was opened.
\<close>

theorem HandleOffer_codec_error_keeps_open:
  assumes "\<not> Contains (ToLower offer) ('' '' @ ToLower video @ ''/'')"
  shows "HandleOffer p offer wantAudio (NewWebRTCProxy url video audio stun') =
      (NewWebRTCProxy url video audio stun', [],
       Inl (newSessionError ErrUnsupportedCodec (''the offer does not contain video codec '' @ ToLower video)))"
    and "\<not> closed (fst (HandleOffer p offer wantAudio (NewWebRTCProxy url video audio stun')))"
proof -
  have "TrimPrefix (videoCodec (NewWebRTCProxy url video audio stun')) ''video/'' = video"
    by (simp add: NewWebRTCProxy_def TrimPrefix_def HasPrefix_def)
  then show h: "HandleOffer p offer wantAudio (NewWebRTCProxy url video audio stun') =
      (NewWebRTCProxy url video audio stun', [],
       Inl (newSessionError ErrUnsupportedCodec (''the offer does not contain video codec '' @ ToLower video)))"
    using assms by (simp add: HandleOffer_def Let_def)
  show "\<not> closed (fst (HandleOffer p offer wantAudio (NewWebRTCProxy url video audio stun')))"
    unfolding h by (simp add: NewWebRTCProxy_def)
qed

theorem HandleOffer_codec_error_keeps_open_witness:
  "\<not> closed (fst (HandleOffer sample_pion ''m=video VP8/90000'' True
      (NewWebRTCProxy ''rtsp://cam/s'' ''h264'' '''' [])))"
  by (rule HandleOffer_codec_error_keeps_open(2))
     (simp add: Contains_def HasPrefix_def ToLower_def lower_byte_def byte_val_def nat_byte_def)

section \<open>Forwarding is lossless\<close>

text \<open>
  What is forwarded is exactly the camera's RTP: of the packets the client queued for complete
  media frames, each is written once, in order, without its four bytes of framing, to the video
  track for channel 0 and to the audio track for channel 2 (nowhere, when there is no audio track).
\<close>

theorem consumeRTPPackets_lossless:
  assumes "list_all (\<lambda>f. is_media f \<and> frame_ok f) fs" and "videoTrack wp"
  shows "consumeRTPPackets (map encode_frame fs) wp =
    concat (map (\<lambda>(ch, rtp). if byte_val ch = 0 then [WriteVideo rtp]
                             else if audioTrack wp then [WriteAudio rtp] else []) fs)"
proof -
  have "forward_one (encode_frame f) wp =
      (case f of (ch, rtp) \<Rightarrow> if byte_val ch = 0 then [WriteVideo rtp]
                             else if audioTrack wp then [WriteAudio rtp] else [])"
    if "is_media f" for f
    using that assms(2)
    by (cases f) (auto simp: forward_one_def sendRTPPacket_def encode_frame_def is_media_def Let_def)
  with assms(1) show ?thesis
    by (simp add: consumeRTPPackets_def list_all_iff comp_def cong: map_cong)
qed

theorem consumeRTPPackets_lossless_witness:
  "consumeRTPPackets (map encode_frame [(CHR 0x02, test_rtp), (CHR 0x00, test_rtp)])
     (sample_proxy\<lparr>videoTrack := True\<rparr>) = [WriteVideo test_rtp]"
  by (subst consumeRTPPackets_lossless)
     (simp_all add: is_media_def frame_ok_def test_rtp_def byte_val_def sample_proxy_def NewWebRTCProxy_def)

section \<open>Masked credentials\<close>

lemma redactURL_masks_parts:
  assumes "CHR '':'' \<notin> set scheme" and "CHR ''@'' \<notin> set rest"
  shows "redactURL (scheme @ ''://'' @ cred @ ''@'' @ rest) = scheme @ ''://***@'' @ rest"
    and "CHR ''@'' \<notin> set scheme \<Longrightarrow> redactURL (scheme @ ''://'' @ rest) = scheme @ ''://'' @ rest"
proof -
  have "find_sub (scheme @ ''://'' @ t) ''://'' = Some (length scheme)" for t
    by (rule find_sub_first) (simp_all add: assms(1))
  then have i: "Index (scheme @ ''://'' @ t) ''://'' = int (length scheme)" for t
    by (simp only: Index_def option.case)
  have l: "find_last (s @ ''@'' @ rest) ''@'' = Some (length s)" for s
  proof (induction s)
    case Nil
    have "find_last rest ''@'' = None" by (simp add: find_last_single_None assms(2))
    then show ?case by (simp add: HasPrefix_def)
  qed simp
  have at: "LastIndex (scheme @ ''://'' @ cred @ ''@'' @ rest) ''@'' = int (length (scheme @ ''://'' @ cred))"
    using l [of "scheme @ ''://'' @ cred"] by (simp add: LastIndex_def)
  have "drop (length X + 1) (X @ ''@'' @ rest) = rest" for X :: string by simp
  from this [of "scheme @ ''://'' @ cred"]
  have dr: "drop (length (scheme @ ''://'' @ cred) + 1) (scheme @ ''://'' @ cred @ ''@'' @ rest) = rest"
    by (simp only: append_assoc)
  have tk: "take (length scheme + 3) (scheme @ ''://'' @ t) = scheme @ ''://''" for t by simp
  have n: "nat (int (length scheme) + 3) = length scheme + 3"
    "nat (int (length (scheme @ ''://'' @ cred)) + 1) = length (scheme @ ''://'' @ cred) + 1" by simp_all
  have c: "(int (length scheme) < 0 \<or> int (length (scheme @ ''://'' @ cred)) < int (length scheme)) = False"
    by simp
  have "redactURL (scheme @ ''://'' @ cred @ ''@'' @ rest) = (scheme @ ''://'') @ ''***@'' @ rest"
    unfolding redactURL_def Let_def i at c if_False n tk dr ..
  then show "redactURL (scheme @ ''://'' @ cred @ ''@'' @ rest) = scheme @ ''://***@'' @ rest" by simp
  assume "CHR ''@'' \<notin> set scheme"
  then have "find_last (scheme @ ''://'' @ rest) ''@'' = None"
    using assms(2) by (simp add: find_last_single_None)
  then have "LastIndex (scheme @ ''://'' @ rest) ''@'' = - 1" by (simp only: LastIndex_def option.case)
  then show "redactURL (scheme @ ''://'' @ rest) = scheme @ ''://'' @ rest"
    unfolding redactURL_def Let_def i by simp
qed

text \<open>
  A logged URL does not show the credentials: in scheme://credentials@rest the whole part
  between the scheme and the last at sign is replaced by three stars, and the logged text is the
  same for all credentials; a URL without an at sign is logged as it is.
\<close>

theorem redactURL_masks:
  assumes "CHR '':'' \<notin> set scheme" and "CHR ''@'' \<notin> set rest"
  shows "(redactURL (scheme @ ''://'' @ cred @ ''@'' @ rest) = scheme @ ''://***@'' @ rest) \<and>
    (CHR ''@'' \<notin> set scheme \<longrightarrow> redactURL (scheme @ ''://'' @ rest) = scheme @ ''://'' @ rest)"
  by (intro conjI impI) (rule redactURL_masks_parts [OF assms]; assumption?)+

theorem redactURL_masks_witness:
  "redactURL (''rtsp'' @ ''://'' @ ''admin:secret'' @ ''@'' @ ''10.0.0.1:554/s'') = ''rtsp://***@10.0.0.1:554/s''"
  using redactURL_masks [of "''rtsp''" "''10.0.0.1:554/s''" "''admin:secret''"] by simp

section \<open>Reconnections\<close>

lemma stream_frame [frame_simps, simp]:
  "waits (closing b s) = waits s" "dials (closing b s) = dials s"
  "waits (emit es s) = waits s" "dials (emit es s) = dials s" "proxy (emit es s) = proxy s"
  "effects (emit es s) = effects s @ es"
  "waits (track_client c s) = waits s" "dials (track_client c s) = dials s"
  "effects (track_client c s) = effects s"
  "waits (close_client c s) = waits s" "dials (close_client c s) = dials s"
  "effects (close_client c s) = effects s @ [CloseRTSP c]"
  "waits (set_client c s) = waits s" "dials (set_client c s) = Suc (dials s)"
  "effects (set_client c s) = effects s"
  "dials (wait_backoff n s) = dials s" "proxy (wait_backoff n s) = proxy s"
  "effects (wait_backoff n s) = effects s"
  "waits (stream_lost s) = waits s" "dials (stream_lost s) = dials s"
  by (simp_all add: closing_def emit_def track_client_def close_client_def set_client_def
      wait_backoff_def stream_lost_def split: prod.splits)

lemma stream_closed [simp]:
  "closed (proxy (track_client c s)) = closed (proxy s)"
  "closeOnce (proxy (track_client c s)) = closeOnce (proxy s)"
  "hasEnd (proxy (track_client c s)) = hasEnd (proxy s)"
  "closed (proxy (close_client c s)) = closed (proxy s)"
  "closeOnce (proxy (close_client c s)) = closeOnce (proxy s)"
  "hasEnd (proxy (close_client c s)) = hasEnd (proxy s)"
  "closed (proxy (set_client c s)) = closed (proxy s)"
  "closeOnce (proxy (set_client c s)) = closeOnce (proxy s)"
  "hasEnd (proxy (set_client c s)) = hasEnd (proxy s)"
  "closing False s = s"
  by (simp_all add: closing_def emit_def track_client_def close_client_def set_client_def)

lemma waits_backoff: "waits (wait_backoff n s) = waits s @ map backoff (filter (\<lambda>i. i > 0) [n])"
  by (simp add: wait_backoff_def)

definition all_waits :: "nat \<Rightarrow> nat \<Rightarrow> int list" where
  "all_waits n k = map backoff (filter (\<lambda>i. i > 0) [n..<k])"

lemma all_waits_step: "n < k \<Longrightarrow> waits (wait_backoff n s) @ all_waits (Suc n) k = waits s @ all_waits n k"
  by (simp add: waits_backoff all_waits_def upt_conv_Cons)

lemma attempt_bounds:
  assumes "one_attempt n a s = (s', r)"
  shows "waits s' = waits (wait_backoff n s)" and "dials s' \<le> Suc (dials s)"
  using assms by (auto simp: one_attempt_def Let_def split: if_splits prod.splits sum.splits go_exit.splits)

lemma stream_bounds:
  "stream_loop n att s = (s', e) \<Longrightarrow> n \<le> maxAttempts \<Longrightarrow>
     dials s' \<le> dials s + (maxAttempts - n) \<and>
     (\<exists>k. n \<le> k \<and> k \<le> maxAttempts \<and> waits s' = waits s @ all_waits n k)"
proof (induction n att s arbitrary: s' e rule: stream_loop.induct)
  case (1 n att s)
  show ?case
  proof (cases "n \<ge> maxAttempts")
    case True
    then show ?thesis using "1.prems"
      by (subst (asm) stream_loop.simps) (auto simp: all_waits_def)
  next
    case False
    obtain s1 r where a: "one_attempt n (att n) s = (s1, r)" by fastforce
    note b = attempt_bounds [OF a]
    show ?thesis
    proof (cases r)
      case (Some x)
      then have "s' = s1" using "1.prems"(1) False by (simp add: a stream_loop.simps [of n])
      moreover have "waits s1 = waits s @ all_waits n (Suc n)"
        using b(1) by (simp add: waits_backoff all_waits_def)
      ultimately show ?thesis using b(2) False by (intro conjI exI [of _ "Suc n"]) auto
    next
      case None
      then have "stream_loop (n + 1) att s1 = (s', e)"
        using "1.prems"(1) False by (simp add: a stream_loop.simps [of n])
      with "1.IH" [OF False a [symmetric] None this] False obtain k
        where k: "dials s' \<le> dials s1 + (maxAttempts - (n + 1))" "n + 1 \<le> k" "k \<le> maxAttempts"
          "waits s' = waits s1 @ all_waits (n + 1) k" by auto
      then have "waits s' = waits s @ all_waits n k" using b(1) all_waits_step [of n k s] by simp
      then show ?thesis using k b(2) False by (intro conjI exI [of _ k]) auto
    qed
  qed
qed

text \<open>An attempt around which nobody closes the proxy, and which does not crash the program.\<close>

definition undisturbed :: "attempt \<Rightarrow> bool" where
  "undisturbed a \<longleftrightarrow> \<not> closes_waiting a \<and> \<not> closes_dialing a \<and> \<not> closes_playing a \<and> \<not> panics (snd (connects a))"

lemma consume_no_end: "OnEnd r \<notin> set (consumeRTPPackets ps wp)"
  by (auto simp: consumeRTPPackets_def forward_one_def sendRTPPacket_def Let_def split: if_splits)

lemma consume_no_close: "CloseRTSP c \<notin> set (consumeRTPPackets ps wp)"
  by (auto simp: consumeRTPPackets_def forward_one_def sendRTPPacket_def Let_def split: if_splits)

lemma attempt_undisturbed:
  assumes "undisturbed a" and "\<not> closed (proxy s)" and "hasEnd (proxy s)"
  obtains s' es where "one_attempt n a s = (s', None)" "\<not> closed (proxy s')" "hasEnd (proxy s')"
    "dials s' = Suc (dials s)" "waits s' = waits (wait_backoff n s)" "effects s' = effects s @ es"
    "\<forall>r. OnEnd r \<notin> set es"
proof -
  obtain c r where cr: "connects a = (c, r)" by fastforce
  have a: "\<not> closes_waiting a" "\<not> closes_dialing a" "\<not> closes_playing a" "\<not> panics r"
    using assms(1) cr by (simp_all add: undisturbed_def)
  show thesis
  proof (cases r)
    case (Inl e)
    with a(4) obtain m where "e = Failed m" by (cases e) auto
    with Inl a assms show thesis
      by (intro that [of "close_client c (set_client NewRtspClient (wait_backoff n s))" "[CloseRTSP c]"])
         (auto simp: one_attempt_def cr Let_def)
  next
    case (Inr u)
    with a assms show thesis
      by (intro that [of "close_client (client_after a) (track_client (client_after a) (emit
              (consumeRTPPackets (packets a) (proxy (set_client NewRtspClient (wait_backoff n s))))
              (set_client NewRtspClient (wait_backoff n s))))"
            "consumeRTPPackets (packets a) (proxy (set_client NewRtspClient (wait_backoff n s))) @
            [CloseRTSP (client_after a)]"])
         (auto simp: one_attempt_def cr Let_def consume_no_end)
  qed
qed

lemma stream_persists:
  "n \<le> maxAttempts \<Longrightarrow> \<not> closed (proxy s) \<Longrightarrow> hasEnd (proxy s) \<Longrightarrow>
   (\<And>i. n \<le> i \<Longrightarrow> i < maxAttempts \<Longrightarrow> undisturbed (att i)) \<Longrightarrow>
     \<exists>s' es. stream_loop n att s = (s', StreamLost) \<and> dials s' = dials s + (maxAttempts - n) \<and>
       waits s' = waits s @ all_waits n maxAttempts \<and>
       effects s' = effects s @ es @ [OnEnd ByeSourceLost] \<and> (\<forall>r. OnEnd r \<notin> set es)"
proof (induction n att s rule: stream_loop.induct)
  case (1 n att s)
  show ?case
  proof (cases "n \<ge> maxAttempts")
    case True
    then show ?thesis using "1.prems"
      by (subst stream_loop.simps) (auto simp: all_waits_def stream_lost_def proxy_end_def)
  next
    case False
    then have "undisturbed (att n)" using "1.prems"(4) [of n] by simp
    from attempt_undisturbed [OF this "1.prems"(2,3), of n] obtain s1 es1
      where a: "one_attempt n (att n) s = (s1, None)" "\<not> closed (proxy s1)" "hasEnd (proxy s1)"
        "dials s1 = Suc (dials s)" "waits s1 = waits (wait_backoff n s)" "effects s1 = effects s @ es1"
        "\<forall>r. OnEnd r \<notin> set es1" by metis
    have "\<exists>s' es. stream_loop (n + 1) att s1 = (s', StreamLost) \<and> dials s' = dials s1 + (maxAttempts - (n + 1)) \<and>
       waits s' = waits s1 @ all_waits (n + 1) maxAttempts \<and>
       effects s' = effects s1 @ es @ [OnEnd ByeSourceLost] \<and> (\<forall>r. OnEnd r \<notin> set es)"
      using "1.IH" [OF False a(1) [symmetric] refl _ a(2,3)] "1.prems"(4) False by simp
    then obtain s' es where b: "stream_loop (n + 1) att s1 = (s', StreamLost)"
      "dials s' = dials s1 + (maxAttempts - (n + 1))" "waits s' = waits s1 @ all_waits (n + 1) maxAttempts"
      "effects s' = effects s1 @ es @ [OnEnd ByeSourceLost]" "\<forall>r. OnEnd r \<notin> set es" by blast
    have "waits s' = waits s @ all_waits n maxAttempts"
      using b(3) a(5) all_waits_step [of n maxAttempts s] False by simp
    moreover have "stream_loop n att s = (s', StreamLost)"
      using False a(1) b(1) by (simp add: stream_loop.simps [of n])
    ultimately show ?thesis
      using a b(2,4,5) False by (intro exI [of _ s'] exI [of _ "es1 @ es"]) auto
  qed
qed

lemma all_waits_values: "all_waits 0 maxAttempts = [1, 2, 4, 8]"
  by (simp add: all_waits_def maxAttempts_def backoff_def upt_rec)

lemma all_waits_prefix: "k \<le> maxAttempts \<Longrightarrow> \<exists>j. all_waits 0 k = take j [1, 2, 4, 8]"
proof -
  assume "k \<le> maxAttempts"
  then have "[0..<maxAttempts] = [0..<k] @ [k..<maxAttempts]"
    using upt_add_eq_append [of 0 k "maxAttempts - k"] by simp
  then have "all_waits 0 maxAttempts = all_waits 0 k @ all_waits k maxAttempts"
    by (simp add: all_waits_def)
  then show ?thesis using all_waits_values by (metis append_eq_conv_conj)
qed

lemma StartRTSPStream_attempts_parts:
  assumes "StartRTSPStream att wp = (s, e)"
  shows "dials s \<le> 5" and "\<exists>k. waits s = take k [1, 2, 4, 8]"
    and "\<not> closed wp \<Longrightarrow> hasEnd wp \<Longrightarrow> (\<And>i. i < 5 \<Longrightarrow> undisturbed (att i)) \<Longrightarrow>
       e = StreamLost \<and> dials s = 5 \<and> waits s = [1, 2, 4, 8] \<and>
       (\<exists>es. effects s = es @ [OnEnd ''source_lost''] \<and> (\<forall>r. OnEnd r \<notin> set es))"
proof -
  define s0 where "s0 = \<lparr>proxy = wp, effects = [], waits = [], dials = 0\<rparr>"
  have l: "stream_loop 0 att s0 = (s, e)" using assms by (simp add: StartRTSPStream_def s0_def)
  from stream_bounds [OF l] obtain k where "dials s \<le> 5" "k \<le> maxAttempts" "waits s = all_waits 0 k"
    by (auto simp: s0_def maxAttempts_def)
  then show "dials s \<le> 5" "\<exists>k. waits s = take k [1, 2, 4, 8]" using all_waits_prefix by auto
  assume a: "\<not> closed wp" "hasEnd wp" "\<And>i. i < 5 \<Longrightarrow> undisturbed (att i)"
  have "\<not> closed (proxy s0)" "hasEnd (proxy s0)" using a by (simp_all add: s0_def)
  from stream_persists [OF _ this, of 0 att] a(3)
  have "\<exists>s' es. stream_loop 0 att s0 = (s', StreamLost) \<and> dials s' = 5 \<and>
      waits s' = all_waits 0 maxAttempts \<and> effects s' = es @ [OnEnd ByeSourceLost] \<and> (\<forall>r. OnEnd r \<notin> set es)"
    by (simp add: s0_def maxAttempts_def)
  then show "e = StreamLost \<and> dials s = 5 \<and> waits s = [1, 2, 4, 8] \<and>
      (\<exists>es. effects s = es @ [OnEnd ''source_lost''] \<and> (\<forall>r. OnEnd r \<notin> set es))"
    using l by (auto simp: all_waits_values ByeSourceLost_def)
qed

text \<open>
  C22: a session's stream is dialled at most five times in all, whatever happens, waiting 1, 2, 4 and
  8 seconds in between. When nobody closes the session it is dialled exactly five times and then
  ended once, with reason \<open>source_lost\<close>: this is one connection and four reconnections (the README
  promises five), and the count is never reset, so that a stream that played for days also ends at its
  fifth interruption.
\<close>

theorem StartRTSPStream_attempts:
  assumes "StartRTSPStream att wp = (s, e)"
  shows "dials s \<le> 5 \<and> (\<exists>k. waits s = take k [1, 2, 4, 8]) \<and>
    (\<not> closed wp \<longrightarrow> hasEnd wp \<longrightarrow> (\<forall>i < 5. undisturbed (att i)) \<longrightarrow>
       e = StreamLost \<and> dials s = 5 \<and> waits s = [1, 2, 4, 8] \<and>
       (\<exists>es. effects s = es @ [OnEnd ''source_lost''] \<and> (\<forall>r. OnEnd r \<notin> set es)))"
  using StartRTSPStream_attempts_parts [OF assms] by blast

definition played_attempt :: attempt where
  "played_attempt = \<lparr>closes_waiting = False, closes_dialing = False, connects = (NewRtspClient, Inr ()),
     packets = [encode_frame (CHR 0x00, test_rtp)], closes_playing = False, client_after = NewRtspClient\<rparr>"

theorem StartRTSPStream_attempts_witness:
  "snd (StartRTSPStream (\<lambda>_. played_attempt) (sample_proxy\<lparr>hasEnd := True\<rparr>)) = StreamLost \<and>
   waits (fst (StartRTSPStream (\<lambda>_. played_attempt) (sample_proxy\<lparr>hasEnd := True\<rparr>))) = [1, 2, 4, 8]"
proof -
  obtain s e where h: "StartRTSPStream (\<lambda>_. played_attempt) (sample_proxy\<lparr>hasEnd := True\<rparr>) = (s, e)"
    by fastforce
  have "e = StreamLost \<and> dials s = 5 \<and> waits s = [1, 2, 4, 8] \<and>
       (\<exists>es. effects s = es @ [OnEnd ''source_lost''] \<and> (\<forall>r. OnEnd r \<notin> set es))"
    by (rule StartRTSPStream_attempts [OF h, THEN conjunct2, THEN conjunct2, rule_format])
       (simp_all add: sample_proxy_def NewWebRTCProxy_def undisturbed_def played_attempt_def)
  then show ?thesis by (simp add: h)
qed

section \<open>Closing the connections of the stream\<close>

lemma closing_releases:
  assumes "closed (proxy s) = closeOnce (proxy s)"
  shows "closed (proxy (closing b s)) = closeOnce (proxy (closing b s))"
    and "\<exists>es. effects (closing b s) = effects s @ es"
    and "\<not> closed (proxy s) \<Longrightarrow> closed (proxy (closing b s)) \<Longrightarrow> rtspClient (proxy s) = Some c \<Longrightarrow>
       CloseRTSP c \<in> set (effects (closing b s))"
  using assms by (auto simp: closing_def proxy_Close_def)

text \<open>The client an attempt leaves behind.\<close>

definition left_client :: "attempt \<Rightarrow> RtspClient" where
  "left_client a = (case connects a of (c, Inr _) \<Rightarrow> client_after a | (c, Inl _) \<Rightarrow> c)"

lemma attempt_releases:
  assumes "one_attempt n a s = (s', r)" and "closed (proxy s) = closeOnce (proxy s)"
    and "\<not> closes_dialing a" and "\<not> panics (snd (connects a))"
  shows "closed (proxy s') = closeOnce (proxy s')" and "\<exists>es. effects s' = effects s @ es"
    and "dials s' = dials s \<and> r \<noteq> None \<or> dials s' = Suc (dials s) \<and> CloseRTSP (left_client a) \<in> set (effects s')"
proof -
  define s1 where "s1 = closing (closes_waiting a) (wait_backoff n s)"
  define s2 where "s2 = set_client NewRtspClient s1"
  obtain es1 where s1: "closed (proxy s1) = closeOnce (proxy s1)" "effects s1 = effects s @ es1"
    "dials s1 = dials s"
    using closing_releases(1,2) [of "wait_backoff n s" "closes_waiting a"] assms(2) by (auto simp: s1_def)
  then have s2: "closed (proxy s2) = closeOnce (proxy s2)" "effects s2 = effects s @ es1"
    "dials s2 = Suc (dials s)" "rtspClient (proxy s2) = Some NewRtspClient" "closed (proxy s2) = closed (proxy s1)"
    by (simp_all add: s2_def) (simp add: set_client_def)
  obtain c q where cr: "connects a = (c, q)" by fastforce
  have at: "one_attempt n a s =
      (if closed (proxy s1) then (s1, Some StreamClosed)
       else case q of
              Inl (Panicked e) \<Rightarrow> (s2, Some (StreamPanic e))
            | Inl (Failed _) \<Rightarrow> (close_client c s2, None)
            | Inr _ \<Rightarrow>
                (let s3 = track_client (client_after a) (emit (consumeRTPPackets (packets a) (proxy s2)) s2);
                     s4 = closing (closes_playing a) s3
                 in if closed (proxy s4) then (s4, Some StreamClosed)
                    else (close_client (client_after a) s4, None)))"
    using assms(3) by (auto simp: one_attempt_def Let_def cr s1_def [symmetric] s2_def [symmetric] split: sum.split go_exit.split)
  have "closed (proxy s') = closeOnce (proxy s') \<and> (\<exists>es. effects s' = effects s @ es) \<and>
     (dials s' = dials s \<and> r \<noteq> None \<or> dials s' = Suc (dials s) \<and> CloseRTSP (left_client a) \<in> set (effects s'))"
  proof (cases "closed (proxy s1)")
    case True
    then show ?thesis using assms(1) s1 by (auto simp: at)
  next
    case op: False
    show ?thesis
    proof (cases q)
      case (Inl e)
      then show ?thesis using assms(1,4) s2 op cr by (cases e) (auto simp: at left_client_def)
    next
      case (Inr u)
      define s3 where "s3 = track_client (client_after a) (emit (consumeRTPPackets (packets a) (proxy s2)) s2)"
      have s3: "closed (proxy s3) = closeOnce (proxy s3)" "\<exists>es. effects s3 = effects s @ es"
        "dials s3 = Suc (dials s)" "rtspClient (proxy s3) = Some (client_after a)" "\<not> closed (proxy s3)"
        using s2 op by (simp_all add: s3_def) (simp add: track_client_def)
      note c3 = closing_releases [OF s3(1), of "closes_playing a"]
      show ?thesis
        using assms(1) c3(1,2) c3(3) [OF s3(5) _ s3(4)] s3 op Inr
        by (auto simp: at left_client_def cr s3_def [symmetric] Let_def split: if_splits)
    qed
  qed
  then show "closed (proxy s') = closeOnce (proxy s')" "\<exists>es. effects s' = effects s @ es"
    "dials s' = dials s \<and> r \<noteq> None \<or> dials s' = Suc (dials s) \<and> CloseRTSP (left_client a) \<in> set (effects s')"
    by blast+
qed

lemma stream_releases:
  "stream_loop n att s = (s', e) \<Longrightarrow> closed (proxy s) = closeOnce (proxy s) \<Longrightarrow> dials s = n \<Longrightarrow>
   (\<And>i. \<not> closes_dialing (att i) \<and> \<not> panics (snd (connects (att i)))) \<Longrightarrow>
     (\<exists>es. effects s' = effects s @ es) \<and>
     (\<forall>i. n \<le> i \<and> i < dials s' \<longrightarrow> CloseRTSP (left_client (att i)) \<in> set (effects s'))"
proof (induction n att s arbitrary: s' e rule: stream_loop.induct)
  case (1 n att s)
  show ?case
  proof (cases "n \<ge> maxAttempts")
    case True
    then have "s' = stream_lost s" using "1.prems"(1) by (simp add: stream_loop.simps [of n])
    then show ?thesis using "1.prems"(3) by (auto simp: stream_lost_def split: prod.splits)
  next
    case False
    obtain s1 r where a: "one_attempt n (att n) s = (s1, r)" by fastforce
    note rel = attempt_releases [OF a "1.prems"(2)] "1.prems"(4) [of n]
    show ?thesis
    proof (cases r)
      case (Some x)
      then have "s' = s1" using "1.prems"(1) False by (simp add: a stream_loop.simps [of n])
      moreover have "i = n" if "n \<le> i" "i < Suc n" for i using that by simp
      ultimately show ?thesis using rel "1.prems"(3) by (metis less_irrefl_nat order_le_less_trans)
    next
      case None
      then have "stream_loop (n + 1) att s1 = (s', e)"
        using "1.prems"(1) False by (simp add: a stream_loop.simps [of n])
      moreover have d: "dials s1 = n + 1" "CloseRTSP (left_client (att n)) \<in> set (effects s1)"
        using rel None "1.prems"(3) by auto
      ultimately have ih: "(\<exists>es. effects s' = effects s1 @ es) \<and>
          (\<forall>i. n + 1 \<le> i \<and> i < dials s' \<longrightarrow> CloseRTSP (left_client (att i)) \<in> set (effects s'))"
        using "1.IH" [OF False a [symmetric] None] rel(1) "1.prems"(4) by blast
      then have "CloseRTSP (left_client (att n)) \<in> set (effects s')" using d(2) by auto
      moreover have "\<exists>es. effects s' = effects s @ es" using ih rel by (metis append.assoc)
      ultimately show ?thesis using ih by (metis add.commute le_neq_implies_less plus_1_eq_Suc Suc_leI)
    qed
  qed
qed

text \<open>
  C23: the stream closes what it opens: as long as no \<open>Close\<close> of the session falls into a dial, every
  client that was dialled, whether it failed, played to its end or was interrupted by the end of the
  session, has been closed when the stream ends, by the stream or by the session.
\<close>

theorem StartRTSPStream_releases:
  assumes "StartRTSPStream att wp = (s, e)" and "closed wp \<longleftrightarrow> closeOnce wp"
    and "\<And>i. \<not> closes_dialing (att i) \<and> \<not> panics (snd (connects (att i)))" and "i < dials s"
  shows "CloseRTSP (left_client (att i)) \<in> set (effects s)"
proof -
  have "stream_loop 0 att \<lparr>proxy = wp, effects = [], waits = [], dials = 0\<rparr> = (s, e)"
    using assms(1) by (simp add: StartRTSPStream_def)
  from stream_releases [OF this _ _ assms(3)] assms(2,4) show ?thesis by simp
qed

theorem StartRTSPStream_releases_witness:
  "CloseRTSP NewRtspClient \<in>
     set (effects (fst (StartRTSPStream (\<lambda>_. played_attempt\<lparr>closes_playing := True\<rparr>) sample_proxy)))"
proof -
  let ?a = "played_attempt\<lparr>closes_playing := True\<rparr>"
  obtain s e where h: "StartRTSPStream (\<lambda>_. ?a) sample_proxy = (s, e)" by fastforce
  have "dials s = 1"
    using h by (simp add: StartRTSPStream_def stream_loop.simps one_attempt_def maxAttempts_def Let_def
        sample_proxy_def NewWebRTCProxy_def played_attempt_def closing_def proxy_Close_def
        wait_backoff_def set_client_def emit_def track_client_def split: if_splits) auto
  then have "CloseRTSP (left_client ?a) \<in> set (effects s)"
    by (intro StartRTSPStream_releases [OF h])
       (simp_all add: sample_proxy_def NewWebRTCProxy_def played_attempt_def)
  moreover have "left_client ?a = NewRtspClient" by (simp add: left_client_def played_attempt_def)
  ultimately show ?thesis by (simp only: h fst_conv)
qed

text \<open>
  C24: a \<open>Close\<close> of the session that falls into the dial is lost on the client: it finds no connection
  to close, and the stream, once connected, leaves without closing it; nothing that is closed in the
  whole run has a connection, so the camera's connection and its read loop stay open.
\<close>

theorem StartRTSPStream_leaks:
  assumes "\<not> closed wp" and "\<not> closeOnce wp" and "\<not> closes_waiting (att 0)" and "closes_dialing (att 0)"
    and "connects (att 0) = (c, Inr ())"
  shows "\<exists>s. StartRTSPStream att wp = (s, StreamClosed) \<and> dials s = 1 \<and>
     (\<forall>c'. CloseRTSP c' \<in> set (effects s) \<longrightarrow> socket c' = None)"
proof -
  define s0 where "s0 = \<lparr>proxy = wp, effects = [], waits = [], dials = 0\<rparr>"
  define s1 where "s1 = closing True (set_client NewRtspClient s0)"
  define s2 where "s2 = track_client (client_after (att 0)) (emit (consumeRTPPackets (packets (att 0)) (proxy s1)) s1)"
  have "closed (proxy s0) = False" "effects s0 = []" "dials s0 = 0" "wait_backoff 0 s0 = s0"
    using assms(1) by (simp_all add: s0_def wait_backoff_def)
  then have s1: "closed (proxy s1)" "closeOnce (proxy s1)" "dials s1 = 1"
    "effects s1 = (if pc wp then [ClosePC] else []) @ [CloseRTSP NewRtspClient]"
    using assms(2) by (simp_all add: s1_def closing_def proxy_Close_def set_client_def s0_def)
  then have s2: "closed (proxy s2)" "closing b s2 = s2" for b
    by (auto simp: s2_def closing_def proxy_Close_def track_client_def)
  have "StartRTSPStream att wp = (s2, StreamClosed)"
    using assms s2
    by (simp add: StartRTSPStream_def stream_loop.simps one_attempt_def maxAttempts_def Let_def
        wait_backoff_def s0_def [symmetric] s1_def [symmetric] s2_def [symmetric]) (simp add: s0_def)
  moreover have "socket c' = None" if "CloseRTSP c' \<in> set (effects s2)" for c'
    using that s1(4) consume_no_close by (auto simp: s2_def NewRtspClient_def split: if_splits)
  ultimately show ?thesis using s1(3) by (auto simp: s2_def)
qed

theorem StartRTSPStream_leaks_witness:
  "\<exists>s. StartRTSPStream (\<lambda>_. played_attempt\<lparr>closes_dialing := True\<rparr>) sample_proxy = (s, StreamClosed) \<and> dials s = 1 \<and>
     (\<forall>c'. CloseRTSP c' \<in> set (effects s) \<longrightarrow> socket c' = None)"
  by (rule StartRTSPStream_leaks)
     (simp_all add: sample_proxy_def NewWebRTCProxy_def played_attempt_def)

section \<open>The connection's state machine\<close>

text \<open>What happens to a proxy: connection states, the firing of the timer, and closing.\<close>

datatype wp_event = ConnState PeerConnectionState | TimerFires | CloseCalled

fun wp_step :: "wp_event \<Rightarrow> WebRTCProxy \<Rightarrow> WebRTCProxy \<times> wp_effect list" where
  "wp_step (ConnState st) wp = handleConnectionState st wp"
| "wp_step TimerFires wp = disconnect_fires wp"
| "wp_step CloseCalled wp = proxy_Close wp"

fun wp_run :: "wp_event list \<Rightarrow> WebRTCProxy \<Rightarrow> WebRTCProxy \<times> wp_effect list" where
  "wp_run [] wp = (wp, [])"
| "wp_run (e # es) wp =
     (let (wp1, fs) = wp_step e wp; (wp2, gs) = wp_run es wp1 in (wp2, fs @ gs))"

lemma wp_run_append:
  "wp_run (es @ es') wp =
     (let (wp1, fs) = wp_run es wp; (wp2, gs) = wp_run es' wp1 in (wp2, fs @ gs))"
  by (induction es arbitrary: wp) (auto simp: Let_def split: prod.splits)

text \<open>The abstract connection: whether it was ever connected, is disconnected, is closed.\<close>

record conn =
  was_connected :: bool
  is_disconnected :: bool
  is_closed :: bool

fun conn_step :: "wp_event \<Rightarrow> conn \<Rightarrow> conn" where
  "conn_step (ConnState st) c =
     (if is_closed c then c
      else c\<lparr>is_disconnected := (st = StateDisconnected),
             was_connected := was_connected c \<or> st = StateConnected\<rparr>)"
| "conn_step TimerFires c = c"
| "conn_step CloseCalled c = c\<lparr>is_closed := True\<rparr>"

definition conn_abs :: "WebRTCProxy \<Rightarrow> conn" where
  "conn_abs wp = \<lparr>was_connected = started wp, is_disconnected = (disconnectTimer wp \<noteq> None),
     is_closed = closed wp\<rparr>"

definition wp_inv :: "WebRTCProxy \<Rightarrow> bool" where
  "wp_inv wp \<longleftrightarrow> hasEnd wp \<and> hasConnected wp \<and> (closed wp \<longleftrightarrow> closeOnce wp) \<and>
     (closed wp \<longrightarrow> \<not> pc wp \<and> disconnectTimer wp \<noteq> Some Running) \<and>
     (\<not> closed wp \<longrightarrow> disconnectTimer wp \<noteq> Some Stopped)"

lemma wp_step_refines:
  assumes "wp_inv wp" and "wp_step e wp = (wp', es)"
  shows "wp_inv wp'" and "conn_abs wp' = conn_step e (conn_abs wp)"
    and "StartRTSP \<in> set es \<longleftrightarrow> started wp' \<and> \<not> started wp" and "length (filter (\<lambda>x. x = StartRTSP) es) \<le> 1"
    and "closed wp \<Longrightarrow> es = []"
    and "OnEnd r \<in> set es \<longleftrightarrow> r = ByeICEFailed \<and> \<not> closed wp \<and>
           (e = ConnState StateFailed \<or> e = TimerFires \<and> is_disconnected (conn_abs wp))"
proof -
  have "wp_inv wp' \<and> conn_abs wp' = conn_step e (conn_abs wp) \<and>
      (StartRTSP \<in> set es \<longleftrightarrow> started wp' \<and> \<not> started wp) \<and> length (filter (\<lambda>x. x = StartRTSP) es) \<le> 1 \<and>
      (closed wp \<longrightarrow> es = []) \<and>
      (OnEnd r \<in> set es \<longleftrightarrow> r = ByeICEFailed \<and> \<not> closed wp \<and>
           (e = ConnState StateFailed \<or> e = TimerFires \<and> is_disconnected (conn_abs wp)))"
  proof (cases e)
    case (ConnState st)
    then show ?thesis
      using assms by (cases st)
        (auto simp: handleConnectionState_def stop_disconnect_def proxy_end_def wp_inv_def conn_abs_def
          Let_def split: if_splits)
  next
    case TimerFires
    then show ?thesis
      using assms by (cases "disconnectTimer wp"; cases "the (disconnectTimer wp)")
        (auto simp: disconnect_fires_def proxy_end_def wp_inv_def conn_abs_def split: if_splits)
  next
    case CloseCalled
    then show ?thesis
      using assms by (auto simp: proxy_Close_def wp_inv_def conn_abs_def split: if_splits option.splits)
  qed
  then show "wp_inv wp'" "conn_abs wp' = conn_step e (conn_abs wp)"
    "StartRTSP \<in> set es \<longleftrightarrow> started wp' \<and> \<not> started wp" "length (filter (\<lambda>x. x = StartRTSP) es) \<le> 1"
    "closed wp \<Longrightarrow> es = []"
    "OnEnd r \<in> set es \<longleftrightarrow> r = ByeICEFailed \<and> \<not> closed wp \<and>
       (e = ConnState StateFailed \<or> e = TimerFires \<and> is_disconnected (conn_abs wp))" by blast+
qed

lemma wp_run_refines:
  assumes "wp_inv wp"
  shows "wp_inv (fst (wp_run es wp)) \<and> conn_abs (fst (wp_run es wp)) = fold conn_step es (conn_abs wp) \<and>
     length (filter (\<lambda>x. x = StartRTSP) (snd (wp_run es wp))) =
       (if was_connected (fold conn_step es (conn_abs wp)) \<and> \<not> started wp then 1 else 0)"
  using assms
proof (induction es arbitrary: wp)
  case Nil
  then show ?case by (simp add: conn_abs_def)
next
  case (Cons e es)
  obtain wp1 fs where s: "wp_step e wp = (wp1, fs)" by fastforce
  note r = wp_step_refines(1-4) [OF Cons.prems s]
  have mono: "was_connected (fold conn_step xs c)" if "was_connected c" for xs c
    using that
  proof (induction xs arbitrary: c)
    case (Cons x xs)
    have "was_connected (conn_step x c)" using Cons.prems by (cases "(x, c)" rule: conn_step.cases) auto
    with Cons.IH show ?case by simp
  qed simp
  have n: "length (filter (\<lambda>x. x = StartRTSP) fs) = (if started wp1 \<and> \<not> started wp then 1 else 0)"
  proof (cases "StartRTSP \<in> set fs")
    case True
    then have "filter (\<lambda>x. x = StartRTSP) fs \<noteq> []" by (auto simp: filter_empty_conv)
    then have "length (filter (\<lambda>x. x = StartRTSP) fs) = 1"
      using r(4) by (cases "filter (\<lambda>x. x = StartRTSP) fs") auto
    then show ?thesis using True r(3) by auto
  next
    case False
    then show ?thesis using r(3) by (auto simp: filter_empty_conv)
  qed
  have keep: "started wp1" if "started wp"
  proof -
    have "was_connected (conn_step e (conn_abs wp))"
      using mono [of "conn_abs wp" "[e]"] that by (simp add: conn_abs_def)
    then show ?thesis unfolding r(2) [symmetric] by (simp add: conn_abs_def)
  qed
  have "was_connected (fold conn_step es (conn_abs wp1))" if "started wp1"
    by (rule mono) (simp add: that conn_abs_def)
  then show ?case
    using Cons.IH [OF r(1)] r(2) n keep
    by (cases "started wp"; cases "started wp1") (auto simp: s Let_def split: prod.splits)
qed

lemma connection_refines_parts:
  fixes es url video audio servers
  defines "wp \<equiv> (NewWebRTCProxy url video audio servers)\<lparr>pc := True, hasEnd := True, hasConnected := True\<rparr>"
    and "a \<equiv> fold conn_step es \<lparr>was_connected = False, is_disconnected = False, is_closed = False\<rparr>"
  shows "conn_abs (fst (wp_run es wp)) = a"
    and "length (filter (\<lambda>x. x = StartRTSP) (snd (wp_run es wp))) = (if was_connected a then 1 else 0)"
    and "OnEnd r \<in> set (snd (wp_step TimerFires (fst (wp_run es wp)))) \<longleftrightarrow>
           r = ''ice_failed'' \<and> is_disconnected a \<and> \<not> is_closed a"
proof -
  have inv: "wp_inv wp" by (simp add: wp_def wp_inv_def NewWebRTCProxy_def)
  have a0: "conn_abs wp = \<lparr>was_connected = False, is_disconnected = False, is_closed = False\<rparr>"
    and st: "\<not> started wp"
    by (simp_all add: wp_def conn_abs_def NewWebRTCProxy_def)
  note r = wp_run_refines [OF inv, of es, unfolded a0, folded a_def]
  show c: "conn_abs (fst (wp_run es wp)) = a" using r by blast
  show "length (filter (\<lambda>x. x = StartRTSP) (snd (wp_run es wp))) = (if was_connected a then 1 else 0)"
    using r st by simp
  obtain w fs where w: "wp_step TimerFires (fst (wp_run es wp)) = (w, fs)" by fastforce
  have "wp_inv (fst (wp_run es wp))" using r by blast
  from wp_step_refines(6) [OF this w, of r]
  show "OnEnd r \<in> set (snd (wp_step TimerFires (fst (wp_run es wp)))) \<longleftrightarrow>
      r = ''ice_failed'' \<and> is_disconnected a \<and> \<not> is_closed a"
    unfolding w snd_conv c by (simp add: ByeICEFailed_def c [symmetric]) (auto simp: conn_abs_def)
qed

text \<open>
  C20: the connection follows the machine of the protocol: after any sequence of connection states,
  timer expiries and closings, the proxy of a session is connected-once, disconnected and closed
  exactly as the abstract connection is; the RTSP stream was started once if the connection was ever
  established and never otherwise; and the grace timer, when it fires, ends the session as
  \<open>ice_failed\<close> exactly if the connection is open and at that time still disconnected.
\<close>

theorem connection_refines:
  fixes es url video audio servers
  defines "wp \<equiv> (NewWebRTCProxy url video audio servers)\<lparr>pc := True, hasEnd := True, hasConnected := True\<rparr>"
    and "a \<equiv> fold conn_step es \<lparr>was_connected = False, is_disconnected = False, is_closed = False\<rparr>"
  shows "(conn_abs (fst (wp_run es wp)) = a) \<and>
    (length (filter (\<lambda>x. x = StartRTSP) (snd (wp_run es wp))) = (if was_connected a then 1 else 0)) \<and>
    (OnEnd r \<in> set (snd (wp_step TimerFires (fst (wp_run es wp)))) \<longleftrightarrow>
           r = ''ice_failed'' \<and> is_disconnected a \<and> \<not> is_closed a)"
  unfolding wp_def a_def by (intro conjI) (rule connection_refines_parts)+

section \<open>Addresses\<close>

text \<open>The 32-bit value of an IPv4 address, and membership in a block given by its base and length.\<close>

definition ip_word :: "IP \<Rightarrow> 32 word" where
  "ip_word ip = (case ip of [a, b, c, d] \<Rightarrow> word_of_nat (((a * 256 + b) * 256 + c) * 256 + d) | _ \<Rightarrow> 0)"

definition in_block :: "IP \<Rightarrow> nat \<Rightarrow> IP \<Rightarrow> bool" where
  "in_block base n ip \<longleftrightarrow> drop_bit (32 - n) (ip_word ip) = drop_bit (32 - n) (ip_word base)"

lemma ip_word_drop:
  assumes "a < 256" "b < 256" "c < 256" "d < 256"
  shows "unat (drop_bit k (ip_word [a, b, c, d])) = (((a * 256 + b) * 256 + c) * 256 + d) div 2 ^ k"
proof -
  define n where "n = ((a * 256 + b) * 256 + c) * 256 + d"
  have "n < 2 ^ 32" using assms by (simp add: n_def)
  then have u: "unat (word_of_nat n :: 32 word) = n" by (simp add: unat_of_nat)
  have w: "ip_word [a, b, c, d] = word_of_nat n" by (simp only: ip_word_def list.case n_def)
  show ?thesis unfolding w n_def [symmetric] unat_drop_bit_eq drop_bit_nat_def u ..
qed

text \<open>
  On IPv4 addresses, given in four bytes or mapped into sixteen, \<open>isPrivateOrLinkLocalIP\<close> is
  membership in one of the blocks 10.0.0.0/8, 172.16.0.0/12, 192.168.0.0/16 and 169.254.0.0/16.
\<close>

theorem isPrivateOrLinkLocalIP_blocks:
  assumes "a < 256" "b < 256" "c < 256" "d < 256" and "ip = [a, b, c, d] \<or> ip = v4_prefix @ [a, b, c, d]"
  shows "isPrivateOrLinkLocalIP ip \<longleftrightarrow>
     in_block [10, 0, 0, 0] 8 [a, b, c, d] \<or> in_block [172, 16, 0, 0] 12 [a, b, c, d] \<or>
     in_block [192, 168, 0, 0] 16 [a, b, c, d] \<or> in_block [169, 254, 0, 0] 16 [a, b, c, d]"
proof -
  have t: "To4 ip = Some [a, b, c, d]" using assms(5) by (auto simp: To4_def v4_prefix_def)
  define v :: "nat \<Rightarrow> nat \<Rightarrow> nat \<Rightarrow> nat \<Rightarrow> nat"
    where "v = (\<lambda>x y z w. ((x * 256 + y) * 256 + z) * 256 + w)"
  have blk: "in_block [x, y, z, w] n [a, b, c, d] \<longleftrightarrow> v a b c d div 2 ^ (32 - n) = v x y z w div 2 ^ (32 - n)"
    if "x < 256" "y < 256" "z < 256" "w < 256" for x y z w n
    unfolding in_block_def word_unat_eq_iff v_def by (simp only: ip_word_drop assms(1-4) that)
  have q: "(x * 256 + r) div 256 = x" if "r < 256" for x r :: nat using that by simp
  have dv: "v x y z w div 65536 = x * 256 + y" "v x y z w div 16777216 = x"
    "v x y z w div 1048576 = x * 16 + y div 16"
    if "x < 256" "y < 256" "z < 256" "w < 256" for x y z w
  proof -
    have "(65536::nat) = 256 * 256" "(16777216::nat) = 256 * 256 * 256" "(1048576::nat) = 256 * 256 * 16"
      by simp_all
    moreover have "(x * 256 + y) div 16 = x * 16 + y div 16" by simp
    ultimately show "v x y z w div 65536 = x * 256 + y" "v x y z w div 16777216 = x"
      "v x y z w div 1048576 = x * 16 + y div 16"
      using q that unfolding v_def by (simp_all only: div_mult2_eq)
  qed
  have split: "x * m + r = y * m + r' \<longleftrightarrow> x = y \<and> r = r'" if "r < m" "r' < m" for x y r r' m :: nat
    using that by (metis add.commute add_left_cancel div_mult_self3 div_less add_cancel_right_left less_nat_zero_code)
  have "in_block [10, 0, 0, 0] 8 [a, b, c, d] \<longleftrightarrow> a = 10"
    by (simp add: blk dv assms(1-4))
  moreover have "in_block [172, 16, 0, 0] 12 [a, b, c, d] \<longleftrightarrow> a * 16 + b div 16 = 172 * 16 + 1"
    by (simp add: blk dv assms(1-4))
  then have "in_block [172, 16, 0, 0] 12 [a, b, c, d] \<longleftrightarrow> a = 172 \<and> b div 16 = 1"
    using assms(2) by (subst (asm) split) auto
  then have "in_block [172, 16, 0, 0] 12 [a, b, c, d] \<longleftrightarrow> a = 172 \<and> 16 \<le> b \<and> b \<le> 31"
    by auto
  moreover have "in_block [192, 168, 0, 0] 16 [a, b, c, d] \<longleftrightarrow> a * 256 + b = 192 * 256 + 168"
    "in_block [169, 254, 0, 0] 16 [a, b, c, d] \<longleftrightarrow> a * 256 + b = 169 * 256 + 254"
    by (simp_all add: blk dv assms(1-4))
  then have "in_block [192, 168, 0, 0] 16 [a, b, c, d] \<longleftrightarrow> a = 192 \<and> b = 168"
    "in_block [169, 254, 0, 0] 16 [a, b, c, d] \<longleftrightarrow> a = 169 \<and> b = 254"
    using assms(2) by (simp_all only: split) 
  ultimately show ?thesis by (auto simp: isPrivateOrLinkLocalIP_def t)
qed

theorem isPrivateOrLinkLocalIP_blocks_witness:
  "isPrivateOrLinkLocalIP [172, 31, 0, 1] \<longleftrightarrow>
     in_block [10, 0, 0, 0] 8 [172, 31, 0, 1] \<or> in_block [172, 16, 0, 0] 12 [172, 31, 0, 1] \<or>
     in_block [192, 168, 0, 0] 16 [172, 31, 0, 1] \<or> in_block [169, 254, 0, 0] 16 [172, 31, 0, 1]"
  by (rule isPrivateOrLinkLocalIP_blocks) simp_all
end
