(* ===== verification/Media.thy ===== *)
theory Media imports WebRtc "HOL-Library.Sublist" begin

text \<open>
  The path of the media, from the bytes of the camera to the tracks of the PeerConnection. Two goroutines
  share the queue \<open>received\<close> of a client: the read loop of \<open>rtsp_client.go\<close>, which fills it
  (\<open>handleTCPPackets\<close>), and \<open>consumeRTPPackets\<close> of \<open>webrtc.go\<close>, which empties it. Each call of the first and
  each receive of the second is one step; the steps come in any order.
\<close>

section \<open>Reader and consumer\<close>

datatype media_turn = Reads | Takes

text \<open>The receive of \<open>consumeRTPPackets\<close>: an empty queue makes it wait.\<close>

definition take_packet :: "WebRTCProxy \<Rightarrow> RtspClient \<Rightarrow> RtspClient \<times> wp_effect list" where
  "take_packet wp rc =
     (case received rc of
        [] \<Rightarrow> (rc, [])
      | d # ds \<Rightarrow> (rc\<lparr>received := ds\<rparr>, forward_one d wp))"

fun media_run :: "WebRTCProxy \<Rightarrow> media_turn list \<Rightarrow> RtspClient \<Rightarrow> RtspClient \<times> wp_effect list" where
  "media_run wp [] rc = (rc, [])"
| "media_run wp (Reads # ts) rc = media_run wp ts (fst (handleTCPPackets rc))"
| "media_run wp (Takes # ts) rc =
     (case take_packet wp rc of (rc1, es) \<Rightarrow> (case media_run wp ts rc1 of (rc2, fs) \<Rightarrow> (rc2, es @ fs)))"

text \<open>The queue has room whenever the read loop reads a frame.\<close>

fun roomy :: "WebRTCProxy \<Rightarrow> media_turn list \<Rightarrow> RtspClient \<Rightarrow> bool" where
  "roomy wp [] rc = True"
| "roomy wp (Reads # ts) rc =
     (length (received rc) < received_cap \<and> roomy wp ts (fst (handleTCPPackets rc)))"
| "roomy wp (Takes # ts) rc = roomy wp ts (fst (take_packet wp rc))"

abbreviation reads :: "media_turn list \<Rightarrow> nat" where
  "reads ts \<equiv> length (filter (\<lambda>x. x = Reads) ts)"

text \<open>What a media frame of the camera should become.\<close>

definition written :: "WebRTCProxy \<Rightarrow> frame \<Rightarrow> wp_effect list" where
  "written wp f = (case f of (ch, rtp) \<Rightarrow>
     if byte_val ch = 0 then [WriteVideo rtp] else if audioTrack wp then [WriteAudio rtp] else [])"

lemma forward_frame:
  "is_media f \<Longrightarrow> videoTrack wp \<Longrightarrow> forward_one (encode_frame f) wp = written wp f"
  by (cases f) (auto simp: forward_one_def sendRTPPacket_def encode_frame_def is_media_def written_def Let_def)

section \<open>Every order of the two\<close>

text \<open>The frames written and queued are those queued before, then new ones, in order.\<close>

lemma media_run_frames:
  assumes "open_client rc r" and "pending r = concat (map encode_frame fs) @ t" and "list_all frame_ok fs"
    and "reads ts \<le> length fs" and "received rc = map encode_frame qs" and "list_all is_media qs"
    and "videoTrack wp" and "media_run wp ts rc = (rc', es)"
  shows "\<exists>gs qs' hs. es = concat (map (written wp) gs) \<and> received rc' = map encode_frame qs' \<and> gs @ qs' = qs @ hs \<and>
    subseq hs (filter is_media (take (reads ts) fs)) \<and>
    (roomy wp ts rc \<longrightarrow> hs = filter is_media (take (reads ts) fs))"
  using assms
proof (induction wp ts rc arbitrary: r fs qs rc' es rule: media_run.induct)
  case (1 wp rc)
  then show ?case by (intro exI [of _ "[]"] exI [of _ qs]) simp
next
  case (2 wp ts rc)
  then obtain f fs1 where fs: "fs = f # fs1" by (cases fs) auto
  obtain rc1 r1 where one: "handleTCPPackets rc = (rc1, Inr ())" "open_client rc1 r1" "pending r1 = concat (map encode_frame fs1) @ t"
    "received rc1 = (if is_media f \<and> length (received rc) < received_cap then received rc @ [encode_frame f] else received rc)"
    using handle_one_frame [OF "2.prems"(1), of f "concat (map encode_frame fs1) @ t"] "2.prems"(2,3) fs by auto
  let ?new = "is_media f \<and> length qs < received_cap"
  let ?qs1 = "if ?new then qs @ [f] else qs"
  have q: "received rc1 = map encode_frame ?qs1" "list_all is_media ?qs1"
    using one(4) "2.prems"(5,6) by auto
  have run: "media_run wp ts (fst (handleTCPPackets rc)) = (rc', es)" using "2.prems"(8) by simp
  have n: "reads ts \<le> length fs1" using "2.prems"(4) fs by simp
  obtain gs qs' hs where ih: "es = concat (map (written wp) gs)" "received rc' = map encode_frame qs'" "gs @ qs' = ?qs1 @ hs"
    "subseq hs (filter is_media (take (reads ts) fs1))"
    "roomy wp ts rc1 \<longrightarrow> hs = filter is_media (take (reads ts) fs1)"
    using "2.IH" [of r1 fs1 ?qs1 rc' es] one q n run "2.prems"(3,7) fs by auto
  let ?hs = "if ?new then f # hs else hs"
  have "gs @ qs' = qs @ ?hs" using ih(3) by simp
  moreover have "subseq ?hs (filter is_media (take (reads (Reads # ts)) fs))" using ih(4) fs by auto
  moreover have "roomy wp (Reads # ts) rc \<longrightarrow> ?hs = filter is_media (take (reads (Reads # ts)) fs)"
    using ih(5) fs one(1) "2.prems"(5) by auto
  ultimately show ?case using ih(1,2) by blast
next
  case (3 wp ts rc)
  show ?case
  proof (cases qs)
    case Nil
    then have "take_packet wp rc = (rc, [])" using "3.prems"(5) by (simp add: take_packet_def)
    then show ?thesis using "3.IH" [OF _ "3.prems"(1-3) _ "3.prems"(5-7), of "[]" rc' es] "3.prems"(4,8) by (simp add: case_prod_beta)
  next
    case (Cons q qs1)
    define rc1 where "rc1 = rc\<lparr>received := map encode_frame qs1\<rparr>"
    have t: "take_packet wp rc = (rc1, written wp q)"
      using "3.prems"(5,6,7) Cons forward_frame by (simp add: take_packet_def rc1_def)
    obtain es2 where r: "media_run wp ts rc1 = (rc', es2)" and es: "es = written wp q @ es2"
      using "3.prems"(8) by (auto simp: t split: prod.splits)
    have o: "open_client rc1 r" "received rc1 = map encode_frame qs1" "list_all is_media qs1"
      using "3.prems"(1,6) Cons by (simp_all add: rc1_def open_client_def)
    obtain gs qs' hs where ih: "es2 = concat (map (written wp) gs)" "received rc' = map encode_frame qs'" "gs @ qs' = qs1 @ hs"
      "subseq hs (filter is_media (take (reads ts) fs))"
      "roomy wp ts rc1 \<longrightarrow> hs = filter is_media (take (reads ts) fs)"
      using "3.IH" [OF t [symmetric] o(1) "3.prems"(2,3) _ o(2,3) "3.prems"(7) r] "3.prems"(4) by auto
    have "es = concat (map (written wp) (q # gs))" "(q # gs) @ qs' = qs @ hs" using ih(1,3) es Cons by simp_all
    moreover have "roomy wp (Takes # ts) rc \<longrightarrow> hs = filter is_media (take (reads (Takes # ts)) fs)"
      using ih(5) t by simp
    moreover have "subseq hs (filter is_media (take (reads (Takes # ts)) fs))" using ih(4) by simp
    ultimately show ?thesis using ih(2) by blast
  qed
qed

text \<open>
  C25: the media arrive as the camera sent them: from a stream of well-formed interleaved frames, cut into
  any chunks, read and consumed in any order of the two goroutines, what is written to the tracks,
  then what is still queued, are the RTP packets of the camera's media frames, complete, in their order, none
  twice; and when the queue of 512 has room each time a frame is read, however many are, none is lost.
\<close>

theorem media_path:
  assumes "open_client rc r" and "pending r = concat (map encode_frame fs) @ t" and "list_all frame_ok fs"
    and "reads ts \<le> length fs" and "received rc = []" and "videoTrack wp" and "media_run wp ts rc = (rc', es)"
  shows "\<exists>gs qs. es = concat (map (written wp) gs) \<and> received rc' = map encode_frame qs \<and>
    subseq (gs @ qs) (filter is_media (take (reads ts) fs)) \<and>
    (roomy wp ts rc \<longrightarrow> gs @ qs = filter is_media (take (reads ts) fs))"
  using media_run_frames [OF assms(1-4), of "[]"] assms(5-7) by fastforce

definition media_client :: RtspClient where
  "media_client = NewRtspClient\<lparr>socket := Some \<lparr>sent = [], writes = []\<rparr>,
     reader := Some \<lparr>buf = [], net = [Chunk (take 50 (concat (map encode_frame test_frames))),
                                     Chunk (drop 50 (concat (map encode_frame test_frames)))]\<rparr>\<rparr>"

theorem media_path_witness:
  "\<exists>rc' es qs. media_run (sample_proxy\<lparr>videoTrack := True, audioTrack := True\<rparr>) [Reads, Takes, Reads, Reads, Takes, Reads] media_client =
       (rc', es) \<and> received rc' = map encode_frame qs \<and>
     (\<exists>gs. es = concat (map (written (sample_proxy\<lparr>videoTrack := True, audioTrack := True\<rparr>)) gs) \<and>
        gs @ qs = filter is_media test_frames)"
proof -
  let ?wp = "sample_proxy\<lparr>videoTrack := True, audioTrack := True\<rparr>"
  let ?ts = "[Reads, Takes, Reads, Reads, Takes, Reads]"
  let ?r = "\<lparr>buf = [], net = [Chunk (take 50 (concat (map encode_frame test_frames))),
      Chunk (drop 50 (concat (map encode_frame test_frames)))]\<rparr>"
  obtain rc' es where m: "media_run ?wp ?ts media_client = (rc', es)" by fastforce
  have o: "open_client media_client ?r" "received media_client = []"
    by (simp_all add: open_client_def media_client_def NewRtspClient_def live_def)
  have pend: "pending \<lparr>buf = [], net = [Chunk (take 50 s), Chunk (drop 50 s)]\<rparr> = s" for s
    by (simp add: pending_def)
  have p: "pending ?r = concat (map encode_frame test_frames) @ []"
    using pend [of "concat (map encode_frame test_frames)"] by simp
  have f: "list_all frame_ok test_frames" "reads ?ts = length test_frames"
    by (simp_all add: test_frames_def frame_ok_def test_rtp_def)
  have room: "roomy ?wp ?ts media_client" by code_simp
  obtain gs qs where "es = concat (map (written ?wp) gs)" "received rc' = map encode_frame qs"
    "gs @ qs = filter is_media (take (reads ?ts) test_frames)"
    using media_path [OF o(1) p f(1) _ o(2) _ m] f(2) room by auto
  then show ?thesis using m f(2) by auto
qed

section \<open>Closing while the read loop runs\<close>

text \<open>
  \<open>Close\<close> reads the response of its TEARDOWN under \<open>ioMu\<close>, but the read loop takes no lock around
  \<open>handleTCPPackets\<close>: both read the same connection. The same bytes, first met by \<open>Close\<close> and first met by the read
  loop: in the second order the response is skipped byte by byte as lost synchronization, and
  \<open>Close\<close> waits for it until its deadline of three seconds.
\<close>

definition teardown_response :: string where
  "teardown_response = ''RTSP/1.0 200 OK'' @ CRLF @ ''CSeq: 9'' @ CRLF @ CRLF"

definition closing_client :: RtspClient where
  "closing_client = NewRtspClient\<lparr>socket := Some \<lparr>sent = [], writes = []\<rparr>,
     reader := Some \<lparr>buf = [], net = [Chunk (teardown_response @ concat (map encode_frame test_frames)), Deadline]\<rparr>\<rparr>"

lemma teardown_race:
  "snd (readRTSPResponse closing_client) = Inr (teardown_response, 200) \<and>
   (case pump (length teardown_response + length test_frames) closing_client of
      (rc, res) \<Rightarrow> res = Inr () \<and> isl (snd (readRTSPResponse rc)))"
  by code_simp

end
