(* ===== verification/Buffers.thy ===== *)
theory Buffers imports Media "HOL-Library.Multiset" begin

text \<open>
  The memory of the packets. \<open>Media\<close> treats a packet as a value; the code builds it in a slice over an
  array of \<open>rtpPacketPool\<close>, one pool for all clients, passes the slice through the queue, and puts it back,
  where the next packet overwrites it. Here arrays are cells of an explicit store, and every access to
  the pool, a queue or an array is one step; the read loops, the consumers and the callers of \<open>Close\<close> of any
  number of clients take their steps in any order.
\<close>

section \<open>Slices\<close>

text \<open>A slice from the start of an array: the array's address and the length. An array is its bytes, as many as its capacity.\<close>

type_synonym slice = "nat \<times> nat"

definition bytes :: "string list \<Rightarrow> slice \<Rightarrow> string" where
  "bytes h s = take (snd s) (h ! fst s)"

definition slice_ok :: "string list \<Rightarrow> slice \<Rightarrow> bool" where
  "slice_ok h s \<longleftrightarrow> fst s < length h \<and> snd s \<le> length (h ! fst s)"

text \<open>\<open>append\<close>: in place within the capacity, otherwise into a new array with \<open>extra\<close> bytes to spare.\<close>

definition append_to :: "slice \<Rightarrow> string \<Rightarrow> nat \<Rightarrow> string list \<Rightarrow> string list \<times> slice" where
  "append_to s x extra h =
     (case s of (p, n) \<Rightarrow>
        if n + length x \<le> length (h ! p)
        then (h[p := take n (h ! p) @ x @ drop (n + length x) (h ! p)], (p, n + length x))
        else (h @ [take n (h ! p) @ x @ replicate extra (CHR 0x00)], (length h, n + length x)))"

section \<open>The pool and the clients\<close>

text \<open>
  Of a client: the packet its read loop builds, its queue \<open>received\<close>, and the packet its consumer has taken.
\<close>

record packets =
  building :: "slice option"
  queue :: "slice list"
  writing :: "slice option"

record memory =
  arrays :: "string list"
  pool :: "slice list"
  clients :: "packets list"

definition no_packets :: packets where
  "no_packets = \<lparr>building = None, queue = [], writing = None\<rparr>"

definition fresh_memory :: "nat \<Rightarrow> memory" where
  "fresh_memory n = \<lparr>arrays = [], pool = [], clients = replicate n no_packets\<rparr>"

text \<open>
  \<open>GetBuf c k\<close>: \<open>Get\<close> returns the pool's element \<open>k\<close>, or a new slice if there is none. \<open>Offer\<close>: the
  send that does not wait. \<open>Write\<close>: the packet's bytes, as the consumer reads them. \<open>DrainOne\<close>: one round of
  the loop in \<open>Close\<close>. \<open>Collect k\<close>: the garbage collector takes an element out of the pool.
\<close>

datatype buf_event =
    GetBuf nat nat
  | AppendBuf nat string nat
  | Offer nat
  | Receive nat
  | WriteOut nat
  | Recycle nat
  | DrainOne nat
  | Collect nat

definition without :: "nat \<Rightarrow> 'a list \<Rightarrow> 'a list" where
  "without k xs = take k xs @ drop (Suc k) xs"

fun mem_client :: "buf_event \<Rightarrow> nat" where
  "mem_client (GetBuf c k) = c"
| "mem_client (AppendBuf c x extra) = c"
| "mem_client (Offer c) = c"
| "mem_client (Receive c) = c"
| "mem_client (WriteOut c) = c"
| "mem_client (Recycle c) = c"
| "mem_client (DrainOne c) = c"
| "mem_client (Collect k) = 0"

definition new_array :: string where
  "new_array = replicate 2048 (CHR 0x00)"

text \<open>A step on the packets of its client: these, the arrays, the pool, and what is written to the tracks.\<close>

definition get_buf :: "nat \<Rightarrow> packets \<Rightarrow> string list \<Rightarrow> slice list \<Rightarrow> packets \<times> string list \<times> slice list" where
  "get_buf k b h ps =
     (if building b \<noteq> None then (b, h, ps)
      else if k < length ps then (b\<lparr>building := Some (fst (ps ! k), 0)\<rparr>, h, without k ps)
      else (b\<lparr>building := Some (length h, 0)\<rparr>, h @ [new_array], ps))"

definition append_buf :: "string \<Rightarrow> nat \<Rightarrow> packets \<Rightarrow> string list \<Rightarrow> packets \<times> string list" where
  "append_buf x extra b h =
     (case building b of None \<Rightarrow> (b, h)
      | Some s \<Rightarrow> (case append_to s x extra h of (h1, s1) \<Rightarrow> (b\<lparr>building := Some s1\<rparr>, h1)))"

definition offer_buf :: "packets \<Rightarrow> slice list \<Rightarrow> packets \<times> slice list" where
  "offer_buf b ps =
     (case building b of None \<Rightarrow> (b, ps)
      | Some s \<Rightarrow> (if length (queue b) < received_cap then (b\<lparr>building := None, queue := queue b @ [s]\<rparr>, ps)
                  else (b\<lparr>building := None\<rparr>, s # ps)))"

definition receive_buf :: "packets \<Rightarrow> packets" where
  "receive_buf b =
     (if writing b \<noteq> None then b
      else case queue b of [] \<Rightarrow> b | s # q \<Rightarrow> b\<lparr>queue := q, writing := Some s\<rparr>)"

definition recycle_buf :: "packets \<Rightarrow> slice list \<Rightarrow> packets \<times> slice list" where
  "recycle_buf b ps =
     (case writing b of None \<Rightarrow> (b, ps) | Some s \<Rightarrow> (b\<lparr>writing := None\<rparr>, (fst s, 0) # ps))"

definition drain_buf :: "packets \<Rightarrow> slice list \<Rightarrow> packets \<times> slice list" where
  "drain_buf b ps =
     (case queue b of [] \<Rightarrow> (b, ps) | s # q \<Rightarrow> (b\<lparr>queue := q\<rparr>, (fst s, 0) # ps))"

fun client_step :: "buf_event \<Rightarrow> packets \<Rightarrow> string list \<Rightarrow> slice list \<Rightarrow> packets \<times> string list \<times> slice list" where
  "client_step (GetBuf c k) b h ps = get_buf k b h ps"
| "client_step (AppendBuf c x extra) b h ps = (case append_buf x extra b h of (b1, h1) \<Rightarrow> (b1, h1, ps))"
| "client_step (Offer c) b h ps = (case offer_buf b ps of (b1, ps1) \<Rightarrow> (b1, h, ps1))"
| "client_step (Receive c) b h ps = (receive_buf b, h, ps)"
| "client_step (WriteOut c) b h ps = (b, h, ps)"
| "client_step (Recycle c) b h ps = (case recycle_buf b ps of (b1, ps1) \<Rightarrow> (b1, h, ps1))"
| "client_step (DrainOne c) b h ps = (case drain_buf b ps of (b1, ps1) \<Rightarrow> (b1, h, ps1))"
| "client_step (Collect k) b h ps = (b, h, without k ps)"

definition written_out :: "buf_event \<Rightarrow> packets \<Rightarrow> string list \<Rightarrow> (nat \<times> string) list" where
  "written_out e b h =
     (case e of WriteOut c \<Rightarrow> (case writing b of None \<Rightarrow> [] | Some s \<Rightarrow> [(c, bytes h s)]) | _ \<Rightarrow> [])"

definition mem_step :: "buf_event \<Rightarrow> memory \<Rightarrow> memory \<times> (nat \<times> string) list" where
  "mem_step e M =
     (let c = mem_client e
      in if c < length (clients M)
         then (case client_step e (clients M ! c) (arrays M) (pool M) of
                 (b, h, ps) \<Rightarrow> (\<lparr>arrays = h, pool = ps, clients = (clients M)[c := b]\<rparr>,
                               written_out e (clients M ! c) (arrays M)))
         else (M, []))"

fun mem_run :: "buf_event list \<Rightarrow> memory \<Rightarrow> memory \<times> (nat \<times> string) list" where
  "mem_run [] M = (M, [])"
| "mem_run (e # es) M =
     (case mem_step e M of (M1, xs) \<Rightarrow> (case mem_run es M1 of (M2, ys) \<Rightarrow> (M2, xs @ ys)))"

section \<open>Packets as values\<close>

text \<open>The same steps where a packet is its bytes: no arrays and no pool.\<close>

record packet_values =
  v_building :: "string option"
  v_queue :: "string list"
  v_writing :: "string option"

fun val_client :: "buf_event \<Rightarrow> packet_values \<Rightarrow> packet_values" where
  "val_client (GetBuf c k) v = (if v_building v = None then v\<lparr>v_building := Some ''''\<rparr> else v)"
| "val_client (AppendBuf c x extra) v = v\<lparr>v_building := map_option (\<lambda>y. y @ x) (v_building v)\<rparr>"
| "val_client (Offer c) v =
     (case v_building v of None \<Rightarrow> v
      | Some x \<Rightarrow> v\<lparr>v_building := None,
                   v_queue := (if length (v_queue v) < received_cap then v_queue v @ [x] else v_queue v)\<rparr>)"
| "val_client (Receive c) v =
     (if v_writing v \<noteq> None then v
      else case v_queue v of [] \<Rightarrow> v | x # q \<Rightarrow> v\<lparr>v_queue := q, v_writing := Some x\<rparr>)"
| "val_client (Recycle c) v = v\<lparr>v_writing := None\<rparr>"
| "val_client (DrainOne c) v = v\<lparr>v_queue := drop 1 (v_queue v)\<rparr>"
| "val_client _ v = v"

definition val_out :: "buf_event \<Rightarrow> packet_values \<Rightarrow> (nat \<times> string) list" where
  "val_out e v = (case e of WriteOut c \<Rightarrow> (case v_writing v of None \<Rightarrow> [] | Some x \<Rightarrow> [(c, x)]) | _ \<Rightarrow> [])"

definition val_step :: "buf_event \<Rightarrow> packet_values list \<Rightarrow> packet_values list \<times> (nat \<times> string) list" where
  "val_step e vs =
     (let c = mem_client e
      in if c < length vs then (vs[c := val_client e (vs ! c)], val_out e (vs ! c)) else (vs, []))"

fun val_run :: "buf_event list \<Rightarrow> packet_values list \<Rightarrow> packet_values list \<times> (nat \<times> string) list" where
  "val_run [] vs = (vs, [])"
| "val_run (e # es) vs =
     (case val_step e vs of (vs1, xs) \<Rightarrow> (case val_run es vs1 of (vs2, ys) \<Rightarrow> (vs2, xs @ ys)))"

definition value_of :: "string list \<Rightarrow> packets \<Rightarrow> packet_values" where
  "value_of h b = \<lparr>v_building = map_option (bytes h) (building b), v_queue = map (bytes h) (queue b),
     v_writing = map_option (bytes h) (writing b)\<rparr>"

definition contents :: "memory \<Rightarrow> packet_values list" where
  "contents M = map (value_of (arrays M)) (clients M)"

section \<open>Ownership\<close>

definition opt_list :: "'a option \<Rightarrow> 'a list" where
  "opt_list x = (case x of None \<Rightarrow> [] | Some y \<Rightarrow> [y])"

lemma opt_list_simps [simp]: "opt_list None = []" "opt_list (Some x) = [x]"
  by (simp_all add: opt_list_def)

definition held :: "packets \<Rightarrow> slice list" where
  "held b = opt_list (building b) @ queue b @ opt_list (writing b)"

definition addrs :: "slice list \<Rightarrow> nat multiset" where
  "addrs ss = mset (map fst ss)"

lemma addrs_simps [simp]:
  "addrs [] = {#}" "addrs (s # ss) = add_mset (fst s) (addrs ss)" "addrs (ss @ ts) = addrs ss + addrs ts"
  by (simp_all add: addrs_def)

text \<open>The arrays in use; each has one user.\<close>

definition in_use :: "memory \<Rightarrow> slice list" where
  "in_use M = pool M @ concat (map held (clients M))"

definition exclusive :: "memory \<Rightarrow> bool" where
  "exclusive M \<longleftrightarrow> distinct (map fst (in_use M)) \<and> list_all (slice_ok (arrays M)) (in_use M)"

text \<open>What a client's step sees: its packets, the pool, and what the other clients hold.\<close>

definition others :: "nat \<Rightarrow> memory \<Rightarrow> slice list" where
  "others c M = concat (map held (without c (clients M)))"

lemma in_use_split:
  assumes "c < length (clients M)"
  shows "mset (in_use M) = mset (pool M @ held (clients M ! c) @ others c M)"
  unfolding in_use_def others_def without_def
  by (subst id_take_nth_drop [OF assms]) simp

lemma in_use_update:
  assumes "c < length (clients M)"
  shows "mset (in_use \<lparr>arrays = h, pool = ps, clients = (clients M)[c := b]\<rparr>) = mset (ps @ held b @ others c M)"
  using assms by (simp add: in_use_def others_def without_def upd_conv_take_nth_drop)

lemma exclusive_cong:
  "mset xs = mset ys \<Longrightarrow> (distinct (map fst xs) \<and> list_all P xs) = (distinct (map fst ys) \<and> list_all P ys)"
  using mset_eq_imp_distinct_iff [of "map fst xs" "map fst ys"] mset_eq_setD [of xs ys]
  by (auto simp: list_all_iff)

section \<open>One step of a client\<close>

definition apart :: "packets \<Rightarrow> slice list \<Rightarrow> slice list \<Rightarrow> string list \<Rightarrow> bool" where
  "apart b ps os h \<longleftrightarrow> distinct (map fst (ps @ held b @ os)) \<and> list_all (slice_ok h) (ps @ held b @ os)"

text \<open>What a step promises: users stay apart, the client's packets move as values, the others' stay.\<close>

definition step_keeps :: "buf_event \<Rightarrow> packets \<Rightarrow> slice list \<Rightarrow> string list \<Rightarrow> packets \<Rightarrow> slice list \<Rightarrow> string list \<Rightarrow> slice list \<Rightarrow> bool" where
  "step_keeps e b ps h b' ps' h' os \<longleftrightarrow> apart b' ps' os h' \<and> value_of h' b' = val_client e (value_of h b) \<and>
     (\<forall>s \<in> set os. bytes h' s = bytes h s)"

lemma slice_ok_grow: "slice_ok h s \<Longrightarrow> slice_ok (h @ xs) s" "slice_ok h s \<Longrightarrow> bytes (h @ xs) s = bytes h s"
  by (simp_all add: slice_ok_def bytes_def nth_append)

lemma slice_ok_write:
  "length a = length (h ! p) \<Longrightarrow> slice_ok h s \<Longrightarrow> slice_ok (h[p := a]) s"
  "fst s \<noteq> p \<Longrightarrow> bytes (h[p := a]) s = bytes h s"
  by (cases "fst s = p"; simp add: slice_ok_def bytes_def)+

lemma append_to_keeps:
  assumes "slice_ok h s" and "append_to s x extra h = (h', s')"
  shows "slice_ok h' s'" "bytes h' s' = bytes h s @ x" "fst s' = fst s \<or> fst s' = length h"
    "slice_ok h t \<Longrightarrow> slice_ok h' t" "slice_ok h t \<Longrightarrow> fst t \<noteq> fst s \<Longrightarrow> bytes h' t = bytes h t"
  using assms
  by (auto simp: append_to_def slice_ok_def bytes_def nth_append nth_list_update split: prod.splits if_splits)

lemma without_nth: "k < length xs \<Longrightarrow> mset xs = add_mset (xs ! k) (mset (without k xs))"
  unfolding without_def by (subst id_take_nth_drop [of k xs]) simp_all

lemma apart_perm:
  assumes "mset (ps @ held b @ os) = mset (ps' @ held b' @ os)"
  shows "apart b ps os h \<longleftrightarrow> apart b' ps' os h"
  using exclusive_cong [OF assms] by (simp only: apart_def)

lemma get_buf_keeps:
  assumes "apart b ps os h" and "get_buf k b h ps = (b', h', ps')"
  shows "step_keeps (GetBuf c k) b ps h b' ps' h' os"
proof -
  consider (busy) "building b \<noteq> None" | (old) "building b = None" "k < length ps" | (new) "building b = None" "\<not> k < length ps"
    by blast
  then show ?thesis
  proof cases
    case busy
    then show ?thesis using assms by (auto simp: get_buf_def step_keeps_def value_of_def)
  next
    case old
    then have e: "b' = b\<lparr>building := Some (fst (ps ! k), 0)\<rparr>" "h' = h" "ps' = without k ps"
      using assms(2) by (simp_all add: get_buf_def)
    have "mset (map fst (ps @ held b @ os)) = mset (map fst (ps' @ held b' @ os))"
      using old(1) without_nth [OF old(2)] by (simp add: e held_def)
    then have "distinct (map fst (ps' @ held b' @ os))"
      using assms(1) mset_eq_imp_distinct_iff unfolding apart_def by blast
    moreover have "set (without k ps) \<subseteq> set ps" "slice_ok h (ps ! k)"
      using assms(1) old(2) by (auto simp: without_def apart_def list_all_iff dest: in_set_takeD in_set_dropD)
    ultimately show ?thesis
      using assms(1) old by (auto simp: step_keeps_def apart_def e held_def value_of_def list_all_iff slice_ok_def bytes_def)
  next
    case new
    then have e: "b' = b\<lparr>building := Some (length h, 0)\<rparr>" "h' = h @ [new_array]" "ps' = ps"
      using assms(2) by (simp_all add: get_buf_def)
    have ok: "slice_ok h' s" "bytes h' s = bytes h s" "fst s \<noteq> length h" if "s \<in> set (ps @ held b @ os)" for s
    proof -
      have "slice_ok h s" using assms(1) that unfolding apart_def list_all_iff by blast
      then show "slice_ok h' s" "bytes h' s = bytes h s" "fst s \<noteq> length h"
        unfolding e(2) by (rule slice_ok_grow) (use \<open>slice_ok h s\<close> in \<open>simp add: slice_ok_grow slice_ok_def\<close>)+
    qed
    have hb: "held b' = (length h, 0) # held b" using new(1) by (simp add: e(1) held_def)
    have "slice_ok h' (length h, 0)" by (simp add: slice_ok_def e(2))
    then have "list_all (slice_ok h') (ps' @ held b' @ os)" using ok(1) by (simp add: hb e(3) list_all_iff)
    moreover have "length h \<notin> fst ` set (ps @ held b @ os)" using ok(3) by (metis imageE)
    then have "distinct (map fst (ps' @ held b' @ os))" using assms(1) by (auto simp: apart_def hb e(3))
    moreover have "value_of h' b' = (value_of h b)\<lparr>v_building := Some (bytes h' (length h, 0))\<rparr>"
      using ok(2) new(1) by (cases "writing b") (auto simp: value_of_def e(1) held_def)
    then have "value_of h' b' = val_client (GetBuf c k) (value_of h b)"
      using new(1) by (simp add: bytes_def value_of_def)
    ultimately show ?thesis using ok(2) by (simp add: step_keeps_def apart_def)
  qed
qed

lemma append_buf_keeps:
  assumes "apart b ps os h" and "append_buf x extra b h = (b', h')"
  shows "step_keeps (AppendBuf c x extra) b ps h b' ps h' os"
proof (cases "building b")
  case None
  then show ?thesis using assms by (auto simp: append_buf_def step_keeps_def value_of_def)
next
  case (Some s)
  obtain s' where a: "append_to s x extra h = (h', s')" and b': "b' = b\<lparr>building := Some s'\<rparr>"
    using assms(2) Some by (auto simp: append_buf_def split: prod.splits)
  let ?rest = "ps @ queue b @ opt_list (writing b) @ os"
  have s: "slice_ok h s" "fst s \<notin> fst ` set ?rest" "distinct (map fst ?rest)" "\<forall>t \<in> set ?rest. slice_ok h t"
    using assms(1) Some by (auto simp: apart_def held_def list_all_iff)
  note k = append_to_keeps [OF s(1) a]
  have rest: "slice_ok h' t" "bytes h' t = bytes h t" "fst t \<noteq> fst s'" if "t \<in> set ?rest" for t
  proof -
    have t: "slice_ok h t" using s(4) that by blast
    have u: "fst t \<noteq> fst s" using s(2) imageI [OF that, of fst] by metis
    have "fst t \<noteq> length h" using t by (auto simp: slice_ok_def)
    with t u k(3) k(4,5) [of t] show "slice_ok h' t" "bytes h' t = bytes h t" "fst t \<noteq> fst s'" by auto
  qed
  have "distinct (map fst (s' # ?rest))" using s(3) rest(3) by force
  then have "distinct (map fst (ps @ held b' @ os))" by (auto simp: b' held_def)
  then show ?thesis
    using rest k(1,2) Some by (auto simp: step_keeps_def apart_def b' held_def value_of_def list_all_iff opt_list_def split: option.splits)
qed

lemma without_sub: "mset (without k xs) \<subseteq># mset xs"
  using without_nth [of k xs] by (cases "k < length xs") (simp_all add: without_def)

lemma distinct_sub: "mset xs \<subseteq># mset ys \<Longrightarrow> distinct ys \<Longrightarrow> distinct xs"
  by (metis distinct_append mset_append mset_eq_imp_distinct_iff mset_subset_eq_exists_conv ex_mset)

text \<open>The other steps only pass slices on.\<close>

lemma passing_keeps:
  assumes "apart b ps os h" and "client_step e b h ps = (b', h', ps')"
    and "\<forall>c k. e \<noteq> GetBuf c k" "\<forall>c x n. e \<noteq> AppendBuf c x n"
  shows "step_keeps e b ps h b' ps' h' os"
proof -
  have h: "h' = h" and v: "value_of h' b' = val_client e (value_of h b)"
    using assms(2-4)
    by (cases e; auto simp: offer_buf_def receive_buf_def recycle_buf_def drain_buf_def value_of_def
        split: option.splits list.splits if_splits)+
  have sub: "mset (map fst (ps' @ held b')) \<subseteq># mset (map fst (ps @ held b))"
    using assms(2-4)
    by (cases e) (auto simp: offer_buf_def receive_buf_def recycle_buf_def drain_buf_def held_def
        image_mset_subseteq_mono [OF without_sub] split: option.splits list.splits if_splits)
  have "set ps' \<union> set (held b') \<subseteq> set ps \<union> set (held b) \<union> (\<lambda>s. (fst s, 0)) ` set (held b)"
    using assms(2-4) mset_subset_eqD [OF without_sub, of _ _ ps]
    by (cases e) (auto simp: offer_buf_def receive_buf_def recycle_buf_def drain_buf_def held_def
        split: option.splits list.splits if_splits)
  moreover have "slice_ok h s" if "s \<in> set ps \<union> set (held b) \<union> set os" for s
    using assms(1) that by (auto simp: apart_def list_all_iff)
  moreover have "slice_ok h s \<Longrightarrow> slice_ok h (fst s, 0)" for s by (simp add: slice_ok_def)
  ultimately have ok: "slice_ok h s" if "s \<in> set ps' \<union> set (held b') \<union> set os" for s
    using that by (elim UnE) (blast+)
  then have "list_all (slice_ok h) (ps' @ held b' @ os)" by (simp add: list_all_iff)
  moreover have "distinct (map fst (ps' @ held b' @ os))"
  proof (rule distinct_sub)
    show "mset (map fst (ps' @ held b' @ os)) \<subseteq># mset (map fst (ps @ held b @ os))"
      using subset_mset.add_right_mono [OF sub, of "mset (map fst os)"] by simp
    show "distinct (map fst (ps @ held b @ os))" using assms(1) by (simp only: apart_def)
  qed
  ultimately show ?thesis using v by (simp add: step_keeps_def apart_def h)
qed

lemma client_step_keeps:
  assumes "apart b ps os h" and "client_step e b h ps = (b', h', ps')"
  shows "step_keeps e b ps h b' ps' h' os"
proof (cases e)
  case (GetBuf c k)
  then show ?thesis using get_buf_keeps [OF assms(1)] assms(2) by simp
next
  case (AppendBuf c x n)
  then show ?thesis using append_buf_keeps [OF assms(1)] assms(2) by (auto split: prod.splits)
qed (use passing_keeps [OF assms] in simp_all)

section \<open>Runs\<close>

lemma without_other: "i < length xs \<Longrightarrow> i \<noteq> c \<Longrightarrow> xs ! i \<in> set (without c xs)"
proof (cases "i < c")
  case True
  assume "i < length xs"
  with True have "xs ! i \<in> set (take c xs)" by (metis in_set_conv_nth length_take min_less_iff_conj nth_take)
  then show ?thesis by (simp add: without_def)
next
  case False
  assume "i < length xs" "i \<noteq> c"
  with False have "Suc c \<le> i" "i < length xs" by simp_all
  then have "xs ! i = drop (Suc c) xs ! (i - Suc c)" "i - Suc c < length (drop (Suc c) xs)" by simp_all
  then show ?thesis unfolding without_def by (metis Un_iff nth_mem set_append)
qed

lemma others_held: "i < length (clients M) \<Longrightarrow> i \<noteq> c \<Longrightarrow> set (held (clients M ! i)) \<subseteq> set (others c M)"
  using without_other [of i "clients M" c] by (auto simp: others_def)

lemma value_of_cong: "(\<And>s. s \<in> set (held b) \<Longrightarrow> bytes h' s = bytes h s) \<Longrightarrow> value_of h' b = value_of h b"
  by (cases "building b"; cases "writing b") (simp_all add: value_of_def held_def)

lemma written_out_value: "written_out e b h = val_out e (value_of h b)"
  by (cases e) (simp_all add: written_out_def val_out_def value_of_def split: option.split)

lemma exclusive_apart:
  "c < length (clients M) \<Longrightarrow> exclusive M \<longleftrightarrow> apart (clients M ! c) (pool M) (others c M) (arrays M)"
  using exclusive_cong [OF in_use_split] by (simp only: exclusive_def apart_def)

text \<open>A step of the memory is a step of the values, and every array keeps one user.\<close>

lemma mem_step_refines:
  assumes "exclusive M" and "mem_step e M = (M', xs)"
  shows "exclusive M' \<and> val_step e (contents M) = (contents M', xs)"
proof (cases "mem_client e < length (clients M)")
  case False
  then show ?thesis using assms by (simp add: mem_step_def val_step_def contents_def Let_def)
next
  case True
  let ?c = "mem_client e" and ?os = "others (mem_client e) M"
  obtain b h ps where s: "client_step e (clients M ! ?c) (arrays M) (pool M) = (b, h, ps)" by (metis prod_cases3)
  have M': "M' = \<lparr>arrays = h, pool = ps, clients = (clients M)[?c := b]\<rparr>"
    and xs: "xs = written_out e (clients M ! ?c) (arrays M)"
    using assms(2) True s by (auto simp: mem_step_def Let_def)
  have k: "step_keeps e (clients M ! ?c) (pool M) (arrays M) b ps h ?os"
    using client_step_keeps [OF _ s] assms(1) exclusive_apart [OF True] by blast
  have "exclusive M'"
    using k exclusive_cong [OF in_use_update [OF True, of h ps b]]
    by (simp only: M' exclusive_def step_keeps_def apart_def memory.select_convs)
  moreover have "value_of h (clients M ! i) = value_of (arrays M) (clients M ! i)"
    if "i < length (clients M)" "i \<noteq> ?c" for i
    using others_held [OF that] k by (intro value_of_cong) (auto simp: step_keeps_def)
  then have "contents M' = (contents M)[?c := val_client e (contents M ! ?c)]"
    using k True by (intro nth_equalityI) (auto simp: contents_def M' step_keeps_def nth_list_update)
  ultimately show ?thesis
    using True by (simp add: val_step_def xs written_out_value contents_def Let_def)
qed

lemma mem_run_refines:
  "exclusive M \<Longrightarrow> mem_run es M = (M', xs) \<Longrightarrow> exclusive M' \<and> val_run es (contents M) = (contents M', xs)"
proof (induction es arbitrary: M xs)
  case (Cons e es)
  obtain M1 ys zs where s: "mem_step e M = (M1, ys)" "mem_run es M1 = (M', zs)" "xs = ys @ zs"
    using Cons.prems(2) by (auto split: prod.splits)
  show ?case using Cons.IH [OF _ s(2)] mem_step_refines [OF Cons.prems(1) s(1)] s(3) by simp
qed simp

lemma fresh_exclusive: "exclusive (fresh_memory n)" "contents (fresh_memory n) = replicate n (value_of [] no_packets)"
proof -
  have "in_use (fresh_memory n) = []"
    by (induction n) (simp_all add: in_use_def fresh_memory_def held_def no_packets_def)
  then show "exclusive (fresh_memory n)" by (simp add: exclusive_def)
qed (simp add: contents_def fresh_memory_def)

text \<open>
  C26: no packet is overwritten while it is in use: although packets live in recycled arrays of one
  pool, whatever the order in which the read loops, the consumers and the callers of \<open>Close\<close> of any number
  of clients take their steps, and whichever array the pool hands out, what is written to the tracks and
  what is queued is exactly what it would be if every packet were a value of its own, and no array has
  two users.
\<close>

theorem packets_not_shared:
  "val_run es (replicate n (value_of [] no_packets)) =
     (contents (fst (mem_run es (fresh_memory n))), snd (mem_run es (fresh_memory n))) \<and>
   distinct (map fst (in_use (fst (mem_run es (fresh_memory n)))))"
  using mem_run_refines [OF fresh_exclusive(1) surjective_pairing, of es n] fresh_exclusive(2)
  by (simp add: exclusive_def)

section \<open>Whole packets\<close>

text \<open>
  The steps of one \<open>handleTCPPackets\<close> that reads a packet, and of one round of \<open>consumeRTPPackets\<close>: on
  values they are \<open>queue_packet\<close> and \<open>take_packet\<close>.
\<close>

definition build_packet :: "nat \<Rightarrow> nat \<Rightarrow> string \<Rightarrow> string \<Rightarrow> nat \<Rightarrow> buf_event list" where
  "build_packet c k head body extra = [GetBuf c k, AppendBuf c head extra, AppendBuf c body extra, Offer c]"

definition consume_packet :: "nat \<Rightarrow> buf_event list" where
  "consume_packet c = [Receive c, WriteOut c, Recycle c]"

lemma build_packet_queues:
  assumes "c < length vs" and "vs ! c = \<lparr>v_building = None, v_queue = received rc, v_writing = w\<rparr>"
  shows "val_run (build_packet c k head body extra) vs =
    (vs[c := \<lparr>v_building = None, v_queue = received (queue_packet (head @ body) rc), v_writing = w\<rparr>], [])"
  using assms by (simp add: build_packet_def val_step_def val_out_def queue_packet_def Let_def)

lemma consume_packet_takes:
  assumes "c < length vs" and "vs ! c = \<lparr>v_building = b, v_queue = received rc, v_writing = None\<rparr>"
  shows "val_run (consume_packet c) vs =
    (vs[c := \<lparr>v_building = b, v_queue = received (fst (take_packet wp rc)), v_writing = None\<rparr>],
     map (\<lambda>d. (c, d)) (take 1 (received rc)))"
    and "snd (take_packet wp rc) = concat (map (\<lambda>d. forward_one d wp) (take 1 (received rc)))"
proof -
  obtain q where q: "received rc = q" by blast
  show "val_run (consume_packet c) vs =
    (vs[c := \<lparr>v_building = b, v_queue = received (fst (take_packet wp rc)), v_writing = None\<rparr>],
     map (\<lambda>d. (c, d)) (take 1 (received rc)))"
    using assms list_update_id [of vs c] q
    by (cases q) (simp_all add: consume_packet_def val_step_def val_out_def take_packet_def Let_def)
  show "snd (take_packet wp rc) = concat (map (\<lambda>d. forward_one d wp) (take 1 (received rc)))"
    using q by (cases q) (simp_all add: take_packet_def)
qed

text \<open>A packet that outgrows its array is put back with the array it grew into; the pool loses the smaller one.\<close>

lemma oversized_is_recycled:
  assumes "length head = 4" and "2044 < length body"
    and "M = fst (mem_run (build_packet 0 0 head body extra @ consume_packet 0) (fresh_memory 1))"
  shows "pool M = [(1, 0)]" "length (arrays M ! 1) = 4 + length body + extra"
  using assms
  by (simp_all add: build_packet_def consume_packet_def fresh_memory_def no_packets_def mem_step_def get_buf_def
      append_buf_def append_to_def offer_buf_def receive_buf_def recycle_buf_def received_cap_def new_array_def
      del: replicate.simps)

end
