(* ===== verification/Agent.thy ===== *)
theory Agent imports Source Mqtt WebRtc begin

text \<open>
  \<open>agent.go\<close>: the agent, its one session at a time, and the batching of local ICE candidates. Each
  handler is a function from the agent to the agent and the list of its effects, in order: actions on
  the broker connection and on the PeerConnection of a session. A session is an object the code
  compares by its pointer; here it is an index into \<open>heap\<close>, which keeps ended sessions, since their
  call-backs and timers may still run.

  In this theory each handler runs without another one in between, and the lemmas on \<open>agent_run\<close> are
  about events handled one after the other. In the program they run on goroutines of their own:
  \<open>Interleave\<close> cuts each handler, this theory's definitions with it, at its lock operations and its calls
  of the broker and of the WebRTC library, and \<open>Schedules\<close>, \<open>Deadlines\<close>, \<open>IceBatches\<close> and \<open>Races\<close> say what
  holds and what fails when the pieces interleave.
\<close>

section \<open>State\<close>

record Session =
  sid :: string
  viewer :: string
  sproxy :: WebRTCProxy
  answer :: "json option"
  connectTimer :: bool \<comment> \<open>armed\<close>
  iceBuf :: "ICECandidate slice"
  iceEnd :: bool
  iceTimer :: bool \<comment> \<open>armed\<close>
  iceReady :: bool
  iceStopped :: bool

record Agent =
  cfg :: Config
  mqtt :: MqttClient
  source :: SourceMonitor
  watching :: bool \<comment> \<open>\<open>source.onChange\<close> is set\<close>
  sess :: "nat option"
  heap :: "Session list"

datatype effect = Broker action | Peer nat wp_effect

text \<open>
  What a handler meets: the clock, what a probe of the source would give, the WebRTC library, the
  local candidates (None: the end) that arrive while the offer is being answered, whether the
  broker connection is open, and what the broker answers to the self-test of its access rules.
\<close>

record world =
  now :: time
  probe :: "SourceInfo res"
  lib :: pion
  early :: "ICECandidate option list"
  mqttOpen :: bool
  acl :: sub_result

abbreviation the_sess :: "Agent \<Rightarrow> nat \<Rightarrow> Session" where
  "the_sess a p \<equiv> heap a ! p"

definition put_sess :: "nat \<Rightarrow> Session \<Rightarrow> Agent \<Rightarrow> Agent" where
  "put_sess p s a = a\<lparr>heap := (heap a)[p := s]\<rparr>"

section \<open>What is published\<close>

definition codecs :: "Agent \<Rightarrow> string \<times> string" where
  "codecs a =
     (case info (source a) of
        None \<Rightarrow> ('''', '''')
      | Some i \<Rightarrow> (firstSupported (Video i) supportedVideo, firstSupported (Audio i) supportedAudio))"

definition state_of :: "Agent \<Rightarrow> time \<Rightarrow> bool \<Rightarrow> State" where
  "state_of a t on =
     (let st = \<lparr>st_V = ProtocolVersion, st_TS = unix_sec t, st_Name = dev_Name (cfg_Device (cfg a)),
                Online = (on \<and> online (source a)), Busy = False, Viewer = None, Kind = ''relay'',
                Caps = (case info (source a) of
                          None \<Rightarrow> None
                        | Some i \<Rightarrow> Some \<lparr>caps_Video = filterSupported (Video i) supportedVideo,
                                         caps_Audio = filterSupported (Audio i) supportedAudio,
                                         Streams = [''main''], Cmds = []\<rparr>),
                st_Agent = Some \<lparr>info_Name = AgentName, info_Version = AgentVersion\<rparr>\<rparr>
      in if on then (case sess a of
                       None \<Rightarrow> st
                     | Some p \<Rightarrow> st\<lparr>Busy := True, Viewer := Some (viewer (the_sess a p))\<rparr>)
         else st)"

definition publish_state :: "world \<Rightarrow> Agent \<Rightarrow> effect" where
  "publish_state w a = Broker (PublishState (mqtt a) (state_of a (now w)) True)"

definition send :: "world \<Rightarrow> Agent \<Rightarrow> string \<Rightarrow> string \<Rightarrow> string \<Rightarrow> json option \<Rightarrow> effect" where
  "send w a to typ sid' data = Broker (Send (mqtt a) (now w) to typ sid' data)"

definition sendError :: "world \<Rightarrow> Agent \<Rightarrow> string \<Rightarrow> string \<Rightarrow> string \<Rightarrow> string \<Rightarrow> bool \<Rightarrow> effect" where
  "sendError w a to sid' code msg retryable =
     send w a to TypeError sid' (Some (enc_ErrorData \<lparr>Code = code, Message = msg, Retryable = retryable\<rparr>))"

definition envelope :: "world \<Rightarrow> string \<Rightarrow> string \<Rightarrow> json \<Rightarrow> json" where
  "envelope w typ sid' data =
     enc_Envelope \<lparr>V = ProtocolVersion, TS = unix_sec (now w), SID = sid', Type = typ, Data = Some data\<rparr>"

section \<open>The source\<close>

text \<open>\<open>ProbeNow\<close> and \<open>MarkDown\<close> with the call-back of the agent.\<close>

definition probe_now :: "world \<Rightarrow> Agent \<Rightarrow> Agent \<times> effect list \<times> bool" where
  "probe_now w a =
     (let (m, changed, on) = ProbeNow (probe w) (source a); a1 = a\<lparr>source := m\<rparr>
      in (a1, if changed \<and> watching a1 then [publish_state w a1] else [], on))"

definition mark_down :: "world \<Rightarrow> Agent \<Rightarrow> Agent \<times> effect list" where
  "mark_down w a =
     (let (m, changed) = MarkDown (source a); a1 = a\<lparr>source := m\<rparr>
      in (a1, if changed \<and> watching a1 then [publish_state w a1] else []))"

section \<open>ICE batching\<close>

definition startICE :: "Session \<Rightarrow> Session \<times> bool" where
  "startICE s = (let s1 = s\<lparr>iceReady := True\<rparr> in (s1, length (elems (iceBuf s1)) > 0 \<or> iceEnd s1))"

text \<open>The second component: \<open>flushICE\<close> is called.\<close>

definition queueICE :: "ICECandidate option \<Rightarrow> Session \<Rightarrow> Session \<times> bool" where
  "queueICE c s =
     (if iceStopped s then (s, False)
      else let s1 = (case c of None \<Rightarrow> s\<lparr>iceEnd := True\<rparr>
                     | Some j \<Rightarrow> s\<lparr>iceBuf := append_slice (iceBuf s) j\<rparr>)
           in if \<not> iceReady s1 then (s1, False)
              else if c = None then (s1, True)
              else if \<not> iceTimer s1 then (s1\<lparr>iceTimer := True\<rparr>, False)
              else (s1, False))"

text \<open>The part of \<open>flushICE\<close> under the lock: what is then sent, if anything.\<close>

definition flushICE :: "Session \<Rightarrow> Session \<times> ICEData option" where
  "flushICE s =
     (if iceStopped s \<or> length (elems (iceBuf s)) = 0 \<and> \<not> iceEnd s then (s, None)
      else let batch = iceBuf s; end = iceEnd s;
               s1 = s\<lparr>iceBuf := None, iceEnd := False, iceTimer := False\<rparr>;
               batch = (if batch = None then Some [] else batch)
           in (s1, Some \<lparr>Candidates = batch, End = end\<rparr>))"

definition stopICE :: "Session \<Rightarrow> Session" where
  "stopICE s = s\<lparr>iceStopped := True, iceTimer := False\<rparr>"

definition send_batch :: "world \<Rightarrow> Agent \<Rightarrow> Session \<Rightarrow> ICEData option \<Rightarrow> effect list" where
  "send_batch w a s d =
     (case d of None \<Rightarrow> []
      | Some b \<Rightarrow> [send w a (viewer s) TypeICE (sid s) (Some (enc_ICEData b))])"

text \<open>
  \<open>flushICE\<close> with its sending, which the code does after it has released the lock: another batch
  can be taken and sent in between. \<open>Interleave\<close> (\<open>flush_prog\<close>) and \<open>IceBatches\<close> keep the two apart.
\<close>

definition flush :: "world \<Rightarrow> nat \<Rightarrow> Agent \<Rightarrow> Agent \<times> effect list" where
  "flush w p a = (case flushICE (the_sess a p) of (s, d) \<Rightarrow> (put_sess p s a, send_batch w a s d))"

definition local_ice :: "world \<Rightarrow> nat \<Rightarrow> ICECandidate option \<Rightarrow> Agent \<Rightarrow> Agent \<times> effect list" where
  "local_ice w p c a =
     (case queueICE c (the_sess a p) of
        (s, fl) \<Rightarrow> if fl then flush w p (put_sess p s a) else (put_sess p s a, []))"

definition start_ice :: "world \<Rightarrow> nat \<Rightarrow> Agent \<Rightarrow> Agent \<times> effect list" where
  "start_ice w p a =
     (case startICE (the_sess a p) of
        (s, fl) \<Rightarrow> if fl then flush w p (put_sess p s a) else (put_sess p s a, []))"

section \<open>Ending a session\<close>

definition stop_timer :: "nat \<Rightarrow> Agent \<Rightarrow> Agent" where
  "stop_timer p a = put_sess p ((the_sess a p)\<lparr>connectTimer := False\<rparr>) a"

definition close_proxy :: "nat \<Rightarrow> Agent \<Rightarrow> Agent \<times> effect list" where
  "close_proxy p a =
     (let (wp, es) = proxy_Close (sproxy (the_sess a p))
      in (put_sess p ((the_sess a p)\<lparr>sproxy := wp\<rparr>) a, map (Peer p) es))"

definition stop_ice :: "nat \<Rightarrow> Agent \<Rightarrow> Agent" where
  "stop_ice p a = put_sess p (stopICE (the_sess a p)) a"

definition send_bye :: "world \<Rightarrow> Agent \<Rightarrow> nat \<Rightarrow> string \<Rightarrow> effect" where
  "send_bye w a p reason =
     send w a (viewer (the_sess a p)) TypeBye (sid (the_sess a p)) (Some (enc_ByeData \<lparr>Reason = reason\<rparr>))"

definition endSession :: "world \<Rightarrow> nat \<Rightarrow> string \<Rightarrow> bool \<Rightarrow> Agent \<Rightarrow> Agent \<times> effect list" where
  "endSession w p reason sendBye a0 =
     (if sess a0 \<noteq> Some p then (a0, [])
      else let a1 = stop_ice p (stop_timer p (a0\<lparr>sess := None\<rparr>));
               (a2, closing) = close_proxy p a1;
               (a3, marking) = (if reason = ByeSourceLost then mark_down w a2 else (a2, []));
               bye = (if sendBye then [send_bye w a3 p reason] else [])
           in (a3, closing @ marking @ bye @ [publish_state w a3]))"

definition onConnected :: "nat \<Rightarrow> Agent \<Rightarrow> Agent" where
  "onConnected p a = (if connectTimer (the_sess a p) then stop_timer p a else a)"

text \<open>A step of a session's proxy, with the call-backs installed by \<open>handleOffer\<close>.\<close>

fun callbacks :: "world \<Rightarrow> nat \<Rightarrow> wp_effect list \<Rightarrow> Agent \<Rightarrow> Agent \<times> effect list" where
  "callbacks w p [] a = (a, [])"
| "callbacks w p (OnConnected # es) a = callbacks w p es (onConnected p a)"
| "callbacks w p (OnEnd reason # es) a =
     (let (a1, fs) = endSession w p reason True a; (a2, gs) = callbacks w p es a1 in (a2, fs @ gs))"
| "callbacks w p (e # es) a =
     (let (a1, fs) = callbacks w p es a in (a1, Peer p e # fs))"

definition run_proxy ::
  "world \<Rightarrow> nat \<Rightarrow> (WebRTCProxy \<Rightarrow> WebRTCProxy \<times> wp_effect list) \<Rightarrow> Agent \<Rightarrow> Agent \<times> effect list" where
  "run_proxy w p f a =
     (let (wp, es) = f (sproxy (the_sess a p))
      in callbacks w p es (put_sess p ((the_sess a p)\<lparr>sproxy := wp\<rparr>) a))"

section \<open>Messages\<close>

definition replay_answer :: "Agent \<Rightarrow> string \<Rightarrow> json \<Rightarrow> effect" where
  "replay_answer a to msg = Broker (publish (viewer_topic (mqtt a) to) False msg)"

text \<open>\<open>wantAudio\<close>, and whether the stream asked for exists.\<close>

definition want_audio :: "OfferData \<Rightarrow> bool" where
  "want_audio d = (case want d of None \<Rightarrow> True | Some w \<Rightarrow> (case want_Audio w of None \<Rightarrow> True | Some b \<Rightarrow> b))"

definition bad_stream :: "OfferData \<Rightarrow> string option" where
  "bad_stream d =
     (case want d of
        None \<Rightarrow> None
      | Some w \<Rightarrow> (if Stream w \<noteq> '''' \<and> Stream w \<noteq> ''main'' then Some (Stream w) else None))"

definition NewSession :: "string \<Rightarrow> string \<Rightarrow> WebRTCProxy \<Rightarrow> Session" where
  "NewSession sid' from wp =
     \<lparr>sid = sid', viewer = from, sproxy = wp, answer = None, connectTimer = False, iceBuf = None,
      iceEnd = False, iceTimer = False, iceReady = False, iceStopped = False\<rparr>"

definition new_proxy :: "Agent \<Rightarrow> string \<Rightarrow> string \<Rightarrow> WebRTCProxy" where
  "new_proxy a video audio =
     (NewWebRTCProxy (dev_URL (cfg_Device (cfg a))) video audio (Stun (cfg_ICE (cfg a))))
       \<lparr>hasEnd := True, hasConnected := True\<rparr>"

text \<open>
  The accepted offer. The session exists from here on in \<open>heap\<close>; local candidates of the answer are
  queued before it is registered. Encoding the answer cannot fail, so its error branch is left out.
  The connection timer is armed last, after everything has been published; here nothing can happen
  before that, in \<open>Interleave\<close> (\<open>accept_prog\<close>) the connection can.
\<close>

definition accept_offer ::
  "world \<Rightarrow> string \<Rightarrow> string \<Rightarrow> WebRTCProxy \<Rightarrow> wp_effect list \<Rightarrow> string \<Rightarrow> Agent \<Rightarrow> Agent \<times> effect list" where
  "accept_offer w from sid' wp es sdp a =
     (let p = length (heap a);
          s0 = fold (\<lambda>c s. fst (queueICE c s)) (early w) (NewSession sid' from wp);
          msg = envelope w TypeAnswer sid' (enc_AnswerData \<lparr>answer_SDP = sdp\<rparr>);
          s1 = s0\<lparr>answer := Some msg\<rparr>;
          a1 = a\<lparr>heap := heap a @ [s1], sess := Some p\<rparr>;
          (a2, ice) = start_ice w p a1;
          a3 = put_sess p ((the_sess a2 p)\<lparr>connectTimer := True\<rparr>) a2
      in (a3, map (Peer p) es @ [replay_answer a1 from msg, publish_state w a1] @ ice))"

text \<open>The offer once its content is known to be good.\<close>

definition answer_offer :: "world \<Rightarrow> string \<Rightarrow> string \<Rightarrow> OfferData \<Rightarrow> Agent \<Rightarrow> Agent \<times> effect list" where
  "answer_offer w from sid' data a =
     (let (video, audio) = codecs a
      in if video = '''' then
           (a, [sendError w a from sid' ErrUnsupportedCodec
                  ''the camera announces no video codec WebRTC can carry'' False])
         else case HandleOffer (lib w) (offer_SDP data) (want_audio data) (new_proxy a video audio) of
                (wp, es, Inl se) \<Rightarrow>
                  (a, map (Peer (length (heap a))) es @
                      [sendError w a from sid' (se_Code se) (se_Msg se) (se_Code se = ErrInternal)])
              | (wp, es, Inr sdp) \<Rightarrow> accept_offer w from sid' wp es sdp a)"

definition available :: "world \<Rightarrow> Agent \<Rightarrow> Agent \<times> effect list \<times> bool" where
  "available w a = (if online (source a) then (a, [], True) else probe_now w a)"

definition handleOffer :: "world \<Rightarrow> string \<Rightarrow> Envelope \<Rightarrow> Agent \<Rightarrow> Agent \<times> effect list" where
  "handleOffer w from env a =
     (if \<not> sidPattern (SID env) then (a, [sendError w a from '''' ErrBadRequest ''invalid sid'' False])
      else case sess a of
        Some p \<Rightarrow>
          (if sid (the_sess a p) = SID env \<and> viewer (the_sess a p) = from
           then (a, case answer (the_sess a p) of Some msg \<Rightarrow> [replay_answer a from msg] | None \<Rightarrow> [])
           else (a, [sendError w a from (SID env) ErrBusy ''a session is already active'' True]))
      | None \<Rightarrow>
          (case unmarshal dec_OfferData zero_OfferData (Data env) of
             None \<Rightarrow> (a, [sendError w a from (SID env) ErrBadRequest ''invalid offer'' False])
           | Some data \<Rightarrow>
               (if offer_SDP data = ''''
                then (a, [sendError w a from (SID env) ErrBadRequest ''invalid offer'' False])
                else case bad_stream data of
                  Some stream \<Rightarrow>
                    (a, [sendError w a from (SID env) ErrBadRequest
                           (''requested stream does not exist: '' @ stream) False])
                | None \<Rightarrow>
                    (case available w a of
                       (a1, es, False) \<Rightarrow>
                         (a1, es @ [sendError w a1 from (SID env) ErrSourceUnavailable ''camera unreachable'' True])
                     | (a1, es, True) \<Rightarrow>
                         (case answer_offer w from (SID env) data a1 of (a2, fs) \<Rightarrow> (a2, es @ fs))))))"

text \<open>The test of \<open>handleICE\<close> and \<open>handleBye\<close>: the active session, of this sender and this id.\<close>

definition owned :: "Agent \<Rightarrow> string \<Rightarrow> Envelope \<Rightarrow> nat option" where
  "owned a from env =
     (case sess a of
        None \<Rightarrow> None
      | Some p \<Rightarrow> (if sid (the_sess a p) = SID env \<and> viewer (the_sess a p) = from then Some p else None))"

definition add_candidate :: "world \<Rightarrow> Session \<Rightarrow> ICECandidate \<Rightarrow> wp_effect list" where
  "add_candidate w s c = (if Candidate c = '''' then [] else fst (AddICECandidate (lib w) c (sproxy s)))"

definition handleICE :: "world \<Rightarrow> string \<Rightarrow> Envelope \<Rightarrow> Agent \<Rightarrow> Agent \<times> effect list" where
  "handleICE w from env a =
     (case owned a from env of
        None \<Rightarrow> (a, [])
      | Some p \<Rightarrow>
          (case unmarshal dec_ICEData zero_ICEData (Data env) of
             None \<Rightarrow> (a, [])
           | Some data \<Rightarrow>
               (a, map (Peer p) (concat (map (add_candidate w (the_sess a p)) (elems (Candidates data)))))))"

definition handleBye :: "world \<Rightarrow> string \<Rightarrow> Envelope \<Rightarrow> Agent \<Rightarrow> Agent \<times> effect list" where
  "handleBye w from env a =
     (case owned a from env of None \<Rightarrow> (a, []) | Some p \<Rightarrow> endSession w p ByeUser False a)"

definition handleCmd :: "world \<Rightarrow> string \<Rightarrow> Envelope \<Rightarrow> Agent \<Rightarrow> Agent \<times> effect list" where
  "handleCmd w from env a =
     (case unmarshal dec_CmdData zero_CmdData (Data env) of
        None \<Rightarrow> (a, [])
      | Some data \<Rightarrow>
          (if cmd_ID data = '''' then (a, [])
           else (a, [send w a from TypeRes '''' (Some (enc_ResData
                  \<lparr>res_ID = cmd_ID data, OK = False,
                   res_Error = Some \<lparr>res_Code = ErrUnsupported,
                                     res_Message = ''unsupported command: '' @ cmd_Name data\<rparr>\<rparr>))])))"

definition handleEnvelope :: "world \<Rightarrow> string \<Rightarrow> Envelope \<Rightarrow> bool \<Rightarrow> Agent \<Rightarrow> Agent \<times> effect list" where
  "handleEnvelope w from env stale a =
     (if stale then
        (if Type env = TypeOffer
         then (a, [sendError w a from (SID env) ErrStale ''clock out of sync (ts outside tolerance)'' True])
         else (a, []))
      else if Type env = TypeOffer then handleOffer w from env a
      else if Type env = TypeICE then handleICE w from env a
      else if Type env = TypeBye then handleBye w from env a
      else if Type env = TypeCmd then handleCmd w from env a
      else (a, []))"

definition on_message :: "world \<Rightarrow> string \<Rightarrow> json option \<Rightarrow> Agent \<Rightarrow> Agent \<times> effect list" where
  "on_message w topic msg a =
     (case handleMessage (mqtt a) (now w) topic msg of
        None \<Rightarrow> (a, [])
      | Some (from, env, stale) \<Rightarrow> handleEnvelope w from env stale a)"

section \<open>The life of the agent\<close>

text \<open>
  \<open>NewAgent\<close>: the interval is a product of \<open>int64\<close> values. \<open>state_fn\<close> is the call-back \<open>a.state\<close>
  while the agent is being built (no session, nothing known of the source).
\<close>

definition blank_agent :: "Config \<Rightarrow> Agent" where
  "blank_agent c =
     \<lparr>cfg = c,
      mqtt = \<lparr>mq_id = '''', mq_cfg = cfg_MQTT c, aclCheck = False, topicIn = '''', topicState = ''''\<rparr>,
      source = NewSourceMonitor (dev_URL (cfg_Device c)) (wrap64 (ProbeInterval (cfg_Device c) * second)),
      watching = False, sess = None, heap = []\<rparr>"

definition NewAgent ::
  "(string \<Rightarrow> string res) \<Rightarrow> (string \<Rightarrow> bool) \<Rightarrow> time \<Rightarrow> Config \<Rightarrow> (Agent \<times> ClientOptions) res" where
  "NewAgent readFile validPEM t c =
     (case NewMqttClient readFile validPEM (cfg_MQTT c) (state_of (blank_agent c) t) of
        Inl e \<Rightarrow> Inl e
      | Inr (m, opts) \<Rightarrow> Inr ((blank_agent c)\<lparr>mqtt := m\<rparr>, opts))"

text \<open>
  The events of the running agent: a message, a local candidate, the batch timer, a connection state
  and the timers of a session's proxy, the connection timer, the end of a session's RTSP stream, a tick of
  the source monitor, and a (re)connection to the broker. Call-backs and timers name their session
  by its pointer, whether or not it is still the active one.
\<close>

datatype event =
    Message string "json option"
  | LocalICE nat "ICECandidate option"
  | BatchTimer nat
  | PeerState nat PeerConnectionState
  | GraceTimer nat
  | ConnectTimeout nat
  | StreamEnd nat
  | MonitorTick
  | Connected

definition connect_timeout :: "world \<Rightarrow> nat \<Rightarrow> Agent \<Rightarrow> Agent \<times> effect list" where
  "connect_timeout w p a =
     (if connectTimer (the_sess a p)
      then endSession w p ByeTimeout True (stop_timer p a) else (a, []))"

definition batch_timer :: "world \<Rightarrow> nat \<Rightarrow> Agent \<Rightarrow> Agent \<times> effect list" where
  "batch_timer w p a = (if iceTimer (the_sess a p) then flush w p a else (a, []))"

text \<open>The monitor does not probe while a session is active.\<close>

definition monitor_tick :: "world \<Rightarrow> Agent \<Rightarrow> Agent \<times> effect list" where
  "monitor_tick w a =
     (if stopped (source a) \<or> sess a \<noteq> None then (a, []) else (case probe_now w a of (a1, es, _) \<Rightarrow> (a1, es)))"

text \<open>
  \<open>onConnect\<close>, with the self-test it starts on the first connection. The self-test is a goroutine of
  its own; it does nothing but its two actions.
\<close>

definition on_connect :: "world \<Rightarrow> Agent \<Rightarrow> Agent \<times> effect list" where
  "on_connect w a =
     (case onConnect (state_of a (now w)) (mqtt a) of
        (m, acts, selfTest) \<Rightarrow>
          (a\<lparr>mqtt := m\<rparr>, map Broker (acts @ (if selfTest then selfTestACL (acl w) else []))))"

fun agent_step :: "world \<Rightarrow> event \<Rightarrow> Agent \<Rightarrow> Agent \<times> effect list" where
  "agent_step w (Message topic msg) a = on_message w topic msg a"
| "agent_step w (LocalICE p c) a = (if p < length (heap a) then local_ice w p c a else (a, []))"
| "agent_step w (BatchTimer p) a = (if p < length (heap a) then batch_timer w p a else (a, []))"
| "agent_step w (PeerState p st) a =
     (if p < length (heap a) then run_proxy w p (handleConnectionState st) a else (a, []))"
| "agent_step w (GraceTimer p) a =
     (if p < length (heap a) then run_proxy w p disconnect_fires a else (a, []))"
| "agent_step w (ConnectTimeout p) a = (if p < length (heap a) then connect_timeout w p a else (a, []))"
| "agent_step w (StreamEnd p) a =
     (if p < length (heap a) then run_proxy w p (proxy_end ByeSourceLost) a else (a, []))"
| "agent_step w MonitorTick a = monitor_tick w a"
| "agent_step w Connected a = on_connect w a"

fun agent_run :: "(world \<times> event) list \<Rightarrow> Agent \<Rightarrow> Agent \<times> effect list" where
  "agent_run [] a = (a, [])"
| "agent_run ((w, e) # es) a =
     (let (a1, fs) = agent_step w e a; (a2, gs) = agent_run es a1 in (a2, fs @ gs))"

text \<open>
  \<open>Run\<close>: the source is probed once before the call-back is installed; the first \<open>Connected\<close> event is
  part of the run. \<open>Shutdown\<close> ends the session without the guard of \<open>endSession\<close>: it reads it and
  clears it in two critical sections, between which others may run (\<open>Shutdown_prog\<close> in \<open>Interleave\<close>);
  here none does.
\<close>

definition start :: "world \<Rightarrow> Agent \<Rightarrow> Agent" where
  "start w a = (fst (probe_now w a))\<lparr>watching := True\<rparr>"

definition Shutdown :: "world \<Rightarrow> Agent \<Rightarrow> Agent \<times> effect list" where
  "Shutdown w a0 =
     (let a = a0\<lparr>source := Source.Stop (source a0)\<rparr>;
          (a2, es) =
            (case sess a of
               None \<Rightarrow> (a, [])
             | Some p \<Rightarrow>
                 (let (a1, closing) = close_proxy p (stop_ice p (a\<lparr>sess := None\<rparr>))
                  in (a1, closing @ [send_bye w a1 p ByeShutdown])))
      in (a2, es @ map Broker (mqtt_Close (mqtt a2) (state_of a2 (now w)) (mqttOpen w))))"
end
