(* ===== verification/AgentSpec.thy ===== *)
theory AgentSpec imports Agent begin

text \<open>
  What the agent promises: the abstract machine \<open>idle\<close> or \<open>busy(sid, viewer)\<close> of its sessions, the
  invariant of its sessions and PeerConnections, and the lemmas on its handlers that the properties
  rest on.
\<close>

section \<open>Reading effects\<close>

definition has_type :: "string \<Rightarrow> effect \<Rightarrow> bool" where
  "has_type typ e =
     (case e of Broker (Publish t q r j) \<Rightarrow> member j ''type'' = Some (JStr typ) | _ \<Rightarrow> False)"

definition peer_effects :: "effect list \<Rightarrow> wp_effect list" where
  "peer_effects es = concat (map (\<lambda>e. case e of Peer p x \<Rightarrow> [x] | _ \<Rightarrow> []) es)"

lemma type_distinct [simp]:
  "TypeBye \<noteq> TypeError" "TypeBye \<noteq> TypeAnswer" "TypeBye \<noteq> TypeICE" "TypeBye \<noteq> TypeRes"
  "TypeAnswer \<noteq> TypeBye" "TypeError \<noteq> TypeBye" "TypeICE \<noteq> TypeBye" "TypeRes \<noteq> TypeBye"
  "TypeAnswer \<noteq> TypeICE" "TypeAnswer \<noteq> TypeError" "TypeAnswer \<noteq> TypeRes"
  "TypeICE \<noteq> TypeAnswer" "TypeError \<noteq> TypeAnswer" "TypeRes \<noteq> TypeAnswer"
  "TypeICE \<noteq> TypeError" "TypeError \<noteq> TypeICE" "TypeICE \<noteq> TypeRes" "TypeRes \<noteq> TypeICE"
  "TypeOffer \<noteq> TypeBye" "TypeBye \<noteq> TypeOffer" "TypeOffer \<noteq> TypeICE" "TypeICE \<noteq> TypeOffer"
  "TypeOffer \<noteq> TypeCmd" "TypeCmd \<noteq> TypeOffer" "TypeBye \<noteq> TypeCmd" "TypeCmd \<noteq> TypeBye"
  "TypeICE \<noteq> TypeCmd" "TypeCmd \<noteq> TypeICE"
  by (simp_all add: type_defs)

text \<open>PeerConnections opened less PeerConnections closed.\<close>

definition pcs :: "effect list \<Rightarrow> int" where
  "pcs es = open_pcs (peer_effects es)"

lemma member_envelope [simp]: "member (enc_Envelope e) ''type'' = Some (JStr (to_valid (Type e)))"
  by (simp add: member_def enc_Envelope_def omit_empty_def jstr_def)

lemma member_state [simp]: "member (enc_State s) ''type'' = None"
  by (simp add: member_def enc_State_def split: option.split)

lemma has_type_simps [simp]:
  "has_type typ (send w a to typ' s d) \<longleftrightarrow> typ = to_valid typ'"
  "has_type typ (sendError w a to s c m r) \<longleftrightarrow> typ = TypeError"
  "\<not> has_type typ (publish_state w a)"
  "\<not> has_type typ (Peer p x)"
  "has_type typ (replay_answer a to msg) \<longleftrightarrow> member msg ''type'' = Some (JStr typ)"
  "member (envelope w typ' s d') ''type'' = Some (JStr (to_valid typ'))"
  "\<not> has_type typ (Broker (Subscribe t q))" "\<not> has_type typ (Broker (Unsubscribe t))" "\<not> has_type typ (Broker (PublishState mq f b))"
  by (auto simp: has_type_def send_def sendError_def Send_def publish_def publish_state_def
      PublishState_def replay_answer_def envelope_def)

lemma pcs_simps [simp]:
  "pcs [] = 0" "pcs (Broker x # es) = pcs es" "pcs (es @ es') = pcs es + pcs es'"
  "pcs (map (Peer p) xs) = open_pcs xs" "pcs (publish_state w a # es) = pcs es"
  "pcs (send w a to t s d # es) = pcs es" "pcs (sendError w a to s c m r # es) = pcs es"
  "pcs (replay_answer a to msg # es) = pcs es"
  by (simp_all add: pcs_def peer_effects_def publish_state_def send_def sendError_def
      replay_answer_def comp_def)

lemma filter_type_peer [simp]: "filter (has_type typ) (map (Peer p) xs) = []"
  by (simp add: filter_empty_conv)

section \<open>The abstract machine\<close>

datatype mode = Idle | Busy string string \<comment> \<open>session id, viewer\<close>

definition mode_of :: "Agent \<Rightarrow> mode" where
  "mode_of a = (case sess a of None \<Rightarrow> Idle | Some p \<Rightarrow> Busy (sid (the_sess a p)) (viewer (the_sess a p)))"

text \<open>The request of an acceptable offer, while idle.\<close>

definition offer_request :: "Agent \<Rightarrow> Envelope \<Rightarrow> OfferData option" where
  "offer_request a env =
     (if sidPattern (SID env) \<and> sess a = None
      then (case unmarshal dec_OfferData zero_OfferData (Data env) of
              None \<Rightarrow> None
            | Some d \<Rightarrow> (if offer_SDP d \<noteq> '''' \<and> bad_stream d = None then Some d else None))
      else None)"

text \<open>The answer to a request: reachable source, usable codec, accepted by the library.\<close>

definition answer_to :: "world \<Rightarrow> OfferData \<Rightarrow> Agent \<Rightarrow> string option" where
  "answer_to w d a0 =
     (case available w a0 of
        (a, _, ok) \<Rightarrow>
          (case codecs a of
             (video, audio) \<Rightarrow>
               (if \<not> ok \<or> video = '''' then None
                else case HandleOffer (lib w) (offer_SDP d) (want_audio d) (new_proxy a video audio) of
                       (_, _, Inr sdp) \<Rightarrow> Some sdp | _ \<Rightarrow> None)))"

text \<open>What an event means to the machine: the session it accepts, the reason it ends the session for.\<close>

definition accepts :: "world \<Rightarrow> event \<Rightarrow> Agent \<Rightarrow> (string \<times> string) option" where
  "accepts w e a =
     (case e of
        Message topic msg \<Rightarrow>
          (case handleMessage (mqtt a) (now w) topic msg of
             Some (from, env, False) \<Rightarrow>
               (if Type env = TypeOffer
                then (case offer_request a env of
                        None \<Rightarrow> None
                      | Some d \<Rightarrow> (if answer_to w d a \<noteq> None then Some (SID env, from) else None))
                else None)
           | _ \<Rightarrow> None)
      | _ \<Rightarrow> None)"

definition end_cause :: "world \<Rightarrow> event \<Rightarrow> Agent \<Rightarrow> (string \<times> bool) option" where
  "end_cause w e a =
     (case e of
        Message topic msg \<Rightarrow>
          (case handleMessage (mqtt a) (now w) topic msg of
             Some (from, env, False) \<Rightarrow>
               (if Type env = TypeBye \<and> owned a from env \<noteq> None then Some (ByeUser, False) else None)
           | _ \<Rightarrow> None)
      | PeerState p st \<Rightarrow> (if sess a = Some p \<and> st = StateFailed then Some (ByeICEFailed, True) else None)
      | GraceTimer p \<Rightarrow>
          (if sess a = Some p \<and> disconnectTimer (sproxy (the_sess a p)) \<noteq> None
           then Some (ByeICEFailed, True) else None)
      | ConnectTimeout p \<Rightarrow>
          (if sess a = Some p \<and> connectTimer (the_sess a p) then Some (ByeTimeout, True) else None)
      | StreamEnd p \<Rightarrow> (if sess a = Some p then Some (ByeSourceLost, True) else None)
      | _ \<Rightarrow> None)"

definition mode_step :: "(string \<times> string) option \<Rightarrow> (string \<times> bool) option \<Rightarrow> mode \<Rightarrow> mode" where
  "mode_step acc cause m =
     (case m of
        Idle \<Rightarrow> (case acc of None \<Rightarrow> Idle | Some (s, v) \<Rightarrow> Busy s v)
      | Busy s v \<Rightarrow> (case cause of None \<Rightarrow> Busy s v | Some _ \<Rightarrow> Idle))"

section \<open>The invariant\<close>

definition live_sess :: "Session \<Rightarrow> bool" where
  "live_sess s \<longleftrightarrow> wp_inv (sproxy s) \<and> \<not> closed (sproxy s) \<and> pc (sproxy s) \<and> \<not> iceStopped s \<and>
     iceReady s \<and> (iceTimer s \<longleftrightarrow> elems (iceBuf s) \<noteq> []) \<and> (\<exists>msg. answer s = Some msg \<and> member msg ''type'' = Some (JStr TypeAnswer))"

definition dead_sess :: "Session \<Rightarrow> bool" where
  "dead_sess s \<longleftrightarrow> wp_inv (sproxy s) \<and> closed (sproxy s) \<and> iceStopped s \<and> \<not> iceTimer s \<and>
     (\<exists>msg. answer s = Some msg \<and> member msg ''type'' = Some (JStr TypeAnswer))"

definition agent_inv :: "Agent \<Rightarrow> bool" where
  "agent_inv a \<longleftrightarrow>
     (\<forall>p < length (heap a). if sess a = Some p then live_sess (the_sess a p) else dead_sess (the_sess a p)) \<and>
     (\<forall>p. sess a = Some p \<longrightarrow> p < length (heap a))"

lemma agent_invD:
  assumes "agent_inv a"
  shows "sess a = Some p \<Longrightarrow> p < length (heap a) \<and> live_sess (the_sess a p)"
    and "p < length (heap a) \<Longrightarrow> sess a \<noteq> Some p \<Longrightarrow> dead_sess (the_sess a p)"
  using assms by (auto simp: agent_inv_def)

lemma put_sess_simps [simp]:
  "sess (put_sess p s a) = sess a" "length (heap (put_sess p s a)) = length (heap a)"
  "mqtt (put_sess p s a) = mqtt a" "cfg (put_sess p s a) = cfg a" "source (put_sess p s a) = source a"
  "watching (put_sess p s a) = watching a"
  "p < length (heap a) \<Longrightarrow> the_sess (put_sess p s a) p = s"
  "q \<noteq> p \<Longrightarrow> the_sess (put_sess p s a) q = the_sess a q"
  "put_sess p s (put_sess p s' a) = put_sess p s a"
  by (simp_all add: put_sess_def)

lemma agent_inv_put:
  assumes "agent_inv a" and "p < length (heap a)"
    and "if sess a = Some p then live_sess s else dead_sess s"
  shows "agent_inv (put_sess p s a)"
  using assms by (auto simp: agent_inv_def put_sess_def nth_list_update)

lemma mode_of_put:
  "sid s = sid (the_sess a p) \<Longrightarrow> viewer s = viewer (the_sess a p) \<Longrightarrow> p < length (heap a) \<Longrightarrow>
     mode_of (put_sess p s a) = mode_of a"
  by (auto simp: mode_of_def put_sess_def nth_list_update split: option.split)

section \<open>Ending a session\<close>

definition ended :: "Session \<Rightarrow> Session" where
  "ended s = s\<lparr>connectTimer := False, iceStopped := True, iceTimer := False,
               sproxy := fst (proxy_Close (sproxy s))\<rparr>"

text \<open>The source after the end of a session, and what this publishes.\<close>

definition marked :: "world \<Rightarrow> string \<Rightarrow> Agent \<Rightarrow> Agent \<times> effect list" where
  "marked w reason a = (if reason = ByeSourceLost then mark_down w a else (a, []))"

lemma mark_down_frame:
  assumes "mark_down w a = (a', es)"
  shows "sess a' = sess a" "heap a' = heap a" "mqtt a' = mqtt a" "cfg a' = cfg a" "watching a' = watching a"
    "pcs es = 0" "filter (has_type typ) es = []"
  using assms by (auto simp: mark_down_def Let_def split: prod.splits if_splits)

lemma marked_frame:
  assumes "marked w r a = (a', es)"
  shows "sess a' = sess a" "heap a' = heap a" "mqtt a' = mqtt a" "cfg a' = cfg a" "watching a' = watching a"
    "pcs es = 0" "filter (has_type typ) es = []"
  using assms mark_down_frame [of w a a' es] by (auto simp: marked_def split: if_splits)

lemma endSession_eq:
  assumes "sess a = Some p" and "p < length (heap a)"
  shows "endSession w p reason b a =
    (let (a3, marking) = marked w reason (a\<lparr>sess := None, heap := (heap a)[p := ended (the_sess a p)]\<rparr>)
     in (a3, map (Peer p) (snd (proxy_Close (sproxy (the_sess a p)))) @ marking @
             (if b then [send w a (viewer (the_sess a p)) TypeBye (sid (the_sess a p))
                           (Some (enc_ByeData \<lparr>Reason = reason\<rparr>))] else []) @ [publish_state w a3]))"
proof -
  let ?a2 = "a\<lparr>sess := None, heap := (heap a)[p := ended (the_sess a p)]\<rparr>"
  have cp: "close_proxy p (stop_ice p (stop_timer p (a\<lparr>sess := None\<rparr>))) =
      (?a2, map (Peer p) (snd (proxy_Close (sproxy (the_sess a p)))))"
    using assms(2)
    by (simp add: close_proxy_def stop_ice_def stop_timer_def put_sess_def stopICE_def ended_def
        case_prod_beta)
  obtain a3 marking where m: "marked w reason ?a2 = (a3, marking)" by fastforce
  note f = marked_frame [OF m]
  have bye: "send_bye w a3 p reason = send w a (viewer (the_sess a p)) TypeBye (sid (the_sess a p))
      (Some (enc_ByeData \<lparr>Reason = reason\<rparr>))"
    using assms(2) by (simp add: send_bye_def send_def f ended_def)
  show ?thesis
    using assms(1) m bye by (simp add: endSession_def cp marked_def [symmetric])
qed

lemma ended_dead: "live_sess s \<Longrightarrow> dead_sess (ended s)"
  by (auto simp: live_sess_def dead_sess_def ended_def wp_inv_def proxy_Close_def)

lemma close_live: "live_sess s \<Longrightarrow> open_pcs (snd (proxy_Close (sproxy s))) = -1"
  by (auto simp: live_sess_def wp_inv_def proxy_Close_def split: option.split)

text \<open>What ending the active session does, as the invariant and the counts see it.\<close>

lemma endSession_live:
  assumes inv: "agent_inv a" and s: "sess a = Some p" and e: "endSession w p reason b a = (a', es)"
  shows "agent_inv a'" and "sess a' = None" and "pcs es = -1" and "last es = publish_state w a'"
    and "filter (has_type TypeBye) es =
      (if b then [send w a (viewer (the_sess a p)) TypeBye (sid (the_sess a p)) (Some (enc_ByeData \<lparr>Reason = reason\<rparr>))]
       else [])"
    and "mqtt a' = mqtt a" and "es \<noteq> []" and "heap a' = (heap a)[p := ended (the_sess a p)]"
    and "watching a' = watching a" and "cfg a' = cfg a"
proof -
  have p: "p < length (heap a)" and l: "live_sess (the_sess a p)" using agent_invD(1) [OF inv s] by blast+
  let ?a2 = "a\<lparr>sess := None, heap := (heap a)[p := ended (the_sess a p)]\<rparr>"
  obtain a3 marking where m: "marked w reason ?a2 = (a3, marking)" by fastforce
  note f = marked_frame [OF m]
  have a': "a' = a3" and es: "es = map (Peer p) (snd (proxy_Close (sproxy (the_sess a p)))) @ marking @
      (if b then [send w a (viewer (the_sess a p)) TypeBye (sid (the_sess a p)) (Some (enc_ByeData \<lparr>Reason = reason\<rparr>))]
       else []) @ [publish_state w a3]"
    using e by (auto simp: endSession_eq [OF s p] m)
  show "sess a' = None" "mqtt a' = mqtt a" "es \<noteq> []" "last es = publish_state w a'"
    "watching a' = watching a" "cfg a' = cfg a" "heap a' = (heap a)[p := ended (the_sess a p)]"
    by (simp_all add: a' es f)
  show "pcs es = -1" by (simp add: es f close_live [OF l])
  show "filter (has_type TypeBye) es =
      (if b then [send w a (viewer (the_sess a p)) TypeBye (sid (the_sess a p)) (Some (enc_ByeData \<lparr>Reason = reason\<rparr>))]
       else [])"
    by (simp add: es f)
  show "agent_inv a'"
    using inv s ended_dead [OF l] by (auto simp: agent_inv_def a' f nth_list_update)
qed

lemma endSession_other: "sess a \<noteq> Some p \<Longrightarrow> endSession w p reason b a = (a, [])"
  by (simp add: endSession_def)

section \<open>Steps of a session's proxy\<close>

lemma handleConnectionState_inv:
  assumes "wp_inv wp" and "handleConnectionState st wp = (wp', es)"
  shows "wp_inv wp'" and "closed wp' = closed wp" and "pc wp' = pc wp"
    and "es = (if closed wp then []
      else if st = StateFailed then [OnEnd ByeICEFailed]
      else if st = StateConnected \<and> \<not> started wp then [StartRTSP, OnConnected] else [])"
  using assms by (cases st; auto simp: handleConnectionState_def stop_disconnect_def proxy_end_def
      wp_inv_def Let_def split: if_splits)+

lemma disconnect_fires_inv:
  assumes "wp_inv wp"
  shows "disconnect_fires wp =
    (wp, if \<not> closed wp \<and> disconnectTimer wp \<noteq> None then [OnEnd ByeICEFailed] else [])"
  using assms by (cases "disconnectTimer wp"; cases "the (disconnectTimer wp)")
    (auto simp: disconnect_fires_def proxy_end_def wp_inv_def)

lemma proxy_end_inv: "wp_inv wp \<Longrightarrow> proxy_end r wp = (wp, if closed wp then [] else [OnEnd r])"
  by (simp add: proxy_end_def wp_inv_def)

lemma put_same [simp]: "put_sess p (the_sess a p) a = a"
  by (simp add: put_sess_def)

text \<open>A step that neither ends a session nor accepts one.\<close>

definition quiet :: "Agent \<Rightarrow> Agent \<Rightarrow> effect list \<Rightarrow> bool" where
  "quiet a a' es \<longleftrightarrow> agent_inv a' \<and> mode_of a' = mode_of a \<and> pcs es = 0 \<and>
     filter (has_type TypeBye) es = [] \<and> (sess a' = None \<longleftrightarrow> sess a = None)"

lemma quiet_refl: "agent_inv a \<Longrightarrow> pcs es = 0 \<Longrightarrow> filter (has_type TypeBye) es = [] \<Longrightarrow> quiet a a es"
  by (simp add: quiet_def)

lemma quiet_put:
  assumes "agent_inv a" "p < length (heap a)" "if sess a = Some p then live_sess s else dead_sess s"
    and "sid s = sid (the_sess a p)" "viewer s = viewer (the_sess a p)"
    and "pcs es = 0" "filter (has_type TypeBye) es = []"
  shows "quiet a (put_sess p s a) es"
  using agent_inv_put [OF assms(1-3)] mode_of_put [OF assms(4,5,2)] assms(6,7) by (simp add: quiet_def)

section \<open>ICE batches\<close>

lemma flushICE_frame:
  assumes "flushICE s = (s', d)"
  shows "sid s' = sid s" "viewer s' = viewer s" "live_sess s \<Longrightarrow> live_sess s'" "dead_sess s \<Longrightarrow> s' = s \<and> d = None"
    "answer s' = answer s"
  using assms by (auto simp: flushICE_def live_sess_def dead_sess_def Let_def split: if_splits)

lemma queueICE_frame:
  assumes "queueICE c s = (s', fl)"
  shows "sid s' = sid s" "viewer s' = viewer s" "live_sess s \<Longrightarrow> live_sess s'"
    "dead_sess s \<Longrightarrow> s' = s \<and> \<not> fl" "answer s' = answer s" "sproxy s' = sproxy s"
    "iceStopped s' = iceStopped s" "iceReady s' = iceReady s" "connectTimer s' = connectTimer s"
    "fl \<Longrightarrow> iceReady s" "\<not> iceReady s \<Longrightarrow> iceTimer s' = iceTimer s"
  using assms by (auto simp: queueICE_def live_sess_def dead_sess_def Let_def split: if_splits option.splits)

lemma send_batch_types [simp]:
  "pcs (send_batch w a s d) = 0" "filter (has_type TypeBye) (send_batch w a s d) = []"
  "filter (has_type TypeAnswer) (send_batch w a s d) = []"
  by (auto simp: send_batch_def type_defs split: option.split)

lemma send_batch_put: "send_batch w (put_sess p s' a) s d = send_batch w a s d"
  by (simp add: send_batch_def send_def split: option.split)

lemma send_batch_None [simp]: "send_batch w a s None = []"
  by (simp add: send_batch_def)

lemma flush_quiet:
  assumes "agent_inv a" and "p < length (heap a)" and "flush w p a = (a', es)"
  shows "quiet a a' es"
proof -
  obtain s d where f: "flushICE (the_sess a p) = (s, d)" by fastforce
  have a': "a' = put_sess p s a" "es = send_batch w a s d" using assms(3) by (simp_all add: flush_def f)
  have "if sess a = Some p then live_sess s else dead_sess s"
    using flushICE_frame(3,4) [OF f] agent_invD [OF assms(1)] assms(2) by auto
  then show ?thesis unfolding a' using assms flushICE_frame(1,2) [OF f] by (intro quiet_put) simp_all
qed

lemma quiet_trans: "quiet a b es \<Longrightarrow> quiet b c fs \<Longrightarrow> quiet a c (es @ fs)"
  by (simp add: quiet_def)

lemma local_ice_quiet:
  assumes "agent_inv a" and "p < length (heap a)" and "local_ice w p c a = (a', es)"
  shows "quiet a a' es"
proof -
  obtain s fl where q: "queueICE c (the_sess a p) = (s, fl)" by fastforce
  have "if sess a = Some p then live_sess s else dead_sess s"
    using queueICE_frame(3,4) [OF q] agent_invD [OF assms(1)] assms(2) by auto
  then have 1: "quiet a (put_sess p s a) []"
    using assms queueICE_frame(1,2) [OF q] by (intro quiet_put) simp_all
  show ?thesis
  proof (cases fl)
    case True
    then have "flush w p (put_sess p s a) = (a', es)" using assms(3) by (simp add: local_ice_def q)
    with 1 assms(2) have "quiet (put_sess p s a) a' es" by (intro flush_quiet) (simp_all add: quiet_def)
    from quiet_trans [OF 1 this] show ?thesis by simp
  next
    case False
    with assms(3) 1 show ?thesis by (simp add: local_ice_def q)
  qed
qed

lemma batch_timer_quiet:
  "agent_inv a \<Longrightarrow> p < length (heap a) \<Longrightarrow> batch_timer w p a = (a', es) \<Longrightarrow> quiet a a' es"
  using flush_quiet quiet_refl by (fastforce simp: batch_timer_def split: if_splits)

section \<open>Proxy steps\<close>

lemma agent_wp_inv: "agent_inv a \<Longrightarrow> p < length (heap a) \<Longrightarrow> wp_inv (sproxy (the_sess a p))"
  using agent_invD by (cases "sess a = Some p") (auto simp: live_sess_def dead_sess_def)

lemma onConnected_quiet:
  assumes "agent_inv a" and "p < length (heap a)"
  shows "quiet a (onConnected p a) []"
proof -
  have "quiet a (stop_timer p a) []"
    unfolding stop_timer_def using assms agent_invD [OF assms(1)]
    by (intro quiet_put) (auto simp: live_sess_def dead_sess_def)
  then show ?thesis using quiet_refl [OF assms(1), of "[]"] by (simp add: onConnected_def)
qed

text \<open>A connection state of a session that does not end it.\<close>

lemma peer_state_quiet:
  assumes inv: "agent_inv a" and p: "p < length (heap a)"
    and q: "sess a \<noteq> Some p \<or> st \<noteq> StateFailed"
    and r: "run_proxy w p (handleConnectionState st) a = (a', es)"
  shows "quiet a a' es"
proof -
  obtain wp xs where h: "handleConnectionState st (sproxy (the_sess a p)) = (wp, xs)" by fastforce
  note w = handleConnectionState_inv [OF agent_wp_inv [OF inv p] h]
  let ?a1 = "put_sess p ((the_sess a p)\<lparr>sproxy := wp\<rparr>) a"
  have 1: "quiet a ?a1 []"
  proof (rule quiet_put [OF inv p])
    show "if sess a = Some p then live_sess ((the_sess a p)\<lparr>sproxy := wp\<rparr>)
        else dead_sess ((the_sess a p)\<lparr>sproxy := wp\<rparr>)"
      using agent_invD [OF inv, of p] p w(1-3) by (auto simp: live_sess_def dead_sess_def)
  qed simp_all
  then have inv1: "agent_inv ?a1" by (simp add: quiet_def)
  have cb: "callbacks w p xs ?a1 = (a', es)" using r by (simp add: run_proxy_def h)
  have xs: "xs = [] \<or> xs = [StartRTSP, OnConnected]"
  proof (cases "sess a = Some p")
    case True
    with q have "st \<noteq> StateFailed" by blast
    then show ?thesis using w(4) by (simp split: if_splits)
  next
    case False
    then have "closed (sproxy (the_sess a p))" using agent_invD(2) [OF inv p] by (simp add: dead_sess_def)
    then show ?thesis using w(4) by simp
  qed
  from xs show ?thesis
  proof
    assume "xs = []"
    then show ?thesis using cb 1 by simp
  next
    assume "xs = [StartRTSP, OnConnected]"
    then have a': "a' = onConnected p ?a1" "es = [Peer p StartRTSP]" using cb by auto
    have "quiet a (onConnected p ?a1) ([] @ [])"
      using quiet_trans [OF 1 onConnected_quiet [OF inv1]] p by simp
    then show ?thesis by (simp add: a' quiet_def pcs_def peer_effects_def open_pcs_def)
  qed
qed

text \<open>A proxy step that ends the session: \<open>endSession\<close> after the proxy's own change.\<close>

lemma run_proxy_end:
  assumes "f (sproxy (the_sess a p)) = (wp, [OnEnd r])"
  shows "run_proxy w p f a = endSession w p r True (put_sess p ((the_sess a p)\<lparr>sproxy := wp\<rparr>) a)"
  using assms by (simp add: run_proxy_def case_prod_beta)

lemma run_proxy_none:
  assumes "f (sproxy (the_sess a p)) = (sproxy (the_sess a p), [])"
  shows "run_proxy w p f a = (a, [])"
  using assms by (simp add: run_proxy_def)

section \<open>Offers\<close>

lemma probe_now_frame:
  assumes "probe_now w a = (a', es, on)"
  shows "sess a' = sess a" "heap a' = heap a" "mqtt a' = mqtt a" "cfg a' = cfg a" "watching a' = watching a"
    "pcs es = 0" "filter (has_type typ) es = []" "on = online (source a')"
  using assms ProbeNow_result [of "probe w" "source a"]
  by (auto simp: probe_now_def Let_def split: prod.splits if_splits)

lemma available_frame:
  assumes "available w a = (a', es, on)"
  shows "sess a' = sess a" "heap a' = heap a" "mqtt a' = mqtt a" "cfg a' = cfg a" "watching a' = watching a"
    "pcs es = 0" "filter (has_type typ) es = []" "on = online (source a')"
  using assms probe_now_frame [of w a a' es on] by (auto simp: available_def split: if_splits)

lemma same_sessions:
  "sess a' = sess a \<Longrightarrow> heap a' = heap a \<Longrightarrow> agent_inv a' = agent_inv a"
  "sess a' = sess a \<Longrightarrow> heap a' = heap a \<Longrightarrow> mode_of a' = mode_of a"
  by (simp_all add: agent_inv_def mode_of_def split: option.split)

lemma early_frame:
  "sid (fold (\<lambda>c s. fst (queueICE c s)) cs s) = sid s \<and> viewer (fold (\<lambda>c s. fst (queueICE c s)) cs s) = viewer s \<and>
   sproxy (fold (\<lambda>c s. fst (queueICE c s)) cs s) = sproxy s \<and>
   iceStopped (fold (\<lambda>c s. fst (queueICE c s)) cs s) = iceStopped s \<and>
   iceReady (fold (\<lambda>c s. fst (queueICE c s)) cs s) = iceReady s \<and>
   connectTimer (fold (\<lambda>c s. fst (queueICE c s)) cs s) = connectTimer s \<and>
   (\<not> iceReady s \<longrightarrow> iceTimer (fold (\<lambda>c s. fst (queueICE c s)) cs s) = iceTimer s)"
proof (induction cs arbitrary: s)
  case (Cons c cs)
  obtain s1 fl where q: "queueICE c s = (s1, fl)" by fastforce
  from Cons [of s1] queueICE_frame [OF q] show ?case by (simp add: q)
qed simp

lemma proxy_answer_inv:
  assumes "HandleOffer p offer wantAudio (new_proxy a video audio) = (wp, es, Inr sdp)"
  shows "wp_inv wp" "\<not> closed wp" "pc wp" "open_pcs es = 1"
proof -
  have "unused (new_proxy a video audio)" by (simp add: new_proxy_def)
  from HandleOffer_answer [OF assms this] this
  show "wp_inv wp" "\<not> closed wp" "pc wp" "open_pcs es = 1"
    by (auto simp: wp_inv_def same_life_def unused_def new_proxy_def)
qed

text \<open>The agent between the registration of the session and \<open>startICE\<close>.\<close>

definition opened :: "world \<Rightarrow> string \<Rightarrow> string \<Rightarrow> WebRTCProxy \<Rightarrow> string \<Rightarrow> Agent \<Rightarrow> Agent" where
  "opened w from sid' wp sdp a =
     a\<lparr>heap := heap a @ [(fold (\<lambda>c s. fst (queueICE c s)) (early w) (NewSession sid' from wp))
         \<lparr>answer := Some (envelope w TypeAnswer sid' (enc_AnswerData \<lparr>answer_SDP = sdp\<rparr>))\<rparr>],
       sess := Some (length (heap a))\<rparr>"

lemma accept_offer_eq:
  "accept_offer w from sid' wp es sdp a =
    (let a1 = opened w from sid' wp sdp a; p = length (heap a); (a2, ice) = start_ice w p a1
     in (put_sess p ((the_sess a2 p)\<lparr>connectTimer := True\<rparr>) a2,
         map (Peer p) es @ [replay_answer a1 from (envelope w TypeAnswer sid' (enc_AnswerData \<lparr>answer_SDP = sdp\<rparr>)),
                            publish_state w a1] @ ice))"
  by (simp add: accept_offer_def opened_def Let_def)

text \<open>\<open>startICE\<close> sends what was queued before: nothing waits and no batch timer runs.\<close>

lemma started_live:
  assumes "startICE s = (s2, fl)" and "(if fl then flushICE s2 else (s2, None)) = (s3, d)"
    and "\<not> iceStopped s" "\<not> iceTimer s" "answer s = Some msg" "member msg ''type'' = Some (JStr TypeAnswer)"
    and "wp_inv (sproxy s)" "\<not> closed (sproxy s)" "pc (sproxy s)"
  shows "live_sess s3"
  using assms by (auto simp: startICE_def flushICE_def live_sess_def Let_def split: if_splits)

lemma accept_offer_opens:
  assumes inv: "agent_inv a" and idle: "sess a = None" and wp: "wp_inv wp" "\<not> closed wp" "pc wp"
    and acc: "accept_offer w from sid' wp xs sdp a = (a', es)"
  obtains a2 ice where "agent_inv a'" "sess a' = Some (length (heap a))" "mode_of a' = Busy sid' from"
    "es = map (Peer (length (heap a))) xs @
      [replay_answer a from (envelope w TypeAnswer sid' (enc_AnswerData \<lparr>answer_SDP = sdp\<rparr>)),
       publish_state w (opened w from sid' wp sdp a)] @ ice"
    "pcs ice = 0" "filter (has_type TypeBye) ice = []" "filter (has_type TypeAnswer) ice = []"
    "length ice \<le> 1" "list_all (has_type TypeICE) ice"
    "answer (the_sess a' (length (heap a))) =
       Some (envelope w TypeAnswer sid' (enc_AnswerData \<lparr>answer_SDP = sdp\<rparr>))"
    "mqtt a' = mqtt a" "cfg a' = cfg a" "source a' = source a" "watching a' = watching a"
proof -
  let ?p = "length (heap a)"
  let ?ans = "envelope w TypeAnswer sid' (enc_AnswerData \<lparr>answer_SDP = sdp\<rparr>)"
  define a1 where "a1 = opened w from sid' wp sdp a"
  define s1 where "s1 = the_sess a1 ?p"
  have s1: "sid s1 = sid'" "viewer s1 = from" "sproxy s1 = wp" "\<not> iceStopped s1" "answer s1 = Some ?ans"
    "\<not> iceTimer s1"
    using early_frame [of "early w" "NewSession sid' from wp"]
    by (simp_all add: s1_def a1_def opened_def NewSession_def)
  have a1: "?p < length (heap a1)" "sess a1 = Some ?p" "mqtt a1 = mqtt a" "cfg a1 = cfg a"
    "source a1 = source a" "watching a1 = watching a" "heap a1 = heap a @ [s1]"
    by (simp_all add: a1_def opened_def s1_def)
  define s2 where "s2 = s1\<lparr>iceReady := True\<rparr>"
  obtain fl where st: "startICE s1 = (s2, fl)" by (simp add: startICE_def Let_def s2_def)
  obtain s3 d where f: "(if fl then flushICE s2 else (s2, None)) = (s3, d)" by fastforce
  have s2: "sid s2 = sid'" "viewer s2 = from" "answer s2 = Some ?ans" using s1 by (simp_all add: s2_def)
  have live3: "live_sess s3"
    using started_live [OF st f, of ?ans] s1 wp by simp
  have s3: "sid s3 = sid'" "viewer s3 = from" "answer s3 = Some ?ans"
    using flushICE_frame [of s2 s3 d] f s2 by (cases fl; simp)+
  have ts: "the_sess a1 ?p = s1" by (simp add: s1_def)
  have si: "start_ice w ?p a1 = (put_sess ?p s3 a1, send_batch w a1 s3 d)"
    using f a1(1) by (cases fl) (auto simp: start_ice_def ts st flush_def send_batch_put)
  have eq: "a' = put_sess ?p (s3\<lparr>connectTimer := True\<rparr>) a1"
    "es = map (Peer ?p) xs @ [replay_answer a1 from ?ans, publish_state w a1] @ send_batch w a1 s3 d"
    using acc a1(1) by (auto simp: accept_offer_eq Let_def a1_def [symmetric] si)
  then have live3: "live_sess (s3\<lparr>connectTimer := True\<rparr>)" using live3 by (simp add: live_sess_def)
  show thesis
  proof (rule that [of "send_batch w a1 s3 d"])
    show "agent_inv a'"
      using inv idle live3 a1(2,7) by (auto simp: agent_inv_def eq(1) put_sess_def nth_append nth_list_update)
    show "mode_of a' = Busy sid' from" "sess a' = Some ?p"
      using a1(1,2) s3 by (simp_all add: mode_of_def eq(1))
    show "answer (the_sess a' ?p) = Some ?ans" using a1(1) by (simp add: eq(1) s3)
    show "list_all (has_type TypeICE) (send_batch w a1 s3 d)" "length (send_batch w a1 s3 d) \<le> 1"
      by (simp_all add: send_batch_def split: option.split)
    show "es = map (Peer ?p) xs @ [replay_answer a from ?ans, publish_state w (opened w from sid' wp sdp a)] @
        send_batch w a1 s3 d"
      by (simp add: eq(2) replay_answer_def a1(3) a1_def [symmetric])
  qed (simp_all add: eq(1) a1)
qed

lemma sendError_quiet [simp]:
  "filter (has_type TypeBye) [sendError w a to s c m r] = []" "pcs [sendError w a to s c m r] = 0"
  by (simp_all add: type_defs)

text \<open>The offer that is answered: what becomes of it.\<close>

lemma answer_offer_step:
  assumes inv: "agent_inv a" and idle: "sess a = None" and h: "answer_offer w from sid' d a = (a', es)"
  shows "(case codecs a of (video, audio) \<Rightarrow>
      if video = '''' then None
      else case HandleOffer (lib w) (offer_SDP d) (want_audio d) (new_proxy a video audio) of
             (_, _, Inr sdp) \<Rightarrow> Some sdp | _ \<Rightarrow> None) = Some sdp \<Longrightarrow>
      agent_inv a' \<and> mode_of a' = Busy sid' from \<and> sess a' \<noteq> None \<and> pcs es = 1 \<and> filter (has_type TypeBye) es = []"
    and "(case codecs a of (video, audio) \<Rightarrow>
      if video = '''' then None
      else case HandleOffer (lib w) (offer_SDP d) (want_audio d) (new_proxy a video audio) of
             (_, _, Inr sdp) \<Rightarrow> Some sdp | _ \<Rightarrow> None) = None \<Longrightarrow> quiet a a' es"
proof -
  obtain video audio where c: "codecs a = (video, audio)" by fastforce
  obtain wp xs r where ho: "HandleOffer (lib w) (offer_SDP d) (want_audio d) (new_proxy a video audio) = (wp, xs, r)"
    by (metis prod_cases3)
  have un: "unused (new_proxy a video audio)" by (simp add: new_proxy_def)
  { assume "(case codecs a of (video, audio) \<Rightarrow>
      if video = '''' then None
      else case HandleOffer (lib w) (offer_SDP d) (want_audio d) (new_proxy a video audio) of
             (_, _, Inr sdp) \<Rightarrow> Some sdp | _ \<Rightarrow> None) = Some sdp"
    then have v: "video \<noteq> ''''" and r: "r = Inr sdp" by (auto simp: c ho split: if_splits sum.splits)
    note pi = proxy_answer_inv [OF ho [unfolded r]]
    have "accept_offer w from sid' wp xs sdp a = (a', es)" using h v by (simp add: answer_offer_def c ho r)
    from accept_offer_opens [OF inv idle pi(1-3) this] obtain ice where
      "agent_inv a'" "sess a' = Some (length (heap a))" "mode_of a' = Busy sid' from"
      "es = map (Peer (length (heap a))) xs @
        [replay_answer a from (envelope w TypeAnswer sid' (enc_AnswerData \<lparr>answer_SDP = sdp\<rparr>)),
         publish_state w (opened w from sid' wp sdp a)] @ ice"
      "pcs ice = 0" "filter (has_type TypeBye) ice = []" by metis
    then show "agent_inv a' \<and> mode_of a' = Busy sid' from \<and> sess a' \<noteq> None \<and> pcs es = 1 \<and>
        filter (has_type TypeBye) es = []"
      using pi(4) by (simp add: type_defs) }
  { assume none: "(case codecs a of (video, audio) \<Rightarrow>
      if video = '''' then None
      else case HandleOffer (lib w) (offer_SDP d) (want_audio d) (new_proxy a video audio) of
             (_, _, Inr sdp) \<Rightarrow> Some sdp | _ \<Rightarrow> None) = None"
    show "quiet a a' es"
    proof (cases "video = ''''")
      case True
      with h have "a' = a" "es = [sendError w a from sid' ErrUnsupportedCodec
          ''the camera announces no video codec WebRTC can carry'' False]"
        by (auto simp: answer_offer_def c)
      with inv show ?thesis by (simp add: quiet_refl)
    next
      case False
      with none obtain se where r: "r = Inl se" by (auto simp: c ho split: sum.splits)
      then have "a' = a" "es = map (Peer (length (heap a))) xs @
          [sendError w a from sid' (se_Code se) (se_Msg se) (se_Code se = ErrInternal)]"
        using h False by (auto simp: answer_offer_def c ho)
      then show ?thesis
        using inv HandleOffer_error(1) [OF ho [unfolded r] un] by (simp add: quiet_refl type_defs)
    qed }
qed

lemma handleOffer_step:
  assumes inv: "agent_inv a" and h: "handleOffer w from env a = (a', es)"
  shows "offer_request a env = Some d \<Longrightarrow> answer_to w d a = Some sdp \<Longrightarrow>
      agent_inv a' \<and> mode_of a' = Busy (SID env) from \<and> sess a' \<noteq> None \<and> sess a = None \<and> pcs es = 1 \<and>
      filter (has_type TypeBye) es = []"
    and "(\<And>d. offer_request a env = Some d \<Longrightarrow> answer_to w d a = None) \<Longrightarrow> quiet a a' es"
proof -
  { assume o: "offer_request a env = Some d" and an: "answer_to w d a = Some sdp"
    then have req: "sidPattern (SID env)" "sess a = None" "unmarshal dec_OfferData zero_OfferData (Data env) = Some d"
      "offer_SDP d \<noteq> ''''" "bad_stream d = None"
      by (auto simp: offer_request_def split: if_splits option.splits)
    obtain a1 es1 ok where av: "available w a = (a1, es1, ok)" by (metis prod_cases3)
    note f = available_frame [OF av]
    have inv1: "agent_inv a1" using inv f(1,2) same_sessions(1) by metis
    have ok: "ok" using an by (auto simp: answer_to_def av split: if_splits prod.splits)
    obtain a2 fs where ao: "answer_offer w from (SID env) d a1 = (a2, fs)" by fastforce
    have "a' = a2" "es = es1 @ fs" using h req ok by (simp_all add: handleOffer_def av ao)
    moreover have "sess a1 = None" using f(1) req(2) by simp
    moreover have "agent_inv a2 \<and> mode_of a2 = Busy (SID env) from \<and> sess a2 \<noteq> None \<and> pcs fs = 1 \<and>
        filter (has_type TypeBye) fs = []"
      by (rule answer_offer_step(1) [OF inv1 \<open>sess a1 = None\<close> ao])
         (use an ok in \<open>auto simp: answer_to_def av split: prod.splits if_splits\<close>)
    ultimately show "agent_inv a' \<and> mode_of a' = Busy (SID env) from \<and> sess a' \<noteq> None \<and> sess a = None \<and>
        pcs es = 1 \<and> filter (has_type TypeBye) es = []"
      using f(6,7) req(2) by simp }
  { assume no: "\<And>d. offer_request a env = Some d \<Longrightarrow> answer_to w d a = None"
    show "quiet a a' es"
    proof (cases "offer_request a env")
      case None
      then show ?thesis
        using h inv agent_invD(1) [OF inv]
        by (auto simp: handleOffer_def offer_request_def live_sess_def intro!: quiet_refl
            split: if_splits option.splits)
    next
      case (Some d)
      then have req: "sidPattern (SID env)" "sess a = None" "unmarshal dec_OfferData zero_OfferData (Data env) = Some d"
        "offer_SDP d \<noteq> ''''" "bad_stream d = None"
        by (auto simp: offer_request_def split: if_splits option.splits)
      obtain a1 es1 ok where av: "available w a = (a1, es1, ok)" by (metis prod_cases3)
      note f = available_frame [OF av]
      have q1: "quiet a a1 es1"
        using f(1,2,6,7) inv same_sessions by (metis quiet_def)
      then have inv1: "agent_inv a1" and idle1: "sess a1 = None" using req(2) by (simp_all add: quiet_def)
      show ?thesis
      proof (cases ok)
        case False
        then have "a' = a1" "es = es1 @ [sendError w a1 from (SID env) ErrSourceUnavailable ''camera unreachable'' True]"
          using h req by (auto simp: handleOffer_def av)
        then show ?thesis using quiet_trans [OF q1 quiet_refl [OF inv1]] by simp
      next
        case True
        obtain a2 fs where ao: "answer_offer w from (SID env) d a1 = (a2, fs)" by fastforce
        have eq: "a' = a2" "es = es1 @ fs" using h req True by (simp_all add: handleOffer_def av ao)
        have "quiet a1 a2 fs"
          by (rule answer_offer_step(2) [OF inv1 idle1 ao])
             (use no [OF Some] True in \<open>auto simp: answer_to_def av split: prod.splits if_splits\<close>)
        then show ?thesis using quiet_trans [OF q1] eq by simp
      qed
    qed }
qed

section \<open>All events\<close>

text \<open>What the end of the active session leaves: from any agent that differs in timers and proxy only.\<close>

lemma ends_from:
  assumes inv: "agent_inv a" and s: "sess a = Some p"
    and s1: "live_sess s1" "sid s1 = sid (the_sess a p)" "viewer s1 = viewer (the_sess a p)"
    and e: "endSession w p reason b (put_sess p s1 a) = (a', es)"
  shows "agent_inv a' \<and> mode_of a' = Idle \<and> sess a' = None \<and> pcs es = -1 \<and>
    filter (has_type TypeBye) es =
      (if b then [send w a (viewer (the_sess a p)) TypeBye (sid (the_sess a p)) (Some (enc_ByeData \<lparr>Reason = reason\<rparr>))]
       else [])"
proof -
  have p: "p < length (heap a)" using agent_invD(1) [OF inv s] by blast
  have inv1: "agent_inv (put_sess p s1 a)" using agent_inv_put [OF inv p] s s1(1) by simp
  have s': "sess (put_sess p s1 a) = Some p" using s by simp
  note l = endSession_live [OF inv1 s' e]
  have "send w (put_sess p s1 a) = send w a" by (intro ext) (simp add: send_def)
  then show ?thesis using l(1-3,5) p s1(2,3) by (simp add: mode_of_def)
qed

lemma message_step:
  assumes inv: "agent_inv a" and st: "on_message w topic msg a = (a', es)"
  shows "(accepts w (Message topic msg) a = None \<and> end_cause w (Message topic msg) a = None \<and> quiet a a' es) \<or>
    (\<exists>s v. accepts w (Message topic msg) a = Some (s, v) \<and> sess a = None \<and>
       agent_inv a' \<and> mode_of a' = Busy s v \<and> sess a' \<noteq> None \<and> pcs es = 1 \<and> filter (has_type TypeBye) es = []) \<or>
    (\<exists>p. sess a = Some p \<and> end_cause w (Message topic msg) a = Some (ByeUser, False) \<and>
       accepts w (Message topic msg) a = None \<and> endSession w p ByeUser False a = (a', es))"
proof (cases "handleMessage (mqtt a) (now w) topic msg")
  case None
  with st inv show ?thesis by (auto simp: on_message_def accepts_def end_cause_def intro!: quiet_refl)
next
  case (Some fes)
  obtain fr env stale where f: "fes = (fr, env, stale)" by (metis prod_cases3)
  note hm = Some [unfolded f]
  have st': "handleEnvelope w fr env stale a = (a', es)" using st by (simp add: on_message_def hm)
  show ?thesis
  proof (cases stale)
    case True
    with st' inv show ?thesis
      by (auto simp: accepts_def end_cause_def hm handleEnvelope_def intro!: quiet_refl split: if_splits)
  next
    case False
    then have hm: "handleMessage (mqtt a) (now w) topic msg = Some (fr, env, False)" using hm by simp
    consider (offer) "Type env = TypeOffer" | (ice) "Type env = TypeICE" | (bye) "Type env = TypeBye"
      | (cmd) "Type env = TypeCmd"
      | (other) "Type env \<noteq> TypeOffer" "Type env \<noteq> TypeICE" "Type env \<noteq> TypeBye" "Type env \<noteq> TypeCmd" by blast
    then show ?thesis
    proof cases
      case offer
      then have h: "handleOffer w fr env a = (a', es)" using st' False by (simp add: handleEnvelope_def)
      have ec: "end_cause w (Message topic msg) a = None" by (simp add: end_cause_def hm offer)
      show ?thesis
      proof (cases "\<exists>d sdp. offer_request a env = Some d \<and> answer_to w d a = Some sdp")
        case True
        then obtain d sdp where d: "offer_request a env = Some d" "answer_to w d a = Some sdp" by blast
        then have "accepts w (Message topic msg) a = Some (SID env, fr)" by (simp add: accepts_def hm offer)
        then show ?thesis using handleOffer_step(1) [OF inv h d] by blast
      next
        case False
        then have "accepts w (Message topic msg) a = None"
          by (auto simp: accepts_def hm offer split: option.split)
        then show ?thesis using handleOffer_step(2) [OF inv h] False ec by (metis not_None_eq)
      qed
    next
      case ice
      then have "a' = a" "pcs es = 0" "filter (has_type TypeBye) es = []"
        using st' False
        by (auto simp: handleEnvelope_def handleICE_def add_candidate_def AddICECandidate_def open_pcs_def
            filter_empty_conv split: if_splits option.splits)
      then show ?thesis using inv by (auto simp: accepts_def end_cause_def hm ice intro!: quiet_refl)
    next
      case bye
      show ?thesis
      proof (cases "owned a fr env")
        case None
        then have "a' = a" "es = []" using st' False bye by (simp_all add: handleEnvelope_def handleBye_def)
        then show ?thesis using inv by (simp add: accepts_def end_cause_def hm bye None quiet_refl)
      next
        case (Some p)
        then have "sess a = Some p" by (auto simp: owned_def split: option.splits if_splits)
        moreover have "endSession w p ByeUser False a = (a', es)"
          using st' False bye Some by (simp add: handleEnvelope_def handleBye_def)
        ultimately show ?thesis by (simp add: accepts_def end_cause_def hm bye Some)
      qed
    next
      case cmd
      then have "a' = a" "pcs es = 0" "filter (has_type TypeBye) es = []"
        using st' False by (auto simp: handleEnvelope_def handleCmd_def split: if_splits option.splits)
      then show ?thesis using inv by (simp add: accepts_def end_cause_def hm cmd quiet_refl)
    next
      case other
      then have "a' = a" "es = []" using st' False by (simp_all add: handleEnvelope_def)
      then show ?thesis using inv other by (simp add: accepts_def end_cause_def hm quiet_refl)
    qed
  qed
qed

definition busy :: "Agent \<Rightarrow> int" where
  "busy a = (if sess a = None then 0 else 1)"

text \<open>The bye an event makes the agent send.\<close>

definition bye_of :: "world \<Rightarrow> Agent \<Rightarrow> mode \<Rightarrow> (string \<times> bool) option \<Rightarrow> effect list" where
  "bye_of w a m cause =
     (case (m, cause) of
        (Busy s v, Some (reason, True)) \<Rightarrow> [send w a v TypeBye s (Some (enc_ByeData \<lparr>Reason = reason\<rparr>))]
      | _ \<Rightarrow> [])"

definition step_ok :: "world \<Rightarrow> event \<Rightarrow> Agent \<Rightarrow> Agent \<Rightarrow> effect list \<Rightarrow> bool" where
  "step_ok w e a a' es \<longleftrightarrow> agent_inv a' \<and>
     mode_of a' = mode_step (accepts w e a) (end_cause w e a) (mode_of a) \<and>
     pcs es = busy a' - busy a \<and>
     filter (has_type TypeBye) es = bye_of w a (mode_of a) (end_cause w e a)"

lemma step_ok_quiet:
  assumes "quiet a a' es" and "accepts w e a = None \<or> sess a \<noteq> None" and "end_cause w e a = None \<or> sess a = None"
  shows "step_ok w e a a' es"
  using assms by (cases "sess a")
    (auto simp: step_ok_def quiet_def mode_step_def mode_of_def busy_def bye_of_def split: option.splits)

lemma step_ok_ends:
  assumes inv: "agent_inv a" and s: "sess a = Some p"
    and s1: "live_sess s1" "sid s1 = sid (the_sess a p)" "viewer s1 = viewer (the_sess a p)"
    and e: "endSession w p reason b (put_sess p s1 a) = (a', es)"
    and cause: "end_cause w ev a = Some (reason, b)"
  shows "step_ok w ev a a' es"
  using ends_from [OF inv s s1 e] s cause
  by (cases b) (simp_all add: step_ok_def mode_step_def mode_of_def busy_def bye_of_def)

lemma accepts_only_messages: "accepts w e a \<noteq> None \<Longrightarrow> \<exists>t m. e = Message t m"
  by (cases e) (auto simp: accepts_def)

lemma proxy_event_ok:
  assumes inv: "agent_inv a" and p: "p < length (heap a)"
    and f: "f (sproxy (the_sess a p)) = (wp, if c \<and> sess a = Some p then [OnEnd r] else [])"
    and wp: "wp_inv wp" "closed wp = closed (sproxy (the_sess a p))" "pc wp = pc (sproxy (the_sess a p))"
    and acc: "accepts w e a = None"
    and cause: "end_cause w e a = (if sess a = Some p \<and> c then Some (r, True) else None)"
    and st: "run_proxy w p f a = (a', es)"
  shows "step_ok w e a a' es"
proof -
  let ?s1 = "(the_sess a p)\<lparr>sproxy := wp\<rparr>"
  show ?thesis
  proof (cases "c \<and> sess a = Some p")
    case True
    then have s: "sess a = Some p" by blast
    have "live_sess ?s1" using agent_invD(1) [OF inv s] wp by (simp add: live_sess_def)
    moreover have "endSession w p r True (put_sess p ?s1 a) = (a', es)"
      using run_proxy_end [of f a p wp r w] f st True by simp
    ultimately show ?thesis using step_ok_ends [OF inv s _ _ _ _ ] cause True by simp
  next
    case False
    have q: "quiet a (put_sess p ?s1 a) []"
      using agent_invD [OF inv, of p] p wp by (intro quiet_put [OF inv p]) (auto simp: live_sess_def dead_sess_def)
    have "a' = put_sess p ?s1 a" "es = []"
      using st f False by (auto simp: run_proxy_def split: if_splits)
    with q show ?thesis using acc cause False by (intro step_ok_quiet) auto
  qed
qed

text \<open>The connection timer stops itself before it ends the session.\<close>

lemma connect_timeout_ok:
  assumes inv: "agent_inv a" and p: "p < length (heap a)" and st: "connect_timeout w p a = (a', es)"
  shows "step_ok w (ConnectTimeout p) a a' es"
proof (cases "connectTimer (the_sess a p)")
  case False
  then show ?thesis using st inv
    by (intro step_ok_quiet) (auto simp: connect_timeout_def accepts_def end_cause_def intro!: quiet_refl)
next
  case armed: True
  let ?s1 = "(the_sess a p)\<lparr>connectTimer := False\<rparr>"
  show ?thesis
  proof (cases "sess a = Some p")
    case True
    have "live_sess ?s1" using agent_invD(1) [OF inv True] by (simp add: live_sess_def)
    moreover have "endSession w p ByeTimeout True (put_sess p ?s1 a) = (a', es)"
      using st armed by (simp add: connect_timeout_def stop_timer_def)
    ultimately show ?thesis
      using step_ok_ends [OF inv True] armed True by (simp add: end_cause_def)
  next
    case False
    have "quiet a (put_sess p ?s1 a) []"
      using agent_invD(2) [OF inv p False] False by (intro quiet_put [OF inv p]) (auto simp: dead_sess_def)
    moreover have "a' = put_sess p ?s1 a" "es = []"
      using st armed False by (simp_all add: connect_timeout_def stop_timer_def endSession_other)
    ultimately show ?thesis
      using False by (intro step_ok_quiet) (auto simp: accepts_def end_cause_def)
  qed
qed

lemma monitor_tick_quiet:
  assumes "agent_inv a" and "monitor_tick w a = (a', es)"
  shows "quiet a a' es"
proof (cases "stopped (source a) \<or> sess a \<noteq> None")
  case True
  with assms show ?thesis by (auto simp: monitor_tick_def intro!: quiet_refl)
next
  case False
  obtain a1 fs ok where n: "probe_now w a = (a1, fs, ok)" by (metis prod_cases3)
  have "a' = a1" "es = fs" using assms(2) False by (simp_all add: monitor_tick_def n)
  then show ?thesis
    using assms(1) probe_now_frame [OF n] same_sessions [of a1 a] by (simp add: quiet_def)
qed

lemma on_connect_quiet:
  assumes "agent_inv a" and "on_connect w a = (a', es)"
  shows "quiet a a' es"
proof -
  obtain m acts b where n: "onConnect (state_of a (now w)) (mqtt a) = (m, acts, b)" by (metis prod_cases3)
  let ?acts = "acts @ (if b then selfTestACL (acl w) else [])"
  have "a' = a\<lparr>mqtt := m\<rparr>" "es = map Broker ?acts" using assms(2) by (simp_all add: on_connect_def n)
  moreover have "filter (has_type TypeBye) (map Broker ?acts) = []"
    using n by (auto simp: onConnect_def Let_def filter_empty_conv selfTestACL_def
        split: if_splits sub_result.splits)
  moreover have "pcs (map Broker acts) = 0" for acts by (induction acts) simp_all
  ultimately show ?thesis using assms(1) same_sessions [of a' a] by (simp add: quiet_def)
qed

lemma message_ok:
  assumes inv: "agent_inv a" and st: "on_message w topic msg a = (a', es)"
  shows "step_ok w (Message topic msg) a a' es"
  using message_step [OF inv st]
proof (elim disjE exE conjE)
  assume "accepts w (Message topic msg) a = None" "end_cause w (Message topic msg) a = None" "quiet a a' es"
  then show ?thesis by (intro step_ok_quiet) auto
next
  fix s v
  assume "accepts w (Message topic msg) a = Some (s, v)" "sess a = None" "agent_inv a'"
    "mode_of a' = Busy s v" "sess a' \<noteq> None" "pcs es = 1" "filter (has_type TypeBye) es = []"
  then show ?thesis by (simp add: step_ok_def mode_step_def mode_of_def [of a] busy_def bye_of_def)
next
  fix p
  assume s: "sess a = Some p" and c: "end_cause w (Message topic msg) a = Some (ByeUser, False)"
    and e: "endSession w p ByeUser False a = (a', es)"
  have "live_sess (the_sess a p)" using agent_invD(1) [OF inv s] by blast
  then show ?thesis using step_ok_ends [OF inv s, of "the_sess a p"] e c by simp
qed

text \<open>Events of a session that does not exist.\<close>

lemma no_session_step:
  assumes inv: "agent_inv a" and p: "\<not> p < length (heap a)"
    and e: "e \<in> {ConnectTimeout p, PeerState p x, GraceTimer p, StreamEnd p}"
  shows "step_ok w e a a []"
proof -
  have "sess a \<noteq> Some p" using agent_invD(1) [OF inv] p by blast
  then show ?thesis using e inv
    by (intro step_ok_quiet quiet_refl) (auto simp: accepts_def end_cause_def)
qed

lemma closed_iff_ended: "agent_inv a \<Longrightarrow> p < length (heap a) \<Longrightarrow> closed (sproxy (the_sess a p)) = (sess a \<noteq> Some p)"
  using agent_invD by (cases "sess a = Some p") (auto simp: live_sess_def dead_sess_def)

lemma peer_state_ok:
  assumes inv: "agent_inv a" and p: "p < length (heap a)"
    and st: "run_proxy w p (handleConnectionState x) a = (a', es)"
  shows "step_ok w (PeerState p x) a a' es"
proof (cases "sess a = Some p \<and> x = StateFailed")
  case False
  then show ?thesis
    using peer_state_quiet [OF inv p _ st] by (intro step_ok_quiet) (auto simp: accepts_def end_cause_def)
next
  case True
  obtain wp xs where h: "handleConnectionState x (sproxy (the_sess a p)) = (wp, xs)" by fastforce
  note w = handleConnectionState_inv [OF agent_wp_inv [OF inv p] h]
  show ?thesis
    by (rule proxy_event_ok [where f = "handleConnectionState x" and wp = wp and c = True and r = ByeICEFailed, OF inv p])
       (use True st w h closed_iff_ended [OF inv p] in \<open>simp_all add: accepts_def end_cause_def\<close>)
qed

lemma grace_ok:
  assumes inv: "agent_inv a" and p: "p < length (heap a)" and st: "run_proxy w p disconnect_fires a = (a', es)"
  shows "step_ok w (GraceTimer p) a a' es"
  by (rule proxy_event_ok [where f = disconnect_fires and r = ByeICEFailed and wp = "sproxy (the_sess a p)"
        and c = "disconnectTimer (sproxy (the_sess a p)) \<noteq> None", OF inv p])
     (use st disconnect_fires_inv [OF agent_wp_inv [OF inv p]] agent_wp_inv [OF inv p] closed_iff_ended [OF inv p]
      in \<open>auto simp: accepts_def end_cause_def\<close>)

lemma stream_end_ok:
  assumes inv: "agent_inv a" and p: "p < length (heap a)"
    and st: "run_proxy w p (proxy_end ByeSourceLost) a = (a', es)"
  shows "step_ok w (StreamEnd p) a a' es"
  by (rule proxy_event_ok [where f = "proxy_end ByeSourceLost" and r = ByeSourceLost
        and wp = "sproxy (the_sess a p)" and c = True, OF inv p])
     (use st proxy_end_inv [OF agent_wp_inv [OF inv p]] agent_wp_inv [OF inv p] closed_iff_ended [OF inv p]
      in \<open>auto simp: accepts_def end_cause_def\<close>)

theorem agent_step_ok:
  assumes inv: "agent_inv a" and st: "agent_step w e a = (a', es)"
  shows "step_ok w e a a' es"
proof (cases e)
  case (Message topic msg)
  then show ?thesis using message_ok [OF inv] st by simp
next
  case (LocalICE p c)
  have "quiet a a' es"
    using st inv local_ice_quiet [OF inv] by (auto simp: LocalICE intro!: quiet_refl split: if_splits)
  then show ?thesis by (rule step_ok_quiet) (simp_all add: LocalICE accepts_def end_cause_def)
next
  case (BatchTimer p)
  have "quiet a a' es"
    using st inv batch_timer_quiet [OF inv] by (auto simp: BatchTimer intro!: quiet_refl split: if_splits)
  then show ?thesis by (rule step_ok_quiet) (simp_all add: BatchTimer accepts_def end_cause_def)
next
  case MonitorTick
  then show ?thesis
    using st monitor_tick_quiet [OF inv] by (auto simp: accepts_def end_cause_def intro!: step_ok_quiet)
next
  case Connected
  then show ?thesis
    using st on_connect_quiet [OF inv] by (auto simp: accepts_def end_cause_def intro!: step_ok_quiet)
next
  case (ConnectTimeout p)
  then show ?thesis using st connect_timeout_ok [OF inv] no_session_step [OF inv] by (simp split: if_splits)
next
  case (PeerState p x)
  then show ?thesis using st peer_state_ok [OF inv] no_session_step [OF inv] by (simp split: if_splits)
next
  case (GraceTimer p)
  then show ?thesis using st grace_ok [OF inv] no_session_step [OF inv] by (simp split: if_splits)
next
  case (StreamEnd p)
  then show ?thesis using st stream_end_ok [OF inv] no_session_step [OF inv] by (simp split: if_splits)
qed
end
