(* ===== verification/AgentRuns.thy ===== *)
theory AgentRuns imports AgentSpec begin

text \<open>
  Runs of the agent: which agents are reachable, what no event changes, and what is published. The
  second half follows the retained state through every handler.
\<close>

section \<open>Reachable agents\<close>

text \<open>
  An agent that \<open>NewAgent\<close> built and \<open>Run\<close> started, after any events, each met with any clock, probe
  result and library.
\<close>

inductive reachable :: "Agent \<Rightarrow> bool" where
  reach_start: "NewAgent readFile validPEM t c = Inr (a, opts) \<Longrightarrow> reachable (start w a)"
| reach_step: "reachable a \<Longrightarrow> agent_step w e a = (a', es) \<Longrightarrow> reachable a'"

lemma start_idle:
  assumes "NewAgent readFile validPEM t c = Inr (a, opts)"
  shows "sess (start w a) = None" "heap (start w a) = []" "watching (start w a)"
    "mqtt (start w a) = mqtt a" "cfg (start w a) = c"
proof -
  have a: "sess a = None \<and> heap a = [] \<and> cfg a = c"
    using assms by (auto simp: NewAgent_def blank_agent_def split: sum.splits)
  obtain a1 es on where p: "probe_now w a = (a1, es, on)" by (metis prod_cases3)
  note f = probe_now_frame [OF p]
  show "sess (start w a) = None" "heap (start w a) = []" "watching (start w a)"
    "mqtt (start w a) = mqtt a" "cfg (start w a) = c"
    using a f by (simp_all add: start_def p)
qed

lemma start_inv: "NewAgent readFile validPEM t c = Inr (a, opts) \<Longrightarrow> agent_inv (start w a)"
  by (simp add: agent_inv_def start_idle)

lemma reachable_inv: "reachable a \<Longrightarrow> agent_inv a"
proof (induction rule: reachable.induct)
  case (reach_step a w e a' es)
  then show ?case using agent_step_ok [of a w e a' es] by (simp add: step_ok_def)
qed (rule start_inv)

section \<open>Runs\<close>

text \<open>
  The contract of a relation between an agent, a later one, and the effects in between: it holds of every
  event and composes. It then holds of every run.
\<close>

locale run_relation =
  fixes R :: "Agent \<Rightarrow> Agent \<Rightarrow> effect list \<Rightarrow> bool"
  assumes stays: "R a a []"
    and compose: "R a b es \<Longrightarrow> R b c fs \<Longrightarrow> R a c (es @ fs)"
    and event: "agent_step w e a = (a', es) \<Longrightarrow> R a a' es"
begin

lemma run: "agent_run evs a = (a', es) \<Longrightarrow> R a a' es"
proof (induction evs arbitrary: a es)
  case (Cons we evs)
  obtain w e where we: "we = (w, e)" by fastforce
  obtain a1 fs where s: "agent_step w e a = (a1, fs)" by fastforce
  obtain gs where r: "agent_run evs a1 = (a', gs)" "es = fs @ gs"
    using Cons.prems by (auto simp: we s split: prod.splits)
  show ?case using compose [OF event [OF s] Cons.IH [OF r(1)]] r(2) by simp
qed (auto intro: stays)

end

text \<open>The invariant, with the PeerConnections opened and closed; and reachability.\<close>

interpretation counted: run_relation "\<lambda>a a' es. agent_inv a \<longrightarrow> agent_inv a' \<and> pcs es = busy a' - busy a"
  by unfold_locales (use agent_step_ok in \<open>auto simp: step_ok_def\<close>)

interpretation reaches: run_relation "\<lambda>a a' _. reachable a \<longrightarrow> reachable a'"
  by unfold_locales (auto intro: reach_step)

lemma agent_run_inv:
  "agent_inv a \<Longrightarrow> agent_run evs a = (a', es) \<Longrightarrow> agent_inv a' \<and> pcs es = busy a' - busy a"
  using counted.run by blast

lemma reachable_run: "reachable a \<Longrightarrow> agent_run evs a = (a', es) \<Longrightarrow> reachable a'"
  using reaches.run by blast

section \<open>What is kept, and what is published\<close>

text \<open>The retained states among the effects.\<close>

definition states :: "Agent \<Rightarrow> effect list \<Rightarrow> json list" where
  "states a es = concat (map (\<lambda>e. case e of
       Broker (Publish t q True j) \<Rightarrow> (if t = topicState (mqtt a) then [j] else []) | _ \<Rightarrow> []) es)"

lemma states_simps [simp]:
  "states a [] = []" "states a (es @ fs) = states a es @ states a fs"
  "states a (Peer p x # es) = states a es" "states a (map (Peer p) xs) = []"
  "states a (send w b to t s d # es) = states a es"
  "states a (sendError w b to s c m r # es) = states a es"
  "states a (replay_answer b to msg # es) = states a es"
  "states a (Broker (Subscribe t' q) # es) = states a es" "states a (Broker (Unsubscribe t') # es) = states a es"
  "states a (publish_state w b # es) =
     (if topicState (mqtt b) = topicState (mqtt a) then [enc_State (state_of b (now w) True)] else []) @ states a es"
  "states a (Broker (PublishState mq f on) # es) =
     (if topicState mq = topicState (mqtt a) then [enc_State (f on)] else []) @ states a es"
  by (simp_all add: states_def send_def sendError_def Send_def publish_def replay_answer_def
      publish_state_def PublishState_def comp_def)

lemma states_mqtt:
  assumes "topicState (mqtt b) = topicState (mqtt a)"
  shows "states b es = states a es"
  unfolding states_def assms by (rule refl)

lemma states_batch [simp]: "states a (send_batch w b s d) = []"
  by (simp add: send_batch_def split: option.split)

text \<open>What no event changes: the configuration, the topics, and of a session its id, viewer and answer.\<close>

definition kept :: "Agent \<Rightarrow> Agent \<Rightarrow> bool" where
  "kept a a' \<longleftrightarrow> cfg a' = cfg a \<and> watching a' = watching a \<and> mq_id (mqtt a') = mq_id (mqtt a) \<and>
     topicIn (mqtt a') = topicIn (mqtt a) \<and> topicState (mqtt a') = topicState (mqtt a) \<and>
     length (heap a) \<le> length (heap a') \<and>
     (\<forall>p < length (heap a). sid (the_sess a' p) = sid (the_sess a p) \<and>
        viewer (the_sess a' p) = viewer (the_sess a p) \<and> answer (the_sess a' p) = answer (the_sess a p))"

definition published :: "Agent \<Rightarrow> Agent \<Rightarrow> effect list \<Rightarrow> bool" where
  "published a a' es \<longleftrightarrow>
     (if states a es = [] then \<forall>t. state_of a' t True = state_of a t True
      else \<exists>t. last (states a es) = enc_State (state_of a' t True))"

definition tracks :: "Agent \<Rightarrow> Agent \<Rightarrow> effect list \<Rightarrow> bool" where
  "tracks a a' es \<longleftrightarrow> kept a a' \<and> (watching a \<longrightarrow> published a a' es)"

lemma tracks_refl [simp]: "states a es = [] \<Longrightarrow> tracks a a es"
  by (simp add: tracks_def kept_def published_def)

lemma tracks_trans:
  assumes "tracks a b es" and "tracks b c fs"
  shows "tracks a c (es @ fs)"
proof -
  have k: "kept a b" "kept b c" using assms by (simp_all add: tracks_def)
  then have "kept a c" by (auto simp: kept_def)
  moreover have "published a c (es @ fs)" if "watching a"
  proof -
    have "published a b es" "published b c fs" using assms that k(1) by (simp_all add: tracks_def kept_def)
    moreover have "states b fs = states a fs" using k(1) by (intro states_mqtt) (simp add: kept_def)
    ultimately show ?thesis by (auto simp: published_def split: if_splits)
  qed
  ultimately show ?thesis by (simp add: tracks_def)
qed


lemma put_nth: "the_sess (put_sess p s a) q = (if q = p \<and> p < length (heap a) then s else the_sess a q)"
  by (simp add: put_sess_def) (metis list_update_beyond not_le nth_list_update_eq nth_list_update_neq)

lemma kept_put:
  assumes "sid s = sid (the_sess a p)" "viewer s = viewer (the_sess a p)" "answer s = answer (the_sess a p)"
  shows "kept a (put_sess p s a)"
  using assms by (simp add: kept_def put_nth del: put_sess_simps(7,8))

lemma state_put:
  assumes "viewer s = viewer (the_sess a p)"
  shows "state_of (put_sess p s a) t on = state_of a t on"
  using assms by (simp add: state_of_def Let_def put_nth del: put_sess_simps(7,8) split: option.split)

lemma tracks_put:
  assumes "sid s = sid (the_sess a p)" "viewer s = viewer (the_sess a p)" "answer s = answer (the_sess a p)"
    and "states a es = []"
  shows "tracks a (put_sess p s a) es"
  using kept_put [OF assms(1-3)] state_put [OF assms(2)] assms(4) by (simp add: tracks_def published_def)

lemma state_view: "mon_view (source a') = mon_view (source a) \<Longrightarrow> cfg a' = cfg a \<Longrightarrow> sess a' = sess a \<Longrightarrow>
    heap a' = heap a \<Longrightarrow> state_of a' t on = state_of a t on"
  by (simp add: state_of_def mon_view_def Let_def split: option.split)

text \<open>A change of the source with the call-back of \<open>Run\<close>.\<close>

lemma tracks_source:
  assumes "changed \<longleftrightarrow> mon_view m \<noteq> mon_view (source a)"
  shows "tracks a (a\<lparr>source := m\<rparr>) (if changed \<and> watching a then [publish_state w (a\<lparr>source := m\<rparr>)] else [])"
proof -
  have "state_of (a\<lparr>source := m\<rparr>) t True = state_of a t True" if "\<not> changed" for t
    using that assms by (intro state_view) simp_all
  then show ?thesis by (auto simp: tracks_def published_def kept_def)
qed

lemma tracks_probe: "probe_now w a = (a', es, on) \<Longrightarrow> tracks a a' es"
  using tracks_source [of "fst (snd (ProbeNow (probe w) (source a)))" "fst (ProbeNow (probe w) (source a))" a w]
    ProbeNow_notifies [of "probe w" "source a"]
  by (simp add: probe_now_def case_prod_beta Let_def)

lemma tracks_mark: "mark_down w a = (a', es) \<Longrightarrow> tracks a a' es"
  using tracks_source [of "snd (MarkDown (source a))" "fst (MarkDown (source a))" a w] MarkDown_notifies [of "source a"]
  by (simp add: mark_down_def case_prod_beta Let_def)

lemma tracks_flush:
  assumes "flush w p a = (a', es)"
  shows "tracks a a' es"
proof -
  obtain s d where f: "flushICE (the_sess a p) = (s, d)" by fastforce
  have "a' = put_sess p s a" "es = send_batch w a s d" using assms by (simp_all add: flush_def f)
  then show ?thesis using flushICE_frame(1,2,5) [OF f] by (simp add: tracks_put)
qed

lemma tracks_local_ice: "local_ice w p c a = (a', es) \<Longrightarrow> tracks a a' es"
proof -
  assume h: "local_ice w p c a = (a', es)"
  obtain s fl where q: "queueICE c (the_sess a p) = (s, fl)" by fastforce
  have 1: "tracks a (put_sess p s a) []" using queueICE_frame [OF q] by (intro tracks_put) simp_all
  show "tracks a a' es"
  proof (cases fl)
    case True
    then have "flush w p (put_sess p s a) = (a', es)" using h by (simp add: local_ice_def q)
    from tracks_trans [OF 1 tracks_flush [OF this]] show ?thesis by simp
  next
    case False
    then show ?thesis using h 1 by (simp add: local_ice_def q)
  qed
qed

text \<open>The last effect of \<open>endSession\<close> is the state it leaves.\<close>

lemma kept_trans: "kept a b \<Longrightarrow> kept b c \<Longrightarrow> kept a c"
  by (auto simp: kept_def)

lemma kept_same: "kept (a\<lparr>sess := x\<rparr>) b = kept a b" "kept a (b\<lparr>sess := x\<rparr>) = kept a b"
  by (simp_all add: kept_def)

lemma kept_pieces [simp]:
  "kept a a" "kept a (stop_timer p a)" "kept a (stop_ice p a)" "kept a (fst (close_proxy p a))"
  by (simp add: kept_def)
     (auto simp: stop_timer_def stop_ice_def stopICE_def close_proxy_def case_prod_beta Let_def intro!: kept_put)

lemma close_proxy_states [simp]: "states b (snd (close_proxy p a)) = []"
  by (simp add: close_proxy_def case_prod_beta)

lemma tracks_end: "endSession w p r b a = (a', es) \<Longrightarrow> tracks a a' es"
proof -
  assume h: "endSession w p r b a = (a', es)"
  show "tracks a a' es"
  proof (cases "sess a = Some p")
    case False
    with h show ?thesis by (simp add: endSession_def)
  next
    case True
    let ?a1 = "stop_ice p (stop_timer p (a\<lparr>sess := None\<rparr>))"
    obtain a2 cl where c: "close_proxy p ?a1 = (a2, cl)" by fastforce
    obtain a3 mk where m: "marked w r a2 = (a3, mk)" by fastforce
    have "kept (a\<lparr>sess := None\<rparr>) ?a1" using kept_pieces(2,3) kept_trans by blast
    then have "kept (a\<lparr>sess := None\<rparr>) a2" using kept_pieces(4) [of ?a1 p] c kept_trans by fastforce
    moreover have "kept a2 a3" using marked_frame [OF m] by (simp add: kept_def)
    ultimately have k: "kept a a3" using kept_trans kept_same(1) by blast
    have eq: "a' = a3" "es = (cl @ mk @ (if b then [send_bye w a3 p r] else [])) @ [publish_state w a3]"
      using h True c m by (auto simp: endSession_def marked_def Let_def split: if_splits prod.splits)
    have "states a [publish_state w a3] = [enc_State (state_of a3 (now w) True)]"
      using k by (simp add: kept_def)
    then show ?thesis using k by (auto simp: tracks_def published_def eq simp del: states_simps(9))
  qed
qed

lemma tracks_callbacks: "callbacks w p xs a = (a', es) \<Longrightarrow> tracks a a' es"
proof (induction xs arbitrary: a es rule: list.induct)
  case (Cons x xs)
  consider (conn) "x = OnConnected" | (over) r where "x = OnEnd r"
    | (peer) "\<And>b. callbacks w p (x # xs) b = (let (a1, fs) = callbacks w p xs b in (a1, Peer p x # fs))"
    by (cases x) auto
  then show ?case
  proof cases
    case conn
    have "tracks a (onConnected p a) []"
      by (simp add: onConnected_def stop_timer_def tracks_put)
    then show ?thesis using Cons conn tracks_trans [of a "onConnected p a" "[]"] by simp
  next
    case (over r)
    obtain a1 fs where e: "endSession w p r True a = (a1, fs)" by fastforce
    obtain a2 gs where c: "callbacks w p xs a1 = (a2, gs)" by fastforce
    have "tracks a a2 (fs @ gs)" using tracks_trans [OF tracks_end [OF e] Cons.IH [of a1 gs]] c
      Cons.prems over e by (simp add: Let_def)
    then show ?thesis using Cons.prems over e c by (simp add: Let_def)
  next
    case peer
    obtain a1 fs where c: "callbacks w p xs a = (a1, fs)" by fastforce
    have eq: "a' = a1" "es = Peer p x # fs" using Cons.prems peer [of a] c by simp_all
    have "tracks a a' fs" using Cons.IH [of a fs] c eq by simp
    then show ?thesis by (simp add: eq tracks_def published_def)
  qed
qed simp

lemma tracks_run_proxy: "run_proxy w p f a = (a', es) \<Longrightarrow> tracks a a' es"
proof -
  assume h: "run_proxy w p f a = (a', es)"
  obtain wp xs where f: "f (sproxy (the_sess a p)) = (wp, xs)" by fastforce
  let ?a1 = "put_sess p ((the_sess a p)\<lparr>sproxy := wp\<rparr>) a"
  have 1: "tracks a ?a1 []" by (intro tracks_put) simp_all
  have "callbacks w p xs ?a1 = (a', es)" using h by (simp add: run_proxy_def f)
  from tracks_trans [OF 1 tracks_callbacks [OF this]] show "tracks a a' es" by simp
qed

lemma tracks_peers: "tracks a a' es \<Longrightarrow> tracks a a' (map (Peer p) xs @ es)"
  by (simp add: tracks_def published_def)

text \<open>The accepted offer: its state is published after the registration, and only batches follow.\<close>

lemma tracks_accept:
  assumes "accept_offer w from sid' wp xs sdp a = (a', es)"
  shows "tracks a a' es"
proof -
  define a1 where "a1 = opened w from sid' wp sdp a"
  let ?p = "length (heap a)"
  obtain a2 ice where s: "start_ice w ?p a1 = (a2, ice)" by fastforce
  have eq: "a' = put_sess ?p ((the_sess a2 ?p)\<lparr>connectTimer := True\<rparr>) a2"
    "es = map (Peer ?p) xs @ ([replay_answer a1 from (envelope w TypeAnswer sid' (enc_AnswerData \<lparr>answer_SDP = sdp\<rparr>)),
        publish_state w a1] @ ice) @ []"
    using assms by (simp_all add: accept_offer_eq Let_def a1_def [symmetric] s)
  have "kept a a1" by (simp add: a1_def opened_def kept_def nth_append)
  moreover have "states a [publish_state w a1] = [enc_State (state_of a1 (now w) True)]"
    by (simp add: a1_def opened_def)
  ultimately have 1: "tracks a a1 [replay_answer a1 from (envelope w TypeAnswer sid' (enc_AnswerData \<lparr>answer_SDP = sdp\<rparr>)),
      publish_state w a1]"
    by (auto simp: tracks_def published_def simp del: states_simps(9))
  have 2: "tracks a1 a2 ice"
  proof -
    obtain s1 fl where q: "startICE (the_sess a1 ?p) = (s1, fl)" by fastforce
    have s1: "tracks a1 (put_sess ?p s1 a1) []"
      using q by (intro tracks_put) (auto simp: startICE_def Let_def)
    show ?thesis
    proof (cases fl)
      case True
      then have "flush w ?p (put_sess ?p s1 a1) = (a2, ice)" using s by (simp add: start_ice_def q)
      from tracks_trans [OF s1 tracks_flush [OF this]] show ?thesis by simp
    next
      case False
      then show ?thesis using s s1 by (simp add: start_ice_def q)
    qed
  qed
  have 3: "tracks a2 a' []" unfolding eq(1) by (intro tracks_put) simp_all
  show ?thesis
    unfolding eq(2) by (intro tracks_peers) (use tracks_trans [OF tracks_trans [OF 1 2] 3] in simp)
qed

lemma tracks_answer: "answer_offer w from sid' d a = (a', es) \<Longrightarrow> tracks a a' es"
proof -
  assume h: "answer_offer w from sid' d a = (a', es)"
  obtain video audio where c: "codecs a = (video, audio)" by fastforce
  obtain wp xs r where ho: "HandleOffer (lib w) (offer_SDP d) (want_audio d) (new_proxy a video audio) = (wp, xs, r)"
    by (metis prod_cases3)
  show "tracks a a' es"
    using h tracks_accept [of w "from" sid' wp xs _ a a' es]
    by (cases r) (auto simp: answer_offer_def c ho split: if_splits)
qed

lemma tracks_available: "available w a = (a', es, on) \<Longrightarrow> tracks a a' es"
  using tracks_probe [of w a a' es on] by (auto simp: available_def split: if_splits)

lemma tracks_offer: "handleOffer w from env a = (a', es) \<Longrightarrow> tracks a a' es"
proof -
  assume h: "handleOffer w from env a = (a', es)"
  obtain a1 fs on where av: "available w a = (a1, fs, on)" by (metis prod_cases3)
  note t = tracks_available [OF av]
  have u: "tracks a a1 (fs @ [sendError w a1 from (SID env) c m r])" for c m r
    using tracks_trans [OF t tracks_refl] by simp
  have v: "tracks a a2 (fs @ gs)" if "answer_offer w from (SID env) d a1 = (a2, gs)" for d a2 gs
    by (rule tracks_trans [OF t tracks_answer [OF that]])
  show "tracks a a' es"
    using h u v by (cases on) (auto simp: handleOffer_def av split: if_splits option.splits prod.splits)
qed

lemma tracks_same_states: "states a es = [] \<Longrightarrow> a' = a \<Longrightarrow> tracks a a' es"
  by simp

lemma tracks_message: "on_message w topic msg a = (a', es) \<Longrightarrow> tracks a a' es"
proof -
  assume h: "on_message w topic msg a = (a', es)"
  have ice: "tracks a a' es" if "handleICE w from env a = (a', es)" for "from" env
    using that by (intro tracks_same_states) (auto simp: handleICE_def split: option.splits)
  have bye: "tracks a a' es" if "handleBye w from env a = (a', es)" for "from" env
    using that tracks_end by (fastforce simp: handleBye_def split: option.splits)
  have cmd: "tracks a a' es" if "handleCmd w from env a = (a', es)" for "from" env
    using that by (intro tracks_same_states) (auto simp: handleCmd_def split: option.splits if_splits)
  show "tracks a a' es"
    using h ice bye cmd tracks_offer
    by (auto simp: on_message_def handleEnvelope_def split: option.splits prod.splits if_splits)
qed

lemma tracks_connect: "on_connect w a = (a', es) \<Longrightarrow> tracks a a' es \<and> states a es = [enc_State (state_of a (now w) True)]"
proof -
  assume h: "on_connect w a = (a', es)"
  have eq: "a' = a\<lparr>mqtt := (mqtt a)\<lparr>aclCheck := True\<rparr>\<rparr>"
    "es = [Broker (Subscribe (topicIn (mqtt a) @ ''#'') 1), Broker (PublishState (mqtt a) (state_of a (now w)) True)] @
       map Broker (if \<not> aclCheck (mqtt a) then selfTestACL (acl w) else [])"
    using h by (simp_all add: on_connect_def onConnect_def)
  have acl: "states a (map Broker (if \<not> aclCheck (mqtt a) then selfTestACL (acl w) else [])) = []"
    by (simp add: selfTestACL_def split: sub_result.split)
  have "state_of a' t True = state_of a t True" for t
    unfolding eq(1) by (intro state_view) simp_all
  then show ?thesis using acl by (auto simp: tracks_def published_def kept_def eq)
qed

theorem agent_step_tracks:
  assumes "agent_step w e a = (a', es)"
  shows "tracks a a' es"
proof (cases e)
  case (ConnectTimeout p)
  have "tracks a (stop_timer p a) []" by (simp add: stop_timer_def tracks_put)
  then have "tracks a b ([] @ fs)" if "endSession w p ByeTimeout True (stop_timer p a) = (b, fs)" for b fs
    using tracks_trans tracks_end that by blast
  then show ?thesis using assms by (auto simp: ConnectTimeout connect_timeout_def split: if_splits)
next
  case MonitorTick
  then show ?thesis using assms tracks_probe [of w a]
    by (auto simp: monitor_tick_def split: if_splits prod.splits)
next
  case (BatchTimer p)
  then show ?thesis using assms tracks_flush [of w p a] by (auto simp: batch_timer_def split: if_splits)
qed (use assms tracks_message tracks_local_ice tracks_run_proxy tracks_connect in \<open>auto split: if_splits\<close>)

interpretation tracking: run_relation tracks
  by unfold_locales (auto intro: tracks_trans agent_step_tracks)

lemma agent_run_tracks: "agent_run evs a = (a', es) \<Longrightarrow> tracks a a' es"
  by (rule tracking.run)

section \<open>The accepted offer in full\<close>

lemma accepts_offer:
  assumes "accepts w e a = Some (s, v)"
  obtains topic msg env d sdp where "e = Message topic msg"
    "handleMessage (mqtt a) (now w) topic msg = Some (v, env, False)" "Type env = TypeOffer" "SID env = s"
    "offer_request a env = Some d" "answer_to w d a = Some sdp"
proof -
  obtain topic msg where e: "e = Message topic msg" using accepts_only_messages assms by (metis option.distinct(1))
  then show thesis using assms that
    by (auto simp: accepts_def split: option.splits prod.splits bool.splits if_splits)
qed

lemma offer_requestD:
  assumes "offer_request a env = Some d"
  shows "sidPattern (SID env)" "sess a = None" "unmarshal dec_OfferData zero_OfferData (Data env) = Some d"
    "offer_SDP d \<noteq> ''''" "bad_stream d = None"
  using assms by (auto simp: offer_request_def split: if_splits option.splits)

definition retained_state :: "Agent \<Rightarrow> effect \<Rightarrow> bool" where
  "retained_state a e \<longleftrightarrow> (\<exists>st. e = Broker (publish (topicState (mqtt a)) True (enc_State st)))"

lemma available_states:
  assumes "available w a = (a1, es, on)"
  shows "list_all (retained_state a) es" "length es \<le> 1"
  using assms available_frame(3) [OF assms]
  by (auto simp: available_def probe_now_def retained_state_def publish_state_def PublishState_def Let_def
      split: if_splits prod.splits)

lemma opened_state:
  "State.Busy (state_of (opened w from sid' wp sdp a) t True) \<and> Viewer (state_of (opened w from sid' wp sdp a) t True) = Some from"
  using early_frame [of "early w" "NewSession sid' from wp"]
  by (simp add: state_of_def opened_def NewSession_def Let_def nth_append)

lemma accept_details:
  assumes inv: "agent_inv a" and st: "agent_step w e a = (a', es)" and acc: "accepts w e a = Some (s, v)"
  obtains pre xs msg j ice where
    "es = pre @ map (Peer (length (heap a))) xs @
       [Broker (publish (viewer_topic (mqtt a) v) False msg),
        Broker (publish (topicState (mqtt a)) True (enc_State j))] @ ice"
    "list_all (retained_state a) pre" "length pre \<le> 1" "open_pcs xs = 1"
    "member msg ''type'' = Some (JStr TypeAnswer)" "State.Busy j" "Viewer j = Some v"
    "list_all (has_type TypeICE) ice" "length ice \<le> 1"
    "sess a = None" "sess a' = Some (length (heap a))" "mode_of a' = Busy s v" "sidPattern s"
    "answer (the_sess a' (length (heap a))) = Some msg" "agent_inv a'"
proof -
  obtain topic m env d sdp where e: "e = Message topic m"
    and hm: "handleMessage (mqtt a) (now w) topic m = Some (v, env, False)"
    and ty: "Type env = TypeOffer" "SID env = s" and rq: "offer_request a env = Some d"
    and an: "answer_to w d a = Some sdp"
    using accepts_offer [OF acc] by metis
  note req = offer_requestD [OF rq]
  obtain a1 es1 on where av: "available w a = (a1, es1, on)" by (metis prod_cases3)
  note f = available_frame [OF av]
  obtain video audio where c: "codecs a1 = (video, audio)" by fastforce
  obtain wp xs r where ho: "HandleOffer (lib w) (offer_SDP d) (want_audio d) (new_proxy a1 video audio) = (wp, xs, r)"
    by (metis prod_cases3)
  have ok: "on" "video \<noteq> ''''" "r = Inr sdp"
    using an by (auto simp: answer_to_def av c ho split: if_splits sum.splits)
  obtain a2 fs where ac: "accept_offer w v s wp xs sdp a1 = (a2, fs)" by fastforce
  have eq: "a' = a2" "es = es1 @ fs"
    using st hm ty req ok by (simp_all add: e on_message_def handleEnvelope_def handleOffer_def av answer_offer_def c ho ac)
  have inv1: "agent_inv a1" and idle: "sess a1 = None" using inv req(2) f(1,2) same_sessions(1) by metis+
  note pi = proxy_answer_inv [OF ho [unfolded ok(3)]]
  from accept_offer_opens [OF inv1 idle pi(1-3) ac] obtain ice where
    1: "agent_inv a2" "sess a2 = Some (length (heap a1))" "mode_of a2 = Busy s v"
    "fs = map (Peer (length (heap a1))) xs @
      [replay_answer a1 v (envelope w TypeAnswer s (enc_AnswerData \<lparr>answer_SDP = sdp\<rparr>)),
       publish_state w (opened w v s wp sdp a1)] @ ice"
    "list_all (has_type TypeICE) ice" "length ice \<le> 1"
    "answer (the_sess a2 (length (heap a1))) = Some (envelope w TypeAnswer s (enc_AnswerData \<lparr>answer_SDP = sdp\<rparr>))"
    by metis
  show thesis
  proof (rule that [of es1 xs "envelope w TypeAnswer s (enc_AnswerData \<lparr>answer_SDP = sdp\<rparr>)"
        "state_of (opened w v s wp sdp a1) (now w) True" ice])
    show "es = es1 @ map (Peer (length (heap a))) xs @
       [Broker (publish (viewer_topic (mqtt a) v) False (envelope w TypeAnswer s (enc_AnswerData \<lparr>answer_SDP = sdp\<rparr>))),
        Broker (publish (topicState (mqtt a)) True (enc_State (state_of (opened w v s wp sdp a1) (now w) True)))] @ ice"
      by (simp add: eq 1(4) f(2,3) replay_answer_def publish_state_def PublishState_def opened_def)
  qed (use available_states [OF av] pi(4) opened_state 1 req f(2) eq ty in simp_all)
qed
end
