(* ===== verification/AgentProps.thy ===== *)
theory AgentProps imports AgentRuns begin

text \<open>
  The properties of the agent's sessions: refinement of the abstract machine, PeerConnections, the
  isolation of the active session, and replies to offers, with the concrete camera the witnesses
  use.
\<close>

section \<open>A camera\<close>

definition sample_cfg :: Config where
  "sample_cfg = \<lparr>cfg_MQTT = \<lparr>mqtt_URL = ''ssl://broker:8883'', Username = ''cam-1'', Password = ''pw'', CA = ''''\<rparr>,
     cfg_Device = \<lparr>dev_URL = ''rtsp://cam/s'', dev_Name = ''Door'', ProbeInterval = 30\<rparr>,
     cfg_ICE = \<lparr>Stun = [''stun:s'']\<rparr>\<rparr>"

definition sample_world :: world where
  "sample_world = \<lparr>now = oct_2026, probe = Inr \<lparr>Video = [''h264''], Audio = [''pcmu'']\<rparr>, lib = sample_pion,
     early = [], mqttOpen = True, acl = SubAnswer (Some 0x80)\<rparr>"

definition sample_msg :: "string \<Rightarrow> string \<Rightarrow> string \<Rightarrow> json \<Rightarrow> event" where
  "sample_msg who sid' typ data = Message (''ocam/dev/cam-1/in/'' @ who)
     (Some (enc_Envelope \<lparr>V = 1, TS = 1791892800, SID = sid', Type = typ, Data = Some data\<rparr>))"

definition sample_new :: Agent where
  "sample_new = (blank_agent sample_cfg)\<lparr>mqtt := \<lparr>mq_id = ''cam-1'', mq_cfg = cfg_MQTT sample_cfg, aclCheck = False,
     topicIn = ''ocam/dev/cam-1/in/'', topicState = ''ocam/dev/cam-1/state''\<rparr>\<rparr>"

definition sample_offer :: event where
  "sample_offer = sample_msg ''viewer'' ''session01'' TypeOffer (JObj [(''sdp'', JStr ''m=video H264/90000'')])"

definition sample_busy :: Agent where
  "sample_busy = fst (agent_step sample_world sample_offer (start sample_world sample_new))"

lemma sample_NewAgent:
  obtains opts where "NewAgent (\<lambda>_. Inr '''') (\<lambda>_. True) oct_2026 sample_cfg = Inr (sample_new, opts)"
proof -
  define f where "f = state_of (blank_agent sample_cfg) oct_2026"
  have trim: "TrimSpace ''cam-1'' = ''cam-1''" by code_simp
  have "\<exists>opts. NewMqttClient (\<lambda>_. Inr '''') (\<lambda>_. True) (cfg_MQTT sample_cfg) f = Inr (mqtt sample_new, opts)"
    by (simp add: NewMqttClient_def buildTLSConfig_def sample_cfg_def sample_new_def trim Let_def)
  then obtain opts where "NewMqttClient (\<lambda>_. Inr '''') (\<lambda>_. True) (cfg_MQTT sample_cfg) f = Inr (mqtt sample_new, opts)"
    by blast
  then have "NewAgent (\<lambda>_. Inr '''') (\<lambda>_. True) oct_2026 sample_cfg =
      Inr ((blank_agent sample_cfg)\<lparr>mqtt := mqtt sample_new\<rparr>, opts)"
    by (simp add: NewAgent_def f_def)
  moreover have "(blank_agent sample_cfg)\<lparr>mqtt := mqtt sample_new\<rparr> = sample_new"
    by (simp add: sample_new_def)
  ultimately show thesis using that by metis
qed

lemma sample_reachable: "reachable (start sample_world sample_new)" "reachable sample_busy"
proof -
  obtain opts where n: "NewAgent (\<lambda>_. Inr '''') (\<lambda>_. True) oct_2026 sample_cfg = Inr (sample_new, opts)"
    by (rule sample_NewAgent)
  show 1: "reachable (start sample_world sample_new)" by (rule reach_start [OF n])
  show "reachable sample_busy"
    unfolding sample_busy_def by (rule reach_step [OF 1]) (rule surjective_pairing)
qed

lemma sample_mode: "mode_of sample_busy = Busy ''session01'' ''viewer''" "sess sample_busy = Some 0"
  by code_simp+

section \<open>The abstract machine\<close>

lemma agent_refines_parts:
  assumes "reachable a" and "agent_step w e a = (a', es)"
  shows "mode_of a' = mode_step (accepts w e a) (end_cause w e a) (mode_of a)"
    and "filter (has_type TypeBye) es = bye_of w a (mode_of a) (end_cause w e a)"
  using agent_step_ok [OF reachable_inv [OF assms(1)] assms(2)] by (simp_all add: step_ok_def)

text \<open>
  C1: the agent implements the machine of the protocol: from every agent it can reach, each
  event (message, candidate, timer, connection state, end of stream, tick, reconnection) moves it
  as the machine \<open>idle / busy(sid, viewer)\<close> moves: an acceptable offer while idle makes it busy with
  its session, and only a \<open>bye\<close> of the owner, a failed or lost connection, the connection deadline or
  the end of the stream of the active session make it idle. A bye is sent exactly in these last
  cases, once, to the session's viewer with the reason; never for a \<open>bye\<close> received.
\<close>

theorem agent_refines:
  assumes "reachable a" and "agent_step w e a = (a', es)"
  shows "(mode_of a' = mode_step (accepts w e a) (end_cause w e a) (mode_of a)) \<and>
    (filter (has_type TypeBye) es = bye_of w a (mode_of a) (end_cause w e a))"
  by (intro conjI impI) (rule agent_refines_parts [OF assms]; assumption?)+

theorem agent_refines_witness:
  "mode_of (fst (agent_step sample_world (StreamEnd 0) sample_busy)) = Idle \<and>
   filter (has_type TypeBye) (snd (agent_step sample_world (StreamEnd 0) sample_busy)) =
     [send sample_world sample_busy ''viewer'' TypeBye ''session01'' (Some (enc_ByeData \<lparr>Reason = ''source_lost''\<rparr>))]"
proof -
  have "end_cause sample_world (StreamEnd 0) sample_busy = Some (ByeSourceLost, True)"
    by (simp add: end_cause_def sample_mode)
  then show ?thesis
    using agent_refines [OF sample_reachable(2) surjective_pairing, of sample_world "StreamEnd 0"]
    by (simp add: sample_mode mode_step_def bye_of_def ByeSourceLost_def)
qed

lemma one_peer_connection_parts:
  assumes "NewAgent rd vp t c = Inr (a, opts)" and "agent_run evs (start w a) = (a', es)"
  shows "pcs es = (if mode_of a' = Idle then 0 else 1)"
    and "p < length (heap a') \<Longrightarrow> closed (sproxy (the_sess a' p)) \<longleftrightarrow> sess a' \<noteq> Some p"
proof -
  note r = agent_run_inv [OF start_inv [OF assms(1)] assms(2)]
  show "pcs es = (if mode_of a' = Idle then 0 else 1)"
    using r start_idle(1) [OF assms(1)] by (simp add: busy_def mode_of_def split: option.splits)
  show "p < length (heap a') \<Longrightarrow> closed (sproxy (the_sess a' p)) \<longleftrightarrow> sess a' \<noteq> Some p"
    using closed_iff_ended r by blast
qed

text \<open>
  C2: PeerConnections are neither leaked nor closed twice: after any events from the start of the
  agent, those opened and not closed are one while a session is active and none otherwise, and every
  session but the active one is closed for good.
\<close>

theorem one_peer_connection:
  assumes "NewAgent rd vp t c = Inr (a, opts)" and "agent_run evs (start w a) = (a', es)"
  shows "(pcs es = (if mode_of a' = Idle then 0 else 1)) \<and>
    (p < length (heap a') \<longrightarrow> closed (sproxy (the_sess a' p)) \<longleftrightarrow> sess a' \<noteq> Some p)"
  by (intro conjI impI) (rule one_peer_connection_parts [OF assms]; assumption?)+

theorem one_peer_connection_witness:
  "pcs (snd (agent_run [(sample_world, sample_offer)] (start sample_world sample_new))) = 1 \<and>
   pcs (snd (agent_run [(sample_world, sample_offer), (sample_world, StreamEnd 0)] (start sample_world sample_new))) = 0"
proof -
  obtain opts where n: "NewAgent (\<lambda>_. Inr '''') (\<lambda>_. True) oct_2026 sample_cfg = Inr (sample_new, opts)"
    by (rule sample_NewAgent)
  note p = one_peer_connection [OF n surjective_pairing, of _ sample_world, THEN conjunct1]
  have "mode_of (fst (agent_run [(sample_world, sample_offer)] (start sample_world sample_new))) \<noteq> Idle"
    by code_simp
  moreover have "mode_of (fst (agent_run [(sample_world, sample_offer), (sample_world, StreamEnd 0)]
      (start sample_world sample_new))) = Idle"
    by code_simp
  ultimately show ?thesis using p by (simp del: agent_run.simps agent_step.simps)
qed

section \<open>Isolation of the active session\<close>

lemma foreign_message_harmless_parts:
  assumes "sess a = Some p" and "handleMessage (mqtt a) (now w) topic msg = Some (who, env, stale)"
    and "sid (the_sess a p) \<noteq> SID env \<or> viewer (the_sess a p) \<noteq> who"
    and "agent_step w (Message topic msg) a = (a', es)"
  shows "a' = a" and "\<exists>js. length js \<le> 1 \<and> es = map (\<lambda>j. Broker (publish (viewer_topic (mqtt a) who) False j)) js"
proof -
  have o: "owned a who env = None" using assms(1,3) by (auto simp: owned_def)
  have s: "handleEnvelope w who env stale a = (a', es)" using assms(2,4) by (simp add: on_message_def)
  have "a' = a \<and> (es = [] \<or> (\<exists>t s d. es = [send w a who t s d]))"
  proof (cases "\<not> stale \<and> Type env = TypeOffer")
    case True
    then have "handleOffer w who env a = (a', es)" using s by (simp add: handleEnvelope_def)
    then show ?thesis using assms(1,3) by (auto simp: handleOffer_def sendError_def split: if_splits)
  next
    case False
    then show ?thesis using s o
      by (auto simp: handleEnvelope_def handleICE_def handleBye_def handleCmd_def sendError_def
          split: if_splits option.splits)
  qed
  moreover have "\<exists>js. length js \<le> 1 \<and> [] = map (\<lambda>j. Broker (publish (viewer_topic (mqtt a) who) False j)) js"
    by (rule exI [of _ "[]"]) simp
  moreover have "\<exists>js. length js \<le> 1 \<and> [send w a who t s d] = map (\<lambda>j. Broker (publish (viewer_topic (mqtt a) who) False j)) js"
    for t s d
    by (rule exI [of _ "[enc_Envelope \<lparr>V = ProtocolVersion, TS = unix_sec (now w), SID = s, Type = t, Data = d\<rparr>]"])
       (simp add: send_def Send_def)
  ultimately show "a' = a" "\<exists>js. length js \<le> 1 \<and> es = map (\<lambda>j. Broker (publish (viewer_topic (mqtt a) who) False j)) js"
    by metis+
qed

text \<open>
  C5: a third party cannot disturb a session: while a session is active, a message of anybody else,
  or for another session id, whatever its type and content, leaves the agent exactly as it was,
  does nothing on the PeerConnection, and makes the agent publish at most one message, not retained,
  to the mailbox of its sender.
\<close>

theorem foreign_message_harmless:
  assumes "sess a = Some p" and "handleMessage (mqtt a) (now w) topic msg = Some (who, env, stale)"
    and "sid (the_sess a p) \<noteq> SID env \<or> viewer (the_sess a p) \<noteq> who"
    and "agent_step w (Message topic msg) a = (a', es)"
  shows "(a' = a) \<and>
    (\<exists>js. length js \<le> 1 \<and> es = map (\<lambda>j. Broker (publish (viewer_topic (mqtt a) who) False j)) js)"
  by (intro conjI impI) (rule foreign_message_harmless_parts [OF assms]; assumption?)+

lemma sample_handle:
  assumes "idPattern who" and "SID env = s" and "V env = 1" and "TS env = 1791892800"
    and "utf8 s" and "utf8 (Type env)"
  shows "handleMessage (mqtt sample_busy) oct_2026 (''ocam/dev/cam-1/in/'' @ who) (Some (enc_Envelope env)) =
    Some (who, env, False)"
proof -
  have "topicIn (mqtt sample_busy) = ''ocam/dev/cam-1/in/''" by code_simp
  moreover have "tsAcceptable 1791892800 oct_2026" by code_simp
  ultimately show ?thesis
    using assms by (simp add: handleMessage_def HasPrefix_iff envelope_codec.unmarshal_enc in_int64_def ProtocolVersion_def)
qed

theorem foreign_message_harmless_witness:
  "fst (agent_step sample_world (sample_msg ''intruder'' ''session01'' TypeBye (JObj [])) sample_busy) = sample_busy"
proof (rule foreign_message_harmless [where p = 0 and
      es = "snd (agent_step sample_world (sample_msg ''intruder'' ''session01'' TypeBye (JObj [])) sample_busy)" and who = "''intruder''" and w = sample_world and stale = False
      and env = "\<lparr>V = 1, TS = 1791892800, SID = ''session01'', Type = TypeBye, Data = Some (JObj [])\<rparr>", THEN conjunct1])
  show "handleMessage (mqtt sample_busy) (now sample_world) (''ocam/dev/cam-1/in/'' @ ''intruder'')
      (Some (enc_Envelope \<lparr>V = 1, TS = 1791892800, SID = ''session01'', Type = TypeBye, Data = Some (JObj [])\<rparr>)) =
      Some (''intruder'', \<lparr>V = 1, TS = 1791892800, SID = ''session01'', Type = TypeBye, Data = Some (JObj [])\<rparr>, False)"
  proof -
    have "idPattern ''intruder''" by code_simp
    moreover have "now sample_world = oct_2026" by (simp add: sample_world_def)
    ultimately show ?thesis by (simp only:) (rule sample_handle [where s = "''session01''"], simp_all add: ascii_eval)
  qed
  show "sid (the_sess sample_busy 0) \<noteq> SID \<lparr>V = 1, TS = 1791892800, SID = ''session01'', Type = TypeBye, Data = Some (JObj [])\<rparr> \<or>
      viewer (the_sess sample_busy 0) \<noteq> ''intruder''"
    by code_simp
qed (simp_all add: sample_mode sample_msg_def prod_eq_iff)

section \<open>Replies to offers\<close>

text \<open>
  C7: an accepted offer is answered in order: the agent first publishes (at most) the state of a
  source found again, opens one PeerConnection, then sends the answer to the viewer, then the
  retained state, busy with this viewer, then at most one batch of the local candidates collected
  meanwhile; no candidate is ever sent before the answer.
\<close>

theorem accept_order:
  assumes "reachable a" and "agent_step w e a = (a', es)" and "accepts w e a = Some (s, v)"
  shows "\<exists>pre xs msg j ice. es = pre @ map (Peer (length (heap a))) xs @
       [Broker (publish (viewer_topic (mqtt a) v) False msg),
        Broker (publish (topicState (mqtt a)) True (enc_State j))] @ ice \<and>
     list_all (retained_state a) pre \<and> length pre \<le> 1 \<and> open_pcs xs = 1 \<and>
     member msg ''type'' = Some (JStr ''answer'') \<and> State.Busy j \<and> Viewer j = Some v \<and>
     list_all (has_type ''ice'') ice \<and> length ice \<le> 1 \<and> mode_of a' = Busy s v"
  using accept_details [OF reachable_inv [OF assms(1)] assms(2,3)] unfolding TypeAnswer_def TypeICE_def
  by metis

lemma sample_accepts: "accepts sample_world sample_offer (start sample_world sample_new) = Some (''session01'', ''viewer'')"
  by code_simp

theorem accept_order_witness:
  "\<exists>msg. Broker (publish (viewer_topic (mqtt (start sample_world sample_new)) ''viewer'') False msg) \<in>
     set (snd (agent_step sample_world sample_offer (start sample_world sample_new))) \<and>
     member msg ''type'' = Some (JStr ''answer'')"
  using accept_order [OF sample_reachable(1) surjective_pairing sample_accepts] by force

text \<open>
  C6: a duplicated offer is idempotent: as long as the session it opened is the active one, whatever
  happened in between, the same offer (same viewer and session id, any content) is answered with the
  very message that was sent when it was accepted, changes nothing in the agent and touches no
  PeerConnection.
\<close>

theorem offer_replay:
  assumes "reachable a" and "agent_step w e a = (a1, es)" and "accepts w e a = Some (s, v)"
    and "agent_run evs a1 = (a2, fs)" and "sess a2 = sess a1"
  shows "\<exists>msg. Broker (publish (viewer_topic (mqtt a) v) False msg) \<in> set es \<and>
     member msg ''type'' = Some (JStr ''answer'') \<and>
     (\<forall>w' env. SID env = s \<longrightarrow>
        handleOffer w' v env a2 = (a2, [Broker (publish (viewer_topic (mqtt a) v) False msg)]))"
proof -
  let ?p = "length (heap a)"
  from accept_details [OF reachable_inv [OF assms(1)] assms(2,3)] obtain pre xs msg j ice where
    d: "es = pre @ map (Peer ?p) xs @
       [Broker (publish (viewer_topic (mqtt a) v) False msg),
        Broker (publish (topicState (mqtt a)) True (enc_State j))] @ ice"
    "member msg ''type'' = Some (JStr TypeAnswer)" "sess a1 = Some ?p" "mode_of a1 = Busy s v" "sidPattern s"
    "answer (the_sess a1 ?p) = Some msg" "agent_inv a1" by metis
  have k1: "kept a a1" using agent_step_tracks [OF assms(2)] by (simp add: tracks_def)
  have k2: "kept a1 a2" using agent_run_tracks [OF assms(4)] by (simp add: tracks_def)
  have p: "?p < length (heap a1)" using agent_invD(1) [OF d(7,3)] by blast
  have s: "sid (the_sess a2 ?p) = s" "viewer (the_sess a2 ?p) = v" "answer (the_sess a2 ?p) = Some msg" "sess a2 = Some ?p"
    using k2 p d(3,4,6) assms(5) by (simp_all add: kept_def mode_of_def)
  have "viewer_topic (mqtt a2) v = viewer_topic (mqtt a) v"
    using k1 k2 by (simp add: kept_def viewer_topic_def)
  then have "handleOffer w' v env a2 = (a2, [Broker (publish (viewer_topic (mqtt a) v) False msg)])"
    if "SID env = s" for w' env
    using that s d(5) by (simp add: handleOffer_def replay_answer_def)
  moreover have "Broker (publish (viewer_topic (mqtt a) v) False msg) \<in> set es" by (simp add: d(1))
  ultimately show ?thesis using d(2) unfolding TypeAnswer_def by blast
qed

theorem offer_replay_witness:
  "\<exists>msg. member msg ''type'' = Some (JStr ''answer'') \<and>
     (\<forall>w' env. SID env = ''session01'' \<longrightarrow> snd (handleOffer w' ''viewer'' env
        (fst (agent_run [(sample_world, PeerState 0 StateConnected), (sample_world, Connected)] sample_busy))) =
        [Broker (publish ''ocam/cli/viewer/in/cam-1'' False msg)])"
proof -
  let ?evs = "[(sample_world, PeerState 0 StateConnected), (sample_world, Connected)]"
  have st: "agent_step sample_world sample_offer (start sample_world sample_new) =
      (sample_busy, snd (agent_step sample_world sample_offer (start sample_world sample_new)))"
    by (simp add: sample_busy_def del: agent_step.simps)
  have "sess (fst (agent_run ?evs sample_busy)) = sess sample_busy" by code_simp
  from offer_replay [OF sample_reachable(1) st sample_accepts surjective_pairing this]
  have "\<exists>msg. member msg ''type'' = Some (JStr ''answer'') \<and>
     (\<forall>w' env. SID env = ''session01'' \<longrightarrow> snd (handleOffer w' ''viewer'' env (fst (agent_run ?evs sample_busy))) =
        [Broker (publish (viewer_topic (mqtt (start sample_world sample_new)) ''viewer'') False msg)])"
    by (metis snd_conv)
  moreover have "viewer_topic (mqtt (start sample_world sample_new)) ''viewer'' = ''ocam/cli/viewer/in/cam-1''"
    by code_simp
  ultimately show ?thesis by simp
qed

text \<open>The replies to an offer among the effects.\<close>

definition is_reply :: "effect \<Rightarrow> bool" where
  "is_reply e \<longleftrightarrow> has_type TypeAnswer e \<or> has_type TypeError e"

lemma is_reply_simps [simp]:
  "is_reply (sendError w a to s c m r)" "\<not> is_reply (Peer p x)" "\<not> is_reply (publish_state w a)"
  "filter is_reply (map (Peer p) xs) = []"
  by (simp_all add: is_reply_def filter_empty_conv)

lemma no_reply_states: "list_all (retained_state a) es \<Longrightarrow> filter is_reply es = []"
  by (induction es) (auto simp: retained_state_def is_reply_def has_type_def publish_def)

lemma no_reply_ice: "list_all (has_type TypeICE) es \<Longrightarrow> filter is_reply es = []"
  by (induction es) (auto simp: is_reply_def has_type_def split: effect.splits action.splits)

text \<open>A refused offer: one error, with its retry flag.\<close>

definition refused :: "world \<Rightarrow> string \<Rightarrow> Envelope \<Rightarrow> Agent \<Rightarrow> Agent \<Rightarrow> effect list \<Rightarrow> bool" where
  "refused w v env a a' es \<longleftrightarrow>
     (\<exists>code text. filter is_reply es = [sendError w a v (if sidPattern (SID env) then SID env else '''') code text
          (code \<in> {ErrBusy, ErrSourceUnavailable, ErrInternal})] \<and>
        code \<in> {ErrBusy, ErrBadRequest, ErrUnsupportedCodec, ErrSourceUnavailable, ErrInternal} \<and>
        mode_of a' = mode_of a)"

lemma err_distinct [simp]:
  "ErrBadRequest \<noteq> ErrBusy" "ErrBadRequest \<noteq> ErrSourceUnavailable" "ErrBadRequest \<noteq> ErrInternal"
  "ErrUnsupportedCodec \<noteq> ErrBusy" "ErrUnsupportedCodec \<noteq> ErrSourceUnavailable" "ErrUnsupportedCodec \<noteq> ErrInternal"
  "ErrInternal \<noteq> ErrBadRequest" "ErrInternal \<noteq> ErrUnsupportedCodec"
  by (simp_all add: ErrBadRequest_def ErrBusy_def ErrSourceUnavailable_def ErrInternal_def ErrUnsupportedCodec_def)

lemma refusedI:
  assumes "filter is_reply es = [sendError w a v (if sidPattern (SID env) then SID env else '''') code text r]"
    and "code \<in> {ErrBusy, ErrBadRequest, ErrUnsupportedCodec, ErrSourceUnavailable, ErrInternal}"
    and "r \<longleftrightarrow> code \<in> {ErrBusy, ErrSourceUnavailable, ErrInternal}" and "mode_of a' = mode_of a"
  shows "refused w v env a a' es"
  unfolding refused_def using assms by metis

lemma sendError_same: "mqtt b = mqtt a \<Longrightarrow> sendError w b v s c m r = sendError w a v s c m r"
  by (simp add: sendError_def send_def)

lemma offer_idle_refused:
  assumes inv: "agent_inv a" and idle: "sess a = None" and ok: "sidPattern (SID env)"
    and h: "handleOffer w v env a = (a', es)"
    and no: "\<And>d. offer_request a env = Some d \<Longrightarrow> answer_to w d a = None"
  shows "refused w v env a a' es"
proof (cases "offer_request a env")
  case None
  then show ?thesis
    using h idle ok by (auto simp: handleOffer_def offer_request_def intro!: refusedI split: option.splits if_splits)
next
  case (Some d)
  note req = offer_requestD [OF Some]
  obtain a1 es1 on where av: "available w a = (a1, es1, on)" by (metis prod_cases3)
  note f = available_frame [OF av]
  have m: "mode_of a1 = mode_of a" using f(1,2) same_sessions(2) by metis
  have nr: "filter is_reply es1 = []" using available_states(1) [OF av] no_reply_states by blast
  obtain video audio where c: "codecs a1 = (video, audio)" by fastforce
  obtain wp xs r where ho: "HandleOffer (lib w) (offer_SDP d) (want_audio d) (new_proxy a1 video audio) = (wp, xs, r)"
    by (metis prod_cases3)
  have un: "unused (new_proxy a1 video audio)" by (simp add: new_proxy_def)
  note se = sendError_same [OF f(3)]
  show ?thesis
  proof (cases "on"; cases "video = ''''")
    assume "\<not> on"
    then have "a' = a1" "es = es1 @ [sendError w a v (SID env) ErrSourceUnavailable ''camera unreachable'' True]"
      using h req by (simp_all add: handleOffer_def av se)
    then show ?thesis using m ok nr by (auto intro!: refusedI)
  next
    assume "\<not> on"
    then have "a' = a1" "es = es1 @ [sendError w a v (SID env) ErrSourceUnavailable ''camera unreachable'' True]"
      using h req by (simp_all add: handleOffer_def av se)
    then show ?thesis using m ok nr by (auto intro!: refusedI)
  next
    assume "on" "video = ''''"
    then have "a' = a1" "es = es1 @ [sendError w a v (SID env) ErrUnsupportedCodec
        ''the camera announces no video codec WebRTC can carry'' False]"
      using h req by (simp_all add: handleOffer_def av answer_offer_def c se)
    then show ?thesis using m ok nr by (auto intro!: refusedI)
  next
    assume True: "on" "video \<noteq> ''''"
    then obtain err where r: "r = Inl err"
      using no [OF Some] by (auto simp: answer_to_def av c ho split: sum.splits if_splits)
    have "a' = a1" "es = es1 @ map (Peer (length (heap a1))) xs @
        [sendError w a v (SID env) (se_Code err) (se_Msg err) (se_Code err = ErrInternal)]"
      using h req True by (auto simp: handleOffer_def av answer_offer_def c ho r se)
    moreover have "se_Code err \<in> {ErrBadRequest, ErrUnsupportedCodec, ErrInternal}"
      using HandleOffer_error(3) [OF ho [unfolded r] un] by blast
    ultimately show ?thesis using m ok nr by (auto intro!: refusedI)
  qed
qed

lemma offer_not_idle:
  assumes h: "handleOffer w v env a = (a', es)" and "sess a \<noteq> None \<or> \<not> sidPattern (SID env)"
    and new: "mode_of a \<noteq> Busy (SID env) v \<or> \<not> sidPattern (SID env)"
  shows "refused w v env a a' es"
  using assms
  by (cases "sess a") (auto simp: handleOffer_def mode_of_def intro!: refusedI split: if_splits)

lemma accepted_reply:
  assumes inv: "agent_inv a" and st: "agent_step w e a = (a', es)" and acc: "accepts w e a = Some (s, v)"
  shows "\<exists>j. filter is_reply es = [Broker (publish (viewer_topic (mqtt a) v) False j)] \<and>
      member j ''type'' = Some (JStr ''answer'')"
    and "sidPattern s \<and> mode_of a' = Busy s v"
proof -
  from accept_details [OF inv st acc] obtain pre xs j st ice where
    d: "es = pre @ map (Peer (length (heap a))) xs @
       [Broker (publish (viewer_topic (mqtt a) v) False j),
        Broker (publish (topicState (mqtt a)) True (enc_State st))] @ ice"
    "list_all (retained_state a) pre" "member j ''type'' = Some (JStr TypeAnswer)" "list_all (has_type TypeICE) ice"
    "mode_of a' = Busy s v" "sidPattern s" by metis
  have "filter is_reply es = [Broker (publish (viewer_topic (mqtt a) v) False j)]"
    using d(3) by (simp add: d(1) no_reply_states [OF d(2)] no_reply_ice [OF d(4)])
      (simp add: is_reply_def has_type_def publish_def)
  then show "\<exists>j. filter is_reply es = [Broker (publish (viewer_topic (mqtt a) v) False j)] \<and>
      member j ''type'' = Some (JStr ''answer'')" using d(3) unfolding TypeAnswer_def by blast
  show "sidPattern s \<and> mode_of a' = Busy s v" using d(5,6) by simp
qed

lemma repeated_reply:
  assumes inv: "agent_inv a" and h: "handleOffer w v env a = (a', es)"
    and m: "sidPattern (SID env)" "mode_of a = Busy (SID env) v"
  shows "a' = a" and "\<exists>j. filter is_reply es = [Broker (publish (viewer_topic (mqtt a) v) False j)] \<and>
      member j ''type'' = Some (JStr ''answer'')"
proof -
  obtain p where p: "sess a = Some p" "sid (the_sess a p) = SID env" "viewer (the_sess a p) = v"
    using m(2) by (auto simp: mode_of_def split: option.splits)
  then obtain j where j: "answer (the_sess a p) = Some j" "member j ''type'' = Some (JStr TypeAnswer)"
    using agent_invD(1) [OF inv p(1)] by (auto simp: live_sess_def)
  then have eq: "a' = a" "es = [replay_answer a v j]" using h p m(1) by (auto simp: handleOffer_def)
  then show "a' = a" by simp
  have "filter is_reply es = [Broker (publish (viewer_topic (mqtt a) v) False j)]"
    using j(2) by (simp add: eq(2) is_reply_def replay_answer_def has_type_def publish_def)
  then show "\<exists>j. filter is_reply es = [Broker (publish (viewer_topic (mqtt a) v) False j)] \<and>
      member j ''type'' = Some (JStr ''answer'')" using j(2) unfolding TypeAnswer_def by blast
qed

lemma refused_mode: "refused w v env a a' es \<Longrightarrow> mode_of a' = mode_of a"
  by (auto simp: refused_def)

text \<open>
  C4: every offer is replied to exactly once: of the effects of a fresh offer of viewer \<open>v\<close>, exactly one
  is an answer or an error. It is an answer, in v's mailbox, exactly when the agent is then busy with
  this viewer and session id (accepted, or repeated); otherwise it is an error to v, of one of the five
  codes of the protocol, marked retryable exactly for \<open>busy\<close>, \<open>source_unavailable\<close> and \<open>internal\<close>, and
  the agent's mode is unchanged.
\<close>

theorem offer_answered:
  assumes "reachable a" and "handleMessage (mqtt a) (now w) topic msg = Some (v, env, False)"
    and "Type env = TypeOffer" and "agent_step w (Message topic msg) a = (a', es)"
  shows "if sidPattern (SID env) \<and> mode_of a' = Busy (SID env) v
     then \<exists>j. filter is_reply es = [Broker (publish (viewer_topic (mqtt a) v) False j)] \<and>
              member j ''type'' = Some (JStr ''answer'')
     else refused w v env a a' es" (is "if ?b then ?answered else _")
proof -
  note inv = reachable_inv [OF assms(1)]
  have h: "handleOffer w v env a = (a', es)"
    using assms(2-4) by (simp add: on_message_def handleEnvelope_def)
  consider (acc) "accepts w (Message topic msg) a = Some (SID env, v)"
    | (rep) "sidPattern (SID env)" "mode_of a = Busy (SID env) v"
    | (none) "accepts w (Message topic msg) a = None" "\<not> (sidPattern (SID env) \<and> mode_of a = Busy (SID env) v)"
    using assms(2,3) by (cases "accepts w (Message topic msg) a") (auto simp: accepts_def split: option.splits if_splits)
  then show ?thesis
  proof cases
    case acc
    then show ?thesis using accepted_reply [OF inv assms(4) acc] by simp
  next
    case rep
    then show ?thesis using repeated_reply [OF inv h rep] by simp
  next
    case none
    have "answer_to w d a = None" if "offer_request a env = Some d" for d
      using none(1) assms(2,3) that by (auto simp: accepts_def split: if_splits)
    then have r: "refused w v env a a' es"
      using offer_idle_refused [OF inv _ _ h] offer_not_idle [OF h] none(2) by (cases "sess a") auto
    then have n: "\<not> ?b" using refused_mode [OF r] none(2) by simp
    show ?thesis unfolding if_not_P [OF n] by (rule r)
  qed
qed

lemma sample_handle_idle:
  assumes "idPattern who" and "V env = 1" and "TS env = 1791892800" and "utf8 (SID env)" and "utf8 (Type env)"
  shows "handleMessage (mqtt (start sample_world sample_new)) (now sample_world) (''ocam/dev/cam-1/in/'' @ who)
    (Some (enc_Envelope env)) = Some (who, env, False)"
proof -
  have "topicIn (mqtt (start sample_world sample_new)) = ''ocam/dev/cam-1/in/''" by code_simp
  moreover have "tsAcceptable 1791892800 oct_2026" by code_simp
  moreover have "now sample_world = oct_2026" by (simp add: sample_world_def)
  ultimately show ?thesis
    using assms by (simp add: handleMessage_def HasPrefix_iff envelope_codec.unmarshal_enc in_int64_def ProtocolVersion_def)
qed

theorem offer_answered_witness:
  "\<exists>a' es env. agent_step sample_world (sample_msg ''viewer'' ''short'' TypeOffer (JObj [])) (start sample_world sample_new) = (a', es) \<and>
     SID env = ''short'' \<and> refused sample_world ''viewer'' env (start sample_world sample_new) a' es"
proof -
  define env where "env = \<lparr>V = 1, TS = 1791892800, SID = ''short'', Type = TypeOffer, Data = Some (JObj [])\<rparr>"
  obtain a' es where st: "agent_step sample_world (Message (''ocam/dev/cam-1/in/'' @ ''viewer'') (Some (enc_Envelope env)))
      (start sample_world sample_new) = (a', es)" by fastforce
  have "handleMessage (mqtt (start sample_world sample_new)) (now sample_world) (''ocam/dev/cam-1/in/'' @ ''viewer'')
      (Some (enc_Envelope env)) = Some (''viewer'', env, False)"
    by (rule sample_handle_idle) (simp_all add: env_def ascii_eval)
  from offer_answered [OF sample_reachable(1) this _ st] have "if sidPattern (SID env) \<and> mode_of a' = Busy (SID env) ''viewer''
     then \<exists>j. filter is_reply es = [Broker (publish (viewer_topic (mqtt (start sample_world sample_new)) ''viewer'') False j)] \<and>
              member j ''type'' = Some (JStr ''answer'')
     else refused sample_world ''viewer'' env (start sample_world sample_new) a' es" by (simp add: env_def)
  moreover have "\<not> sidPattern (SID env)" unfolding env_def by code_simp
  ultimately have "refused sample_world ''viewer'' env (start sample_world sample_new) a' es" by simp
  moreover have "agent_step sample_world (sample_msg ''viewer'' ''short'' TypeOffer (JObj [])) (start sample_world sample_new) = (a', es)"
    using st by (simp add: sample_msg_def env_def del: agent_step.simps)
  moreover have "SID env = ''short''" by (simp add: env_def)
  ultimately show ?thesis by blast
qed

text \<open>
  A message whose time stamp is outside the tolerance has no effect: the agent is left as it
  was, and only an offer gets a reply, the retryable error \<open>stale\<close>.
\<close>

theorem stale_harmless:
  assumes "handleMessage (mqtt a) (now w) topic msg = Some (who, env, True)"
  shows "agent_step w (Message topic msg) a =
    (a, if Type env = TypeOffer
        then [sendError w a who (SID env) ''stale'' ''clock out of sync (ts outside tolerance)'' True] else [])"
  using assms by (simp add: on_message_def handleEnvelope_def ErrStale_def)

theorem stale_harmless_witness:
  "\<exists>env. agent_step sample_world (Message ''ocam/dev/cam-1/in/viewer'' (Some (enc_Envelope env))) sample_busy = (sample_busy, []) \<and>
     Type env = TypeBye \<and> SID env = ''session01''"
proof -
  let ?env = "\<lparr>V = 1, TS = 1791892831, SID = ''session01'', Type = TypeBye, Data = None\<rparr>"
  have "topicIn (mqtt sample_busy) = ''ocam/dev/cam-1/in/''" by code_simp
  moreover have "\<not> tsAcceptable 1791892831 oct_2026" by code_simp
  moreover have "now sample_world = oct_2026" by (simp add: sample_world_def)
  ultimately have "handleMessage (mqtt sample_busy) (now sample_world) ''ocam/dev/cam-1/in/viewer'' (Some (enc_Envelope ?env)) =
      Some (''viewer'', ?env, True)"
    by (simp add: handleMessage_def HasPrefix_def envelope_codec.unmarshal_enc in_int64_def ProtocolVersion_def ascii_eval)
  from stale_harmless [OF this] show ?thesis by (intro exI [of _ ?env]) simp
qed
end
