(* ===== verification/AgentLife.thy ===== *)
theory AgentLife imports AgentProps begin

text \<open>
  Further properties of the agent's sessions, for events handled one after the other: the retained
  state, the connection deadline and the shutdown.
\<close>

section \<open>The batching operations of a handler\<close>

text \<open>
  What one handler, run alone, does with a session's batching: a candidate or the end, the timer, the
  start, the stop. (\<open>IceBatches\<close> has the batching under every interleaving.)
\<close>

datatype ice_op = Queue "ICECandidate option" | Fires | Starts | Stops

definition sent_batch :: "Session \<times> ICEData option \<Rightarrow> Session \<times> ICEData list" where
  "sent_batch sd = (case sd of (s, None) \<Rightarrow> (s, []) | (s, Some b) \<Rightarrow> (s, [b]))"

fun ice_step :: "ice_op \<Rightarrow> Session \<Rightarrow> Session \<times> ICEData list" where
  "ice_step (Queue c) s = (case queueICE c s of (s1, fl) \<Rightarrow> if fl then sent_batch (flushICE s1) else (s1, []))"
| "ice_step Fires s = (if iceTimer s then sent_batch (flushICE s) else (s, []))"
| "ice_step Starts s = (case startICE s of (s1, fl) \<Rightarrow> if fl then sent_batch (flushICE s1) else (s1, []))"
| "ice_step Stops s = (stopICE s, [])"

text \<open>The operations of the agent's session are these steps.\<close>

lemma local_ice_step:
  assumes "p < length (heap a)"
  shows "local_ice w p c a = (case ice_step (Queue c) (the_sess a p) of (s, bs) \<Rightarrow>
      (put_sess p s a, concat (map (\<lambda>b. send_batch w a s (Some b)) bs)))"
    and "batch_timer w p a = (case ice_step Fires (the_sess a p) of (s, bs) \<Rightarrow>
      (put_sess p s a, concat (map (\<lambda>b. send_batch w a s (Some b)) bs)))"
    and "start_ice w p a = (case ice_step Starts (the_sess a p) of (s, bs) \<Rightarrow>
      (put_sess p s a, concat (map (\<lambda>b. send_batch w a s (Some b)) bs)))"
    and "stop_ice p a = put_sess p (fst (ice_step Stops (the_sess a p))) a"
  using assms
  by (auto simp: local_ice_def batch_timer_def start_ice_def stop_ice_def flush_def sent_batch_def send_batch_put
      split: prod.splits option.splits)


definition sample_candidate :: "string \<Rightarrow> ICECandidate" where
  "sample_candidate c = \<lparr>Candidate = c, SDPMid = None, SDPMLineIndex = None\<rparr>"

section \<open>The retained state\<close>

lemma retained_state_current_parts:
  assumes "NewAgent rd vp t c = Inr (a, opts)" and "agent_run ((w, Connected) # evs) (start w0 a) = (a', es)"
  shows "states a' es \<noteq> []" and "\<exists>t'. last (states a' es) = enc_State (state_of a' t' True)"
proof -
  let ?a = "start w0 a"
  obtain a1 fs where s: "on_connect w ?a = (a1, fs)" by fastforce
  obtain gs where r: "agent_run evs a1 = (a', gs)" and es: "es = fs @ gs"
    using assms(2) by (auto simp: s split: prod.splits)
  have tr: "tracks ?a a' es" using agent_run_tracks [OF assms(2)] .
  then have m: "states a' es = states ?a es" by (intro states_mqtt) (simp add: tracks_def kept_def)
  have ne: "states ?a es \<noteq> []" using tracks_connect [OF s] by (simp add: es)
  then show "states a' es \<noteq> []" by (simp add: m)
  have "published ?a a' es" using tr start_idle(3) [OF assms(1)] by (simp add: tracks_def)
  with ne show "\<exists>t'. last (states a' es) = enc_State (state_of a' t' True)" by (simp add: published_def m)
qed

text \<open>
  C3: no event is forgotten in the retained state: when the events of the agent are handled one after the
  other, then after the first connection to the broker and any further events the last retained
  message on the state topic is the agent's current state (busy with the active viewer or free, online
  and capabilities as the source monitor has them), up to its time stamp. Handlers that run at once
  can publish out of order; \<open>retained_state_race\<close> in \<open>Races\<close> is such a schedule.
\<close>

theorem retained_state_current:
  assumes "NewAgent rd vp t c = Inr (a, opts)" and "agent_run ((w, Connected) # evs) (start w0 a) = (a', es)"
  shows "(states a' es \<noteq> []) \<and>
    (\<exists>t'. last (states a' es) = enc_State (state_of a' t' True))"
  by (intro conjI impI) (rule retained_state_current_parts [OF assms]; assumption?)+

theorem retained_state_current_witness:
  "\<exists>t. last (states sample_busy (snd (agent_run [(sample_world, Connected), (sample_world, sample_offer), (sample_world, StreamEnd 0)]
       (start sample_world sample_new)))) =
     enc_State (state_of (fst (agent_run [(sample_world, Connected), (sample_world, sample_offer), (sample_world, StreamEnd 0)]
       (start sample_world sample_new))) t True)"
proof -
  let ?r = "agent_run [(sample_world, Connected), (sample_world, sample_offer), (sample_world, StreamEnd 0)]
       (start sample_world sample_new)"
  obtain opts where n: "NewAgent (\<lambda>_. Inr '''') (\<lambda>_. True) oct_2026 sample_cfg = Inr (sample_new, opts)"
    by (rule sample_NewAgent)
  have "topicState (mqtt (fst ?r)) = topicState (mqtt sample_busy)" by code_simp
  then have "states (fst ?r) es = states sample_busy es" for es by (rule states_mqtt)
  with retained_state_current [OF n surjective_pairing] show ?thesis by metis
qed

section \<open>The connection deadline\<close>

text \<open>The deadline and the connection of the active session, and steps that leave them alone.\<close>

definition deadline_kept :: "Agent \<Rightarrow> Agent \<Rightarrow> bool" where
  "deadline_kept a a' \<longleftrightarrow> (\<forall>p. sess a' = Some p \<longrightarrow> sess a = Some p \<and>
     connectTimer (the_sess a' p) = connectTimer (the_sess a p) \<and>
     started (sproxy (the_sess a' p)) = started (sproxy (the_sess a p)))"

definition guarded :: "Agent \<Rightarrow> bool" where
  "guarded a \<longleftrightarrow> (\<forall>p. sess a = Some p \<longrightarrow> (connectTimer (the_sess a p) \<longleftrightarrow> \<not> started (sproxy (the_sess a p))))"

lemma deadline_guarded: "deadline_kept a a' \<Longrightarrow> guarded a \<Longrightarrow> guarded a'"
  by (simp add: deadline_kept_def guarded_def)

lemma deadline_refl [simp]: "deadline_kept a a" "sess a' = None \<Longrightarrow> deadline_kept a a'"
  by (simp_all add: deadline_kept_def)

lemma deadline_trans: "deadline_kept a b \<Longrightarrow> deadline_kept b c \<Longrightarrow> deadline_kept a c"
  by (simp add: deadline_kept_def)

lemma deadline_same: "sess a' = sess a \<Longrightarrow> heap a' = heap a \<Longrightarrow> deadline_kept a a'"
  by (simp add: deadline_kept_def)

lemma deadline_put:
  "sess a \<noteq> Some p \<or> connectTimer s = connectTimer (the_sess a p) \<and> started (sproxy s) = started (sproxy (the_sess a p)) \<Longrightarrow>
     deadline_kept a (put_sess p s a)"
  by (auto simp: deadline_kept_def put_nth simp del: put_sess_simps(7,8))

lemma deadline_end: "endSession w p r b a = (a', es) \<Longrightarrow> deadline_kept a a'"
proof (cases "sess a = Some p")
  case True
  assume h: "endSession w p r b a = (a', es)"
  obtain a2 cl where c: "close_proxy p (stop_ice p (stop_timer p (a\<lparr>sess := None\<rparr>))) = (a2, cl)" by fastforce
  obtain a3 mk where m: "marked w r a2 = (a3, mk)" by fastforce
  have "sess a2 = None" using c by (auto simp: close_proxy_def stop_ice_def stop_timer_def case_prod_beta Let_def)
  moreover have "a' = a3" using h True c m by (auto simp: endSession_def marked_def Let_def split: if_splits prod.splits)
  ultimately show "deadline_kept a a'" using marked_frame(1) [OF m] by simp
qed (simp add: endSession_def)

lemma ice_deadline:
  assumes "ice_step x s = (s', bs)"
  shows "connectTimer s' = connectTimer s" "sproxy s' = sproxy s"
  using assms
  by (cases x; auto simp: sent_batch_def queueICE_def flushICE_def startICE_def stopICE_def Let_def
      split: if_splits option.splits prod.splits)+

lemma deadline_ice:
  assumes "p < length (heap a)"
  shows "local_ice w p c a = (a', es) \<Longrightarrow> deadline_kept a a'"
    and "batch_timer w p a = (a', es) \<Longrightarrow> deadline_kept a a'"
proof -
  have k: "deadline_kept a (put_sess p (fst (ice_step x (the_sess a p))) a)" for x
    using ice_deadline [of x "the_sess a p"] by (intro deadline_put) (simp add: prod_eq_iff)
  show "local_ice w p c a = (a', es) \<Longrightarrow> deadline_kept a a'"
    using k [of "Queue c"] by (auto simp: local_ice_step(1) [OF assms] case_prod_beta simp del: ice_step.simps)
  show "batch_timer w p a = (a', es) \<Longrightarrow> deadline_kept a a'"
    using k [of Fires] by (auto simp: local_ice_step(2) [OF assms] case_prod_beta simp del: ice_step.simps)
qed

lemma deadline_ending_proxy:
  assumes "f (sproxy (the_sess a p)) = (sproxy (the_sess a p), if b then [OnEnd r] else [])"
    and "run_proxy w p f a = (a', es)"
  shows "deadline_kept a a'"
  using assms deadline_end [of w p r True a a' es]
  by (cases b) (auto simp: run_proxy_end run_proxy_none)

lemma guarded_peer:
  assumes inv: "agent_inv a" and p: "p < length (heap a)" and g: "guarded a"
    and st: "run_proxy w p (handleConnectionState x) a = (a', es)"
  shows "guarded a'"
proof -
  obtain wp xs where h: "handleConnectionState x (sproxy (the_sess a p)) = (wp, xs)" by fastforce
  note hs = handleConnectionState_inv [OF agent_wp_inv [OF inv p] h]
  have s: "started wp \<longleftrightarrow> started (sproxy (the_sess a p)) \<or> \<not> closed (sproxy (the_sess a p)) \<and> x = StateConnected"
    using h agent_wp_inv [OF inv p]
    by (cases x) (auto simp: handleConnectionState_def stop_disconnect_def proxy_end_def wp_inv_def Let_def split: if_splits)
  let ?a1 = "put_sess p ((the_sess a p)\<lparr>sproxy := wp\<rparr>) a"
  have cb: "callbacks w p xs ?a1 = (a', es)" using st by (simp add: run_proxy_def h)

  consider (none) "xs = []" | (fail) "xs = [OnEnd ByeICEFailed]"
    | (conn) "xs = [StartRTSP, OnConnected]" "\<not> closed (sproxy (the_sess a p))" "x = StateConnected"
    using hs(4) by (auto split: if_splits)
  then show ?thesis
  proof cases
    case none
    have "deadline_kept a ?a1"
    proof (rule deadline_put)
      show "sess a \<noteq> Some p \<or> connectTimer ((the_sess a p)\<lparr>sproxy := wp\<rparr>) = connectTimer (the_sess a p) \<and>
          started (sproxy ((the_sess a p)\<lparr>sproxy := wp\<rparr>)) = started (sproxy (the_sess a p))"
        using s hs(4) none by (auto split: if_splits)
    qed
    then show ?thesis using cb none g deadline_guarded by simp
  next
    case fail
    then have "endSession w p ByeICEFailed True ?a1 = (a', es)" using cb by (simp add: case_prod_beta Let_def)
    then have "deadline_kept ?a1 a'" by (rule deadline_end)
    moreover have "deadline_kept a ?a1" using s fail hs(4) by (intro deadline_put) (auto split: if_splits)
    ultimately show ?thesis using g deadline_guarded by blast
  next
    case conn
    then have "a' = onConnected p ?a1" using cb by simp
    then show ?thesis
      using g s conn p by (auto simp: guarded_def onConnected_def stop_timer_def put_nth simp del: put_sess_simps(7,8))
  qed
qed

text \<open>The session an offer opens: deadline running, not connected.\<close>

lemma accepted_deadline:
  assumes inv: "agent_inv a" and st: "agent_step w e a = (a', es)" and acc: "accepts w e a = Some (s, v)"
  shows "sess a' = Some p \<Longrightarrow> connectTimer (the_sess a' p) \<longleftrightarrow> \<not> started (sproxy (the_sess a' p))"
proof -
  obtain topic m env d sdp where e: "e = Message topic m"
    and hm: "handleMessage (mqtt a) (now w) topic m = Some (v, env, False)"
    and ty: "Type env = TypeOffer" "SID env = s" and rq: "offer_request a env = Some d"
    and an: "answer_to w d a = Some sdp"
    using accepts_offer [OF acc] by metis
  note req = offer_requestD [OF rq]
  obtain a1 es1 on where av: "available w a = (a1, es1, on)" by (metis prod_cases3)
  obtain video audio where c: "codecs a1 = (video, audio)" by fastforce
  obtain wp xs r where ho: "HandleOffer (lib w) (offer_SDP d) (want_audio d) (new_proxy a1 video audio) = (wp, xs, r)"
    by (metis prod_cases3)
  have ok: "on" "video \<noteq> ''''" "r = Inr sdp"
    using an by (auto simp: answer_to_def av c ho split: if_splits sum.splits)
  obtain a2 fs where ac: "accept_offer w v s wp xs sdp a1 = (a2, fs)" by fastforce
  have eq: "a' = a2"
    using st hm ty req ok by (simp add: e on_message_def handleEnvelope_def handleOffer_def av answer_offer_def c ho ac)
  have un: "unused (new_proxy a1 video audio)" by (simp add: new_proxy_def)
  from HandleOffer_answer [OF ho [unfolded ok(3)] un] un have wp: "\<not> started wp"
    by (simp add: same_life_def unused_def)
  define o1 where "o1 = opened w v s wp sdp a1"
  let ?q = "length (heap a1)"
  have o1: "?q < length (heap o1)" "sess o1 = Some ?q" "sproxy (the_sess o1 ?q) = wp"
    using early_frame [of "early w" "NewSession s v wp"] by (simp_all add: o1_def opened_def NewSession_def)
  obtain s3 bs where i: "ice_step Starts (the_sess o1 ?q) = (s3, bs)" by fastforce
  have "sproxy s3 = wp" using ice_deadline(2) [OF i] o1(3) by simp
  moreover have "a' = put_sess ?q (s3\<lparr>connectTimer := True\<rparr>) o1"
    using ac o1(1) by (simp add: eq accept_offer_eq Let_def o1_def [symmetric] local_ice_step(3) [OF o1(1)] i
        del: ice_step.simps)
  ultimately show "sess a' = Some p \<Longrightarrow> connectTimer (the_sess a' p) \<longleftrightarrow> \<not> started (sproxy (the_sess a' p))"
    using o1(1,2) wp by auto
qed

text \<open>A message that does not end the active session leaves the agent as it is.\<close>

lemma endSession_idle: "sess a = Some p \<Longrightarrow> endSession w p r b a = (a', es) \<Longrightarrow> sess a' = None"
proof -
  assume s: "sess a = Some p" and h: "endSession w p r b a = (a', es)"
  obtain a2 cl where c: "close_proxy p (stop_ice p (stop_timer p (a\<lparr>sess := None\<rparr>))) = (a2, cl)" by fastforce
  obtain a3 mk where m: "marked w r a2 = (a3, mk)" by fastforce
  have "sess a2 = None" using c by (auto simp: close_proxy_def stop_ice_def stop_timer_def case_prod_beta Let_def)
  moreover have "a' = a3" using h s c m by (auto simp: endSession_def marked_def Let_def split: if_splits prod.splits)
  ultimately show "sess a' = None" using marked_frame(1) [OF m] by simp
qed

lemma busy_message_same:
  assumes st: "on_message w topic msg a = (a', es)" and q: "quiet a a' es" and s: "sess a = Some p"
  shows "a' = a"
proof -
  have bye: "b = a" if "handleBye w who env a = (b, fs)" "sess b \<noteq> None" for who env b fs
    using that s endSession_idle [of a p w ByeUser False b fs]
    by (auto simp: handleBye_def owned_def split: option.splits if_splits)
  have "sess a' \<noteq> None" using q s by (simp add: quiet_def)
  then show ?thesis
    using st s bye by (auto simp: on_message_def handleEnvelope_def handleOffer_def handleICE_def handleCmd_def
        split: option.splits if_splits prod.splits)
qed

lemma deadline_message:
  assumes inv: "agent_inv a" and st: "on_message w topic msg a = (a', es)" and g: "guarded a"
  shows "guarded a'"
proof (cases "accepts w (Message topic msg) a")
  case (Some sv)
  obtain s v where sv: "accepts w (Message topic msg) a = Some (s, v)" using Some by (cases sv) simp
  have "agent_step w (Message topic msg) a = (a', es)" using st by simp
  from accepted_deadline [OF inv this sv] show ?thesis by (simp add: guarded_def)
next
  case None
  from message_step [OF inv st] show ?thesis
  proof (elim disjE exE conjE)
    assume q: "quiet a a' es"
    show ?thesis
    proof (cases "sess a")
      case None
      then show ?thesis using q by (simp add: quiet_def guarded_def)
    next
      case (Some p)
      have "a' = a" using st q Some by (rule busy_message_same)
      then show ?thesis using g by simp
    qed
  next
    fix p
    assume "endSession w p ByeUser False a = (a', es)"
    then show ?thesis using deadline_end deadline_guarded g by blast
  qed (use None in simp)
qed

theorem guarded_step:
  assumes inv: "agent_inv a" and g: "guarded a" and st: "agent_step w e a = (a', es)"
  shows "guarded a'"
proof (cases e)
  case (Message topic msg)
  then show ?thesis using st deadline_message [OF inv _ g] by simp
next
  case (PeerState p x)
  then show ?thesis using st g guarded_peer [OF inv _ g] by (auto split: if_splits)
next
  case (LocalICE p c)
  then show ?thesis using st g deadline_guarded [OF deadline_ice(1), of p a w c a' es] by (simp split: if_splits)
next
  case (BatchTimer p)
  then show ?thesis using st g deadline_guarded [OF deadline_ice(2), of p a w a' es] by (simp split: if_splits)
next
  case (GraceTimer p)
  show ?thesis
  proof (cases "p < length (heap a)")
    case True
    then have "run_proxy w p disconnect_fires a = (a', es)" using st GraceTimer by simp
    from deadline_ending_proxy [OF _ this] disconnect_fires_inv [OF agent_wp_inv [OF inv True]] g deadline_guarded
    show ?thesis by blast
  qed (use st g GraceTimer in simp)
next
  case (StreamEnd p)
  show ?thesis
  proof (cases "p < length (heap a)")
    case True
    then have r: "run_proxy w p (proxy_end ByeSourceLost) a = (a', es)" using st StreamEnd by simp
    have "proxy_end ByeSourceLost (sproxy (the_sess a p)) =
        (sproxy (the_sess a p), if \<not> closed (sproxy (the_sess a p)) then [OnEnd ByeSourceLost] else [])"
      using proxy_end_inv [OF agent_wp_inv [OF inv True]] by simp
    from deadline_ending_proxy [OF this r] g deadline_guarded show ?thesis by blast
  qed (use st g StreamEnd in simp)
next
  case (ConnectTimeout p)
  show ?thesis
  proof (cases "p < length (heap a) \<and> connectTimer (the_sess a p)")
    case True
    then have e: "endSession w p ByeTimeout True (stop_timer p a) = (a', es)"
      using st ConnectTimeout by (simp add: connect_timeout_def)
    show ?thesis
    proof (cases "sess a = Some p")
      case True
      then have "sess (stop_timer p a) = Some p" by (simp add: stop_timer_def)
      moreover have "agent_inv (stop_timer p a)"
        using agent_inv_put [OF inv] agent_invD(1) [OF inv True] True by (simp add: stop_timer_def live_sess_def)
      ultimately have "sess a' = None" using endSession_live(2) e by blast
      then show ?thesis by (simp add: guarded_def)
    next
      case False
      then have "deadline_kept a (stop_timer p a)" by (simp add: stop_timer_def deadline_put)
      then show ?thesis using deadline_end [OF e] g deadline_guarded by blast
    qed
  next
    case False
    then show ?thesis using st g ConnectTimeout by (auto simp: connect_timeout_def split: if_splits)
  qed
next
  case MonitorTick
  then show ?thesis using st g probe_now_frame(1,2)
    by (fastforce simp: monitor_tick_def guarded_def split: if_splits prod.splits)
next
  case Connected
  then show ?thesis using st g by (auto simp: on_connect_def guarded_def split: prod.splits)
qed

lemma reachable_guarded: "reachable a \<Longrightarrow> guarded a"
proof (induction rule: reachable.induct)
  case (reach_start rd vp t c a opts w)
  then show ?case using start_idle(1) by (simp add: guarded_def)
next
  case (reach_step a w e a' es)
  then show ?case using guarded_step [OF reachable_inv] by blast
qed

lemma deadline_sequential_parts:
  assumes "reachable a" and "mode_of a = Busy s v" and "sess a = Some p"
    and "agent_step w (ConnectTimeout p) a = (a', es)"
  shows "started (sproxy (the_sess a p)) \<Longrightarrow> a' = a \<and> es = []"
    and "\<not> started (sproxy (the_sess a p)) \<Longrightarrow> mode_of a' = Idle \<and>
      filter (has_type TypeBye) es = [send w a v TypeBye s (Some (enc_ByeData \<lparr>Reason = ''timeout''\<rparr>))]"
proof -
  have g: "connectTimer (the_sess a p) \<longleftrightarrow> \<not> started (sproxy (the_sess a p))"
    using reachable_guarded [OF assms(1)] assms(3) by (simp add: guarded_def)
  { assume "started (sproxy (the_sess a p))"
    then show "a' = a \<and> es = []" using assms(4) g by (simp add: connect_timeout_def split: if_splits) }
  { assume "\<not> started (sproxy (the_sess a p))"
    then have "end_cause w (ConnectTimeout p) a = Some (ByeTimeout, True)" using g assms(3) by (simp add: end_cause_def)
    then show "mode_of a' = Idle \<and>
        filter (has_type TypeBye) es = [send w a v TypeBye s (Some (enc_ByeData \<lparr>Reason = ''timeout''\<rparr>))]"
      using agent_step_ok [OF reachable_inv [OF assms(1)] assms(4)] assms(2)
      by (simp add: step_ok_def mode_step_def bye_of_def ByeTimeout_def) }
qed

text \<open>
  When events are handled one after the other, the active session of a reachable agent is either
  connected, and then the connection deadline does nothing to it, or not, and then the deadline is
  running and its expiry ends the session: the agent is idle and has sent one bye, for \<open>timeout\<close>.
  (\<open>Deadlines\<close> says what remains of it when handlers run at once.)
\<close>

theorem deadline_sequential:
  assumes "reachable a" and "mode_of a = Busy s v" and "sess a = Some p"
    and "agent_step w (ConnectTimeout p) a = (a', es)"
  shows "(started (sproxy (the_sess a p)) \<longrightarrow> a' = a \<and> es = []) \<and>
    (\<not> started (sproxy (the_sess a p)) \<longrightarrow> mode_of a' = Idle \<and>
      filter (has_type TypeBye) es = [send w a v TypeBye s (Some (enc_ByeData \<lparr>Reason = ''timeout''\<rparr>))])"
  using deadline_sequential_parts [OF assms] by blast

theorem deadline_sequential_witness:
  "mode_of (fst (agent_step sample_world (ConnectTimeout 0) sample_busy)) = Idle"
proof -
  have "\<not> started (sproxy (the_sess sample_busy 0))" by code_simp
  with deadline_sequential [OF sample_reachable(2) sample_mode surjective_pairing] show ?thesis by blast
qed

section \<open>Shutdown\<close>

lemma mqtt_Close_effects:
  "states a (map Broker (mqtt_Close m f op)) = (if op \<and> topicState m = topicState (mqtt a) then [enc_State (f False)] else [])"
  "filter (has_type TypeBye) (map Broker (mqtt_Close m f op)) = []"
  "pcs (map Broker (mqtt_Close m f op)) = 0"
  by (auto simp: mqtt_Close_def states_def has_type_def pcs_def peer_effects_def)

text \<open>What a shutdown leaves, without and with an active session.\<close>

definition shut :: "world \<Rightarrow> Agent \<Rightarrow> Agent \<Rightarrow> effect list \<Rightarrow> bool" where
  "shut w a a' es \<longleftrightarrow> mode_of a' = Idle \<and> pcs es = (if mode_of a = Idle then 0 else -1) \<and>
    (\<forall>p < length (heap a'). closed (sproxy (the_sess a' p))) \<and> stopped (source a') \<and>
    filter (has_type TypeBye) es = (case mode_of a of Idle \<Rightarrow> []
      | Busy s v \<Rightarrow> [send w a v TypeBye s (Some (enc_ByeData \<lparr>Reason = ByeShutdown\<rparr>))]) \<and>
    (\<exists>st. states a es = (if mqttOpen w then [enc_State st] else []) \<and> \<not> Online st) \<and> last es = Broker (Disconnect 250)"

abbreviation farewell :: "world \<Rightarrow> Agent \<Rightarrow> effect list" where
  "farewell w b \<equiv> map Broker (mqtt_Close (mqtt b) (state_of b (now w)) (mqttOpen w))"

lemma farewell_off:
  "\<exists>st. (if mqttOpen w then [enc_State (state_of b t False)] else []) =
      (if mqttOpen w then [enc_State st] else []) \<and> \<not> Online st"
  by (intro exI [of _ "state_of b t False"]) (simp add: state_of_def Let_def)

lemma farewell_last: "last (xs @ farewell w b) = Broker (Disconnect 250)"
  by (simp add: mqtt_Close_def)

lemma shutdown_idle:
  assumes inv: "agent_inv a" and None: "sess a = None" and st: "Shutdown w a = (a', es)"
  shows "shut w a a' es"
proof -
  let ?a = "a\<lparr>source := Source.Stop (source a)\<rparr>"
  have "Shutdown w a = (?a, farewell w ?a)" using None by (simp add: Shutdown_def Let_def)
  then have "a' = ?a" "es = farewell w ?a" using st by (metis Pair_inject)+
  moreover from this have "\<exists>st. states a es = (if mqttOpen w then [enc_State st] else []) \<and> \<not> Online st"
    using farewell_off [of w ?a "now w"] by (simp only: mqtt_Close_effects) simp
  moreover have "last (farewell w ?a) = Broker (Disconnect 250)" using farewell_last [of "[]" ?a w] by simp
  ultimately show ?thesis
    using None closed_iff_ended [OF inv] by (simp add: shut_def mode_of_def mqtt_Close_effects Source.Stop_def)
qed

lemma shutdown_busy:
  assumes inv: "agent_inv a" and Some: "sess a = Some p" and st: "Shutdown w a = (a', es)"
  shows "shut w a a' es"
proof -
  let ?a = "a\<lparr>source := Source.Stop (source a)\<rparr>"
  let ?s = "(stopICE (the_sess a p))\<lparr>sproxy := fst (proxy_Close (sproxy (the_sess a p)))\<rparr>"
  let ?a1 = "put_sess p ?s (?a\<lparr>sess := None\<rparr>)"
  let ?bye = "send w a (viewer (the_sess a p)) TypeBye (sid (the_sess a p)) (Some (enc_ByeData \<lparr>Reason = ByeShutdown\<rparr>))"
  let ?es = "(map (Peer p) (snd (proxy_Close (sproxy (the_sess a p)))) @ [?bye]) @ farewell w ?a1"
  have p: "p < length (heap a)" and l: "live_sess (the_sess a p)" using agent_invD(1) [OF inv Some] by blast+
  have cp: "close_proxy p (stop_ice p (?a\<lparr>sess := None\<rparr>)) =
      (?a1, map (Peer p) (snd (proxy_Close (sproxy (the_sess a p)))))"
    using p by (simp add: close_proxy_def stop_ice_def put_sess_def stopICE_def case_prod_beta Let_def)
  have bye: "send_bye w ?a1 p ByeShutdown = ?bye"
    using p by (simp add: send_bye_def send_def put_sess_def stopICE_def)
  have "Shutdown w a = (?a1, ?es)" using Some by (simp add: Shutdown_def Let_def cp bye)
  then have eq: "a' = ?a1" "es = ?es" using st by (metis Pair_inject)+
  have cl: "closed (fst (proxy_Close (sproxy (the_sess a p))))"
    using l by (simp add: live_sess_def wp_inv_def proxy_Close_def)
  have "\<forall>q < length (heap a'). closed (sproxy (the_sess a' q))"
    using closed_iff_ended [OF inv] Some cl p by (auto simp: eq(1) put_sess_def nth_list_update)
  moreover have "\<exists>st. states a es = (if mqttOpen w then [enc_State st] else []) \<and> \<not> Online st"
    using farewell_off [of w ?a1 "now w"] by (simp add: eq(2) mqtt_Close_effects)
  moreover have "last es = Broker (Disconnect 250)" unfolding eq(2) by (rule farewell_last)
  moreover have "pcs es = -1" by (simp add: eq(2) mqtt_Close_effects close_live [OF l])
  moreover have "filter (has_type TypeBye) es = [?bye]" by (simp add: eq(2) mqtt_Close_effects)
  ultimately show ?thesis by (simp add: shut_def eq(1) mode_of_def Some Source.Stop_def put_sess_def)
qed

lemma shutdown_clean_parts:
  assumes "reachable a" and "Shutdown w a = (a', es)"
  shows "mode_of a' = Idle" and "pcs es = (if mode_of a = Idle then 0 else -1)"
    and "p < length (heap a') \<Longrightarrow> closed (sproxy (the_sess a' p))" and "stopped (source a')"
    and "filter (has_type TypeBye) es = (case mode_of a of Idle \<Rightarrow> []
      | Busy s v \<Rightarrow> [send w a v TypeBye s (Some (enc_ByeData \<lparr>Reason = ''shutdown''\<rparr>))])"
    and "mqttOpen w \<Longrightarrow> \<exists>st. states a es = [enc_State st] \<and> \<not> Online st"
    and "last es = Broker (Disconnect 250)"
proof -
  have "shut w a a' es"
    using shutdown_idle shutdown_busy reachable_inv [OF assms(1)] assms(2) by (cases "sess a") blast+
  then show "mode_of a' = Idle" "pcs es = (if mode_of a = Idle then 0 else -1)"
    "p < length (heap a') \<Longrightarrow> closed (sproxy (the_sess a' p))" "stopped (source a')"
    "filter (has_type TypeBye) es = (case mode_of a of Idle \<Rightarrow> []
      | Busy s v \<Rightarrow> [send w a v TypeBye s (Some (enc_ByeData \<lparr>Reason = ''shutdown''\<rparr>))])"
    "mqttOpen w \<Longrightarrow> \<exists>st. states a es = [enc_State st] \<and> \<not> Online st"
    "last es = Broker (Disconnect 250)"
    unfolding shut_def ByeShutdown_def by (auto split: mode.splits)
qed

text \<open>
  C12: a shutdown during which no other handler runs leaves nothing behind, whatever events came before
  it: the PeerConnection of the active session, if any, is closed and every session is closed, its viewer
  gets exactly one bye, for \<open>shutdown\<close>, the monitor is stopped, the connection to the broker is closed
  last, and if the broker is connected, the one state the shutdown retains is offline. What other
  handlers can break is in \<open>Races\<close>: \<open>offline_race\<close>, \<open>shutdown_race\<close>, \<open>offer_shutdown_race\<close>.
\<close>

theorem shutdown_clean:
  assumes "reachable a" and "Shutdown w a = (a', es)"
  shows "(mode_of a' = Idle) \<and>
    (pcs es = (if mode_of a = Idle then 0 else -1)) \<and>
    (p < length (heap a') \<longrightarrow> closed (sproxy (the_sess a' p))) \<and>
    (stopped (source a')) \<and>
    (filter (has_type TypeBye) es = (case mode_of a of Idle \<Rightarrow> []
      | Busy s v \<Rightarrow> [send w a v TypeBye s (Some (enc_ByeData \<lparr>Reason = ''shutdown''\<rparr>))])) \<and>
    (mqttOpen w \<longrightarrow> (\<exists>st. states a es = [enc_State st] \<and> \<not> Online st)) \<and>
    (last es = Broker (Disconnect 250))"
  by (intro conjI impI) (rule shutdown_clean_parts [OF assms]; assumption?)+

theorem shutdown_clean_witness:
  "pcs (snd (Shutdown sample_world sample_busy)) = -1 \<and>
   filter (has_type TypeBye) (snd (Shutdown sample_world sample_busy)) =
     [send sample_world sample_busy ''viewer'' TypeBye ''session01'' (Some (enc_ByeData \<lparr>Reason = ''shutdown''\<rparr>))]"
  using shutdown_clean [OF sample_reachable(2) surjective_pairing] sample_mode by simp
end
