(* ===== verification/Timed.thy ===== *)
theory Timed imports AgentLife begin

text \<open>
  The agent in real time. \<open>Agent.thy\<close> leaves open when a timer fires; here each event has an instant,
  and each running timer of a session the instant it is due: \<open>time.AfterFunc\<close> never calls its
  function before, and calls it at the latest \<open>\<delta>\<close> after. What waits for a timer then waits no longer
  than its duration and \<open>\<delta>\<close> (\<open>waiting_bounded\<close>), and time never stops (\<open>time_diverges\<close>).
\<close>

section \<open>Timers\<close>

text \<open>The three timers of a session, named by its pointer; instants are nanoseconds.\<close>

datatype alarm = ConnectAlarm nat | BatchAlarm nat | GraceAlarm nat

definition connectTimeout :: int where "connectTimeout = 30 * second"
definition iceBatchWindow :: int where "iceBatchWindow = 100 * (second div 1000)"
definition disconnectGrace :: int where "disconnectGrace = 10 * second"

fun duration :: "alarm \<Rightarrow> int" where
  "duration (ConnectAlarm p) = connectTimeout"
| "duration (BatchAlarm p) = iceBatchWindow"
| "duration (GraceAlarm p) = disconnectGrace"

fun running :: "alarm \<Rightarrow> Agent \<Rightarrow> bool" where
  "running (ConnectAlarm p) a = (p < length (heap a) \<and> connectTimer (the_sess a p))"
| "running (BatchAlarm p) a = (p < length (heap a) \<and> iceTimer (the_sess a p))"
| "running (GraceAlarm p) a = (p < length (heap a) \<and> disconnectTimer (sproxy (the_sess a p)) = Some Running)"

text \<open>The event of a timer that fires.\<close>

fun expiry :: "alarm \<Rightarrow> event" where
  "expiry (ConnectAlarm p) = ConnectTimeout p"
| "expiry (BatchAlarm p) = BatchTimer p"
| "expiry (GraceAlarm p) = GraceTimer p"

fun rings :: "event \<Rightarrow> alarm option" where
  "rings (ConnectTimeout p) = Some (ConnectAlarm p)"
| "rings (BatchTimer p) = Some (BatchAlarm p)"
| "rings (GraceTimer p) = Some (GraceAlarm p)"
| "rings _ = None"

lemma rings_expiry [simp]: "rings (expiry k) = Some k"
  by (cases k) simp_all

definition alarms :: "Agent \<Rightarrow> alarm list" where
  "alarms a = filter (\<lambda>k. running k a)
     (concat (map (\<lambda>p. [ConnectAlarm p, BatchAlarm p, GraceAlarm p]) [0..<length (heap a)]))"

lemma set_alarms [simp]: "k \<in> set (alarms a) \<longleftrightarrow> running k a"
  by (cases k) (auto simp: alarms_def)

section \<open>Runs in time\<close>

record timed =
  clock :: int
  agent :: Agent
  due :: "alarm \<Rightarrow> int"

text \<open>
  An event may come at the instant \<open>t\<close>: time does not go back, no running timer is overdue by more than
  \<open>\<delta>\<close>, and the expiry of a timer comes when it runs and is due.
\<close>

definition timely :: "int \<Rightarrow> int \<Rightarrow> event \<Rightarrow> timed \<Rightarrow> bool" where
  "timely \<delta> t e T \<longleftrightarrow> clock T \<le> t \<and> list_all (\<lambda>k. t \<le> due T k + \<delta>) (alarms (agent T)) \<and>
     (case rings e of None \<Rightarrow> True | Some k \<Rightarrow> running k (agent T) \<and> due T k \<le> t)"

text \<open>A timer that was not running before is due its duration after this step, if it runs then.\<close>

definition timed_step :: "int \<Rightarrow> int \<times> world \<times> event \<Rightarrow> timed \<Rightarrow> timed option" where
  "timed_step \<delta> x T =
     (case x of (t, w, e) \<Rightarrow>
        if timely \<delta> t e T
        then Some \<lparr>clock = t, agent = fst (agent_step w e (agent T)),
                   due = (\<lambda>k. if running k (agent T) then due T k else t + duration k)\<rparr>
        else None)"

fun timed_run :: "int \<Rightarrow> (int \<times> world \<times> event) list \<Rightarrow> timed \<Rightarrow> timed option" where
  "timed_run \<delta> [] T = Some T"
| "timed_run \<delta> (x # xs) T = Option.bind (timed_step \<delta> x T) (timed_run \<delta> xs)"

text \<open>A condition that holds before, between and after the events of a run.\<close>

fun throughout :: "int \<Rightarrow> (Agent \<Rightarrow> bool) \<Rightarrow> (int \<times> world \<times> event) list \<Rightarrow> timed \<Rightarrow> bool" where
  "throughout \<delta> Q [] T = Q (agent T)"
| "throughout \<delta> Q (x # xs) T =
     (Q (agent T) \<and> (case timed_step \<delta> x T of None \<Rightarrow> True | Some T1 \<Rightarrow> throughout \<delta> Q xs T1))"

inductive timed_reachable :: "int \<Rightarrow> timed \<Rightarrow> bool" for \<delta> where
  timed_start: "NewAgent readFile validPEM t c = Inr (a, opts) \<Longrightarrow>
    timed_reachable \<delta> \<lparr>clock = t0, agent = start w a, due = (\<lambda>k. t0 + duration k)\<rparr>"
| timed_next: "timed_reachable \<delta> T \<Longrightarrow> timed_step \<delta> x T = Some T1 \<Longrightarrow> timed_reachable \<delta> T1"

inductive_cases timed_nextE: "timed_reachable \<delta> T"

lemma timed_stepE:
  assumes "timed_step \<delta> x T = Some T1"
  obtains t w e where "x = (t, w, e)" "timely \<delta> t e T" "clock T1 = t" "agent T1 = fst (agent_step w e (agent T))"
    "due T1 = (\<lambda>k. if running k (agent T) then due T k else t + duration k)"
  using assms by (auto simp: timed_step_def split: prod.splits if_splits)

lemma timelyD:
  "timely \<delta> t e T \<Longrightarrow> clock T \<le> t"
  "timely \<delta> t e T \<Longrightarrow> running k (agent T) \<Longrightarrow> t \<le> due T k + \<delta>"
  by (simp_all add: timely_def list_all_iff)

lemma timed_reachable_agent: "timed_reachable \<delta> T \<Longrightarrow> reachable (agent T)"
proof (induction rule: timed_reachable.induct)
  case (timed_start readFile validPEM t c a opts t0 w)
  then show ?case using reach_start by simp
next
  case (timed_next T x T1)
  then show ?case by (auto elim!: timed_stepE intro: reach_step [OF _ surjective_pairing])
qed

lemma duration_pos: "0 < duration k"
  by (cases k) (simp_all add: connectTimeout_def iceBatchWindow_def disconnectGrace_def second_def)

text \<open>No timer is due later than its duration from now, and none is overdue by more than \<open>\<delta>\<close>.\<close>

lemma timed_due:
  assumes "timed_reachable \<delta> T" and "0 \<le> \<delta>"
  shows "due T k \<le> clock T + duration k" "running k (agent T) \<Longrightarrow> clock T \<le> due T k + \<delta>"
proof -
  have "due T k \<le> clock T + duration k \<and> (running k (agent T) \<longrightarrow> clock T \<le> due T k + \<delta>)"
    using assms(1)
  proof (induction rule: timed_reachable.induct)
    case (timed_start readFile validPEM t c a opts t0 w)
    then show ?case using assms(2) duration_pos [of k] by simp
  next
    case (timed_next T x T1)
    obtain t w e where s: "timely \<delta> t e T" "clock T1 = t"
      "due T1 = (\<lambda>k. if running k (agent T) then due T k else t + duration k)"
      using timed_next.hyps(2) by (rule timed_stepE)
    show ?case
      using timelyD [OF s(1)] timed_next.IH assms(2) duration_pos [of k] by (auto simp: s(2,3))
  qed
  then show "due T k \<le> clock T + duration k" "running k (agent T) \<Longrightarrow> clock T \<le> due T k + \<delta>" by blast+
qed

section \<open>Waiting for a timer\<close>

text \<open>
  The contract between a timer and a condition it bounds: while the condition holds of an agent that
  can be reached, the timer runs. The condition then holds no longer than the timer's duration and \<open>\<delta>\<close>.
\<close>

locale bounded_wait =
  fixes Q :: "Agent \<Rightarrow> bool" and k :: alarm
  assumes watched: "reachable a \<Longrightarrow> Q a \<Longrightarrow> running k a"
begin

lemma until_due:
  assumes "timed_reachable \<delta> T" and "0 \<le> \<delta>" and "throughout \<delta> Q xs T" and "timed_run \<delta> xs T = Some T1"
  shows "clock T1 \<le> due T k + \<delta>"
  using assms(1,3,4)
proof (induction xs arbitrary: T)
  case Nil
  then have "running k (agent T)" using watched timed_reachable_agent by simp
  then show ?case using timed_due(2) [OF Nil.prems(1) assms(2)] Nil.prems(3) by simp
next
  case (Cons x xs)
  obtain T2 where s: "timed_step \<delta> x T = Some T2" and r: "timed_run \<delta> xs T2 = Some T1"
    using Cons.prems(3) by (auto simp: bind_eq_Some_conv)
  have "running k (agent T)" using Cons.prems(1,2) watched timed_reachable_agent by simp
  then have "due T2 k = due T k" using s by (auto elim!: timed_stepE)
  moreover have "clock T1 \<le> due T2 k + \<delta>"
    using Cons.IH [OF timed_next [OF Cons.prems(1) s] _ r] Cons.prems(2) s by simp
  ultimately show ?case by simp
qed

lemma bounded:
  assumes "timed_reachable \<delta> T" and "0 \<le> \<delta>" and "throughout \<delta> Q xs T" and "timed_run \<delta> xs T = Some T1"
  shows "clock T1 \<le> clock T + duration k + \<delta>"
  using until_due [OF assms] timed_due(1) [OF assms(1,2), of k] by simp

end

text \<open>What the timers are for: a session that is not connected, candidates not sent, a lost connection.\<close>

fun waiting :: "alarm \<Rightarrow> Agent \<Rightarrow> bool" where
  "waiting (ConnectAlarm p) a = (sess a = Some p \<and> \<not> was_connected (conn_abs (sproxy (the_sess a p))))"
| "waiting (BatchAlarm p) a = (sess a = Some p \<and> elems (iceBuf (the_sess a p)) \<noteq> [])"
| "waiting (GraceAlarm p) a = (sess a = Some p \<and> is_disconnected (conn_abs (sproxy (the_sess a p))))"

interpretation connecting: bounded_wait "waiting (ConnectAlarm p)" "ConnectAlarm p" for p
  using reachable_inv reachable_guarded agent_invD(1)
  by unfold_locales (auto simp: guarded_def conn_abs_def)

interpretation batching: bounded_wait "waiting (BatchAlarm p)" "BatchAlarm p" for p
  using reachable_inv agent_invD(1) by unfold_locales (auto simp: live_sess_def)

lemma wp_inv_timer: "wp_inv wp \<Longrightarrow> \<not> closed wp \<Longrightarrow> disconnectTimer wp \<noteq> None \<Longrightarrow> disconnectTimer wp = Some Running"
  by (cases "disconnectTimer wp"; cases "the (disconnectTimer wp)") (auto simp: wp_inv_def)

interpretation disconnected: bounded_wait "waiting (GraceAlarm p)" "GraceAlarm p" for p
  using reachable_inv agent_invD(1) wp_inv_timer
  by unfold_locales (force simp: live_sess_def conn_abs_def)

text \<open>
  C11: nothing waits longer than it should. In every timed run of the agent in which no timer fires
  more than \<open>\<delta>\<close> late: an active session is without its first connection for at most 30 seconds,
  candidates of the active session are unsent for at most 100 milliseconds, and its connection is
  lost for at most 10 seconds, each plus \<open>\<delta>\<close>; after that the session has ended, the candidates are
  sent, or the connection is back.
\<close>

theorem waiting_bounded:
  assumes "timed_reachable \<delta> T" and "0 \<le> \<delta>" and "timed_run \<delta> xs T = Some T1"
    and "throughout \<delta> (waiting k) xs T"
  shows "clock T1 - clock T \<le>
    (case k of ConnectAlarm _ \<Rightarrow> 30 * 1000000000 | BatchAlarm _ \<Rightarrow> 100 * 1000000 | GraceAlarm _ \<Rightarrow> 10 * 1000000000) + \<delta>"
  using connecting.bounded [OF assms(1,2) _ assms(3)] batching.bounded [OF assms(1,2) _ assms(3)]
    disconnected.bounded [OF assms(1,2) _ assms(3)] assms(4)
  by (cases k) (fastforce simp: connectTimeout_def iceBatchWindow_def disconnectGrace_def second_def)+

text \<open>The sample session: accepted at instant 0, not connected 29 seconds later.\<close>

lemma sample_timed:
  "\<exists>T. timed_reachable 1000000 T \<and> clock T = 0 \<and> agent T = sample_busy \<and> due T (ConnectAlarm 0) = connectTimeout"
proof -
  let ?T0 = "\<lparr>clock = 0, agent = start sample_world sample_new, due = (\<lambda>k. 0 + duration k)\<rparr>"
  obtain opts where n: "NewAgent (\<lambda>_. Inr '''') (\<lambda>_. True) oct_2026 sample_cfg = Inr (sample_new, opts)"
    by (rule sample_NewAgent)
  have "alarms (start sample_world sample_new) = []" by code_simp
  then have s: "timed_step 1000000 (0, sample_world, sample_offer) ?T0 =
      Some \<lparr>clock = 0, agent = sample_busy, due = (\<lambda>k. 0 + duration k)\<rparr>"
    by (simp add: timed_step_def timely_def sample_offer_def sample_msg_def sample_busy_def fun_eq_iff)
  show ?thesis using timed_next [OF timed_start [OF n] s] by fastforce
qed

theorem waiting_bounded_witness:
  "\<exists>T T1. agent T = sample_busy \<and> timed_run 1000000 [(29 * second, sample_world, MonitorTick)] T = Some T1 \<and>
     clock T1 - clock T \<le> 30 * 1000000000 + 1000000"
proof -
  obtain T where T: "timed_reachable 1000000 T" "clock T = 0" "agent T = sample_busy"
    "due T (ConnectAlarm 0) = connectTimeout"
    using sample_timed by blast
  have b: "alarms sample_busy = [ConnectAlarm 0]" "waiting (ConnectAlarm 0) sample_busy"
    by code_simp+
  have same: "fst (agent_step sample_world MonitorTick sample_busy) = sample_busy"
    using sample_mode(2) by (simp add: monitor_tick_def)
  let ?xs = "[(29 * second, sample_world, MonitorTick)]"
  have "timely 1000000 (29 * second) MonitorTick T"
    using T b by (simp add: timely_def connectTimeout_def second_def)
  then obtain T1 where s: "timed_step 1000000 (29 * second, sample_world, MonitorTick) T = Some T1"
      "agent T1 = sample_busy"
    by (simp add: timed_step_def same T(3) del: agent_step.simps)
  have r: "timed_run 1000000 ?xs T = Some T1" using s by simp
  have "throughout 1000000 (waiting (ConnectAlarm 0)) ?xs T" using b s T(3) by (simp del: waiting.simps)
  from waiting_bounded [OF T(1) _ r this] have "clock T1 - clock T \<le> 30 * 1000000000 + 1000000" by simp
  with r T(3) show ?thesis by blast
qed

section \<open>Time does not stop\<close>

text \<open>Fewer timers run: what an expiry does to the session of its timer.\<close>

definition calmer :: "Session \<Rightarrow> Session \<Rightarrow> bool" where
  "calmer s' s \<longleftrightarrow> (connectTimer s' \<longrightarrow> connectTimer s) \<and> (iceTimer s' \<longrightarrow> iceTimer s) \<and>
     (disconnectTimer (sproxy s') = Some Running \<longrightarrow> disconnectTimer (sproxy s) = Some Running)"

lemma calmer_running:
  "p < length (heap a) \<Longrightarrow> heap a' = (heap a)[p := s] \<Longrightarrow> calmer s (the_sess a p) \<Longrightarrow> running j a' \<Longrightarrow> running j a"
  by (cases j) (auto simp: calmer_def nth_list_update split: if_splits)

lemma ended_calm:
  assumes "live_sess s"
  shows "calmer (ended s) s" "\<not> connectTimer (ended s)" "\<not> iceTimer (ended s)"
    "disconnectTimer (sproxy (ended s)) \<noteq> Some Running"
  using assms by (auto simp: calmer_def ended_def live_sess_def wp_inv_def proxy_Close_def)

lemma expiry_calms_parts:
  assumes "reachable a" and "running k a" and "agent_step w (expiry k) a = (a', es)"
  obtains p s where "p < length (heap a)" "heap a' = (heap a)[p := s]" "calmer s (the_sess a p)" "\<not> running k a'"
proof (cases k)
  case (ConnectAlarm p)
  then have p: "p < length (heap a)" and e: "endSession w p ByeTimeout True (stop_timer p a) = (a', es)"
    using assms(2,3) by (simp_all add: connect_timeout_def)
  note inv = reachable_inv [OF assms(1)]
  let ?s = "(the_sess a p)\<lparr>connectTimer := False\<rparr>"
  have ht: "heap (stop_timer p a) = (heap a)[p := ?s]" by (simp add: stop_timer_def put_sess_def)
  show ?thesis
  proof (cases "sess a = Some p")
    case True
    then have l: "live_sess ?s" using agent_invD(1) [OF inv True] by (simp add: live_sess_def)
    then have "agent_inv (stop_timer p a)" "sess (stop_timer p a) = Some p"
      using agent_inv_put [OF inv p] True by (simp_all add: stop_timer_def)
    from endSession_live(8) [OF this e] have h: "heap a' = (heap a)[p := ended ?s]" using p ht by simp
    show ?thesis
      using ended_calm [OF l] by (intro that [OF p h]) (simp_all add: h ConnectAlarm calmer_def p)
  next
    case False
    then have h: "heap a' = (heap a)[p := ?s]" using e ht by (simp add: endSession_def stop_timer_def)
    show ?thesis by (rule that [OF p h]) (simp_all add: h ConnectAlarm calmer_def p)
  qed
next
  case (BatchAlarm p)
  then have p: "p < length (heap a)" and t: "iceTimer (the_sess a p)" and e: "flush w p a = (a', es)"
    using assms(2,3) by (simp_all add: batch_timer_def)
  then have "live_sess (the_sess a p)"
    using agent_invD [OF reachable_inv [OF assms(1)], of p] by (auto simp: dead_sess_def)
  then have f: "\<not> iceStopped (the_sess a p)" "elems (iceBuf (the_sess a p)) \<noteq> []"
    using t by (simp_all add: live_sess_def)
  have h: "heap a' = (heap a)[p := fst (flushICE (the_sess a p))]"
    using e by (auto simp: flush_def put_sess_def split: prod.splits)
  show ?thesis
    using f by (intro that [OF p h]) (simp_all add: h BatchAlarm calmer_def p flushICE_def Let_def)
next
  case (GraceAlarm p)
  then have p: "p < length (heap a)" and t: "disconnectTimer (sproxy (the_sess a p)) = Some Running"
    and e: "run_proxy w p disconnect_fires a = (a', es)"
    using assms(2,3) by simp_all
  note inv = reachable_inv [OF assms(1)]
  have s: "sess a = Some p" using agent_invD(2) [OF inv p] t by (auto simp: dead_sess_def wp_inv_def)
  then have l: "live_sess (the_sess a p)" using agent_invD(1) [OF inv] by blast
  have "disconnect_fires (sproxy (the_sess a p)) = (sproxy (the_sess a p), [OnEnd ByeICEFailed])"
    using l t by (auto simp: disconnect_fires_def proxy_end_def live_sess_def wp_inv_def)
  then have "endSession w p ByeICEFailed True a = (a', es)" using e by (simp add: run_proxy_end)
  from endSession_live(8) [OF inv s this] have h: "heap a' = (heap a)[p := ended (the_sess a p)]" .
  show ?thesis using ended_calm [OF l] by (intro that [OF p h]) (simp_all add: h GraceAlarm p)
qed

lemma expiry_calms:
  assumes "reachable a" and "running k a"
  shows "set (alarms (fst (agent_step w (expiry k) a))) \<subset> set (alarms a)"
proof -
  obtain p s where "p < length (heap a)" "heap (fst (agent_step w (expiry k) a)) = (heap a)[p := s]"
    "calmer s (the_sess a p)" "\<not> running k (fst (agent_step w (expiry k) a))"
    by (rule expiry_calms_parts [OF assms surjective_pairing])
  then show ?thesis using calmer_running assms(2) by (auto simp: set_eq_iff)
qed

text \<open>The next timer can always fire on time.\<close>

lemma next_alarm:
  assumes "timed_reachable \<delta> T" and "0 \<le> \<delta>" and "alarms (agent T) \<noteq> []"
  obtains k T1 where "running k (agent T)" "timed_step \<delta> (max (clock T) (due T k), w, expiry k) T = Some T1"
proof -
  obtain k where k: "k \<in> set (alarms (agent T))" "\<forall>j \<in> set (alarms (agent T)). due T k \<le> due T j"
    using ex_min_if_finite [of "due T ` set (alarms (agent T))"] assms(3)
    by (metis (no_types, lifting) List.finite_set arg_min_if_finite(1) arg_min_least set_empty)
  have "max (clock T) (due T k) \<le> due T j + \<delta>" if "running j (agent T)" for j
    using timed_due(2) [OF assms(1,2) that] k(2) that assms(2) by (simp add: add_increasing2)
  then have "timely \<delta> (max (clock T) (due T k)) (expiry k) T"
    using k(1) by (simp add: timely_def list_all_iff)
  then show thesis using k(1) that [of k] by (simp add: timed_step_def)
qed

text \<open>
  From every point of a timed run, and for every late instant, the run can be continued to that
  instant: the condition on the timers stops no run.
\<close>

theorem time_diverges:
  assumes "timed_reachable \<delta> T" and "0 \<le> \<delta>"
  shows "\<exists>xs T1. timed_run \<delta> xs T = Some T1 \<and> t \<le> clock T1"
  using assms(1)
proof (induction "card (set (alarms (agent T)))" arbitrary: T rule: less_induct)
  case less
  show ?case
  proof (cases "alarms (agent T) = []")
    case True
    then have "timely \<delta> (max t (clock T)) MonitorTick T" by (simp add: timely_def)
    then have "\<exists>T1. timed_run \<delta> [(max t (clock T), undefined, MonitorTick)] T = Some T1 \<and> t \<le> clock T1"
      by (simp add: timed_step_def)
    then show ?thesis by blast
  next
    case False
    obtain k T1 where k: "running k (agent T)"
      and s: "timed_step \<delta> (max (clock T) (due T k), undefined, expiry k) T = Some T1"
      by (rule next_alarm [OF less.prems assms(2) False])
    have "agent T1 = fst (agent_step undefined (expiry k) (agent T))" using s by (auto elim!: timed_stepE)
    then have "card (set (alarms (agent T1))) < card (set (alarms (agent T)))"
      using expiry_calms [OF timed_reachable_agent [OF less.prems] k] by (simp add: psubset_card_mono)
    from less.hyps [OF this timed_next [OF less.prems s]]
    obtain xs T2 where "timed_run \<delta> (x # xs) T = Some T2 \<and> t \<le> clock T2"
      if "x = (max (clock T) (due T k), undefined, expiry k)" for x
      using s by auto
    then show ?thesis by blast
  qed
qed

end
