(* ===== verification/Interleave.thy ===== *)
theory Interleave imports AgentLife begin

text \<open>
  The handlers of \<open>agent.go\<close> as threads. A handler is a program of segments; a segment is what runs
  under one lock (or one call of the broker or of the WebRTC library), and between two segments the other
  threads may run. Run alone, each program is the handler of \<open>Agent\<close>; \<open>Schedules\<close>, \<open>Deadlines\<close>, \<open>IceBatches\<close> and \<open>Races\<close>
  treat the schedules.
\<close>

section \<open>Programs and schedules\<close>

datatype prog = Done | Act "Agent \<Rightarrow> Agent \<times> effect list \<times> prog"

definition finished :: "prog \<Rightarrow> bool" where
  "finished t \<longleftrightarrow> (case t of Done \<Rightarrow> True | Act _ \<Rightarrow> False)"

lemma finished_iff: "finished t \<longleftrightarrow> t = Done"
  by (simp add: finished_def split: prog.split)

text \<open>A program alone, and a pool of programs under a schedule (the indices of the threads that run).\<close>

primrec alone :: "prog \<Rightarrow> Agent \<Rightarrow> Agent \<times> effect list" where
  "alone Done = (\<lambda>a. (a, []))"
| "alone (Act f) = (\<lambda>a. case (map_prod id (map_prod id alone) \<circ> f) a of
     (a1, es, k) \<Rightarrow> (case k a1 of (a2, fs) \<Rightarrow> (a2, es @ fs)))"

fun exec :: "nat list \<Rightarrow> prog list \<Rightarrow> Agent \<Rightarrow> prog list \<times> Agent \<times> effect list" where
  "exec [] ts a = (ts, a, [])"
| "exec (i # is) ts a =
     (if i < length ts
      then (case ts ! i of
              Done \<Rightarrow> exec is ts a
            | Act f \<Rightarrow> (case f a of (a1, es, k) \<Rightarrow>
                (case exec is (ts[i := k]) a1 of (ts', a2, fs) \<Rightarrow> (ts', a2, es @ fs))))
      else exec is ts a)"

lemma alone_Act: "alone (Act f) a = (case f a of (a1, es, k) \<Rightarrow> (case alone k a1 of (a2, fs) \<Rightarrow> (a2, es @ fs)))"
  by (simp add: map_prod_def case_prod_beta)

declare alone.simps(2) [simp del]
declare alone_Act [simp]

section \<open>The handlers, segment by segment\<close>

text \<open>\<open>PublishState\<close>: the clock, reachability, announcement and session are read one after the other.\<close>

definition publish_prog :: "world \<Rightarrow> prog \<Rightarrow> prog" where
  "publish_prog w k =
     Act (\<lambda>a1. (a1, [], Act (\<lambda>a2. (a2, [], Act (\<lambda>a3. (a3, [],
       let st = (state_of a3 (now w) True)\<lparr>Online := online (source a1), Caps := Caps (state_of a2 (now w) True)\<rparr>
       in Act (\<lambda>a. (a, [Broker (PublishState (mqtt a) (\<lambda>_. st) True)], k))))))))"

definition mark_prog :: "world \<Rightarrow> prog \<Rightarrow> prog" where
  "mark_prog w k =
     Act (\<lambda>a. case MarkDown (source a) of
       (m, changed) \<Rightarrow> (a\<lparr>source := m\<rparr>, [], if changed \<and> watching a then publish_prog w k else k))"

text \<open>\<open>endSession\<close>: the claim of the session, then what is done once it is claimed.\<close>

definition end_tell :: "world \<Rightarrow> nat \<Rightarrow> string \<Rightarrow> bool \<Rightarrow> prog" where
  "end_tell w p reason sendBye =
     (let publish = publish_prog w Done
      in if sendBye then Act (\<lambda>a. (a, [send_bye w a p reason], publish)) else publish)"

definition end_close :: "world \<Rightarrow> nat \<Rightarrow> string \<Rightarrow> bool \<Rightarrow> prog" where
  "end_close w p reason sendBye =
     Act (\<lambda>a. case close_proxy p a of
       (a1, es) \<Rightarrow> (a1, es, if reason = ByeSourceLost then mark_prog w (end_tell w p reason sendBye)
                            else end_tell w p reason sendBye))"

definition end_rest :: "world \<Rightarrow> nat \<Rightarrow> string \<Rightarrow> bool \<Rightarrow> prog" where
  "end_rest w p reason sendBye =
     Act (\<lambda>a. (stop_timer p a, [], Act (\<lambda>a. (stop_ice p a, [], end_close w p reason sendBye))))"

definition endSession_prog :: "world \<Rightarrow> nat \<Rightarrow> string \<Rightarrow> bool \<Rightarrow> prog" where
  "endSession_prog w p reason sendBye =
     Act (\<lambda>a. if sess a \<noteq> Some p then (a, [], Done)
              else (a\<lparr>sess := None\<rparr>, [], end_rest w p reason sendBye))"

definition onConnected_prog :: "nat \<Rightarrow> prog" where
  "onConnected_prog p = Act (\<lambda>a. (onConnected p a, [], Done))"

text \<open>The proxy's \<open>end\<close>, and its connection states with the call-backs of the agent.\<close>

definition end_proxy_prog :: "world \<Rightarrow> nat \<Rightarrow> string \<Rightarrow> prog" where
  "end_proxy_prog w p reason =
     Act (\<lambda>a. (a, [],
       if closed (sproxy (the_sess a p)) then Done
       else if hasEnd (sproxy (the_sess a p)) then endSession_prog w p reason True
       else Act (\<lambda>a. case close_proxy p a of (a1, es) \<Rightarrow> (a1, es, Done))))"

definition put_proxy :: "nat \<Rightarrow> WebRTCProxy \<Rightarrow> Agent \<Rightarrow> Agent" where
  "put_proxy p wp a = put_sess p ((the_sess a p)\<lparr>sproxy := wp\<rparr>) a"

definition conn_prog :: "world \<Rightarrow> nat \<Rightarrow> PeerConnectionState \<Rightarrow> prog" where
  "conn_prog w p st =
     Act (\<lambda>a.
       if closed (sproxy (the_sess a p)) then (a, [], Done)
       else (put_proxy p (stop_disconnect st (sproxy (the_sess a p))) a, [],
         case st of
           StateFailed \<Rightarrow> end_proxy_prog w p ByeICEFailed
         | StateDisconnected \<Rightarrow>
             Act (\<lambda>a. let wp = sproxy (the_sess a p)
               in (if disconnectTimer wp = None \<and> \<not> closed wp
                   then put_proxy p (wp\<lparr>disconnectTimer := Some Running\<rparr>) a else a, [], Done))
         | StateConnected \<Rightarrow>
             Act (\<lambda>a. let wp = sproxy (the_sess a p)
               in if started wp then (a, [], Done)
                  else (put_proxy p (wp\<lparr>started := True\<rparr>) a, [Peer p StartRTSP],
                        if hasConnected wp then onConnected_prog p else Done))
         | _ \<Rightarrow> Done))"

definition grace_prog :: "world \<Rightarrow> nat \<Rightarrow> prog" where
  "grace_prog w p =
     Act (\<lambda>a. (a, [], if disconnectTimer (sproxy (the_sess a p)) = Some Running
                      then end_proxy_prog w p ByeICEFailed else Done))"

text \<open>The last segment of \<open>handleOffer\<close>, and the timer it arms: the timer fires only while armed.\<close>

definition arm_prog :: "nat \<Rightarrow> prog" where
  "arm_prog p = Act (\<lambda>a. (put_sess p ((the_sess a p)\<lparr>connectTimer := True\<rparr>) a, [], Done))"

definition deadline_prog :: "world \<Rightarrow> nat \<Rightarrow> prog" where
  "deadline_prog w p =
     Act (\<lambda>a. if connectTimer (the_sess a p) then (stop_timer p a, [], endSession_prog w p ByeTimeout True)
              else (a, [], Done))"

definition flush_prog :: "world \<Rightarrow> nat \<Rightarrow> prog \<Rightarrow> prog" where
  "flush_prog w p k =
     Act (\<lambda>a. case flushICE (the_sess a p) of
       (s, None) \<Rightarrow> (put_sess p s a, [], k)
     | (s, Some b) \<Rightarrow> (put_sess p s a, [], Act (\<lambda>a. (a, send_batch w a s (Some b), k))))"

definition queue_prog :: "world \<Rightarrow> nat \<Rightarrow> ICECandidate option \<Rightarrow> prog" where
  "queue_prog w p c =
     Act (\<lambda>a. case queueICE c (the_sess a p) of
       (s, fl) \<Rightarrow> (put_sess p s a, [], if fl then flush_prog w p Done else Done))"

definition batch_prog :: "world \<Rightarrow> nat \<Rightarrow> prog" where
  "batch_prog w p = Act (\<lambda>a. (a, [], if iceTimer (the_sess a p) then flush_prog w p Done else Done))"

text \<open>\<open>ProbeNow\<close>: the probe itself runs outside the lock; \<open>k\<close> is what follows with the result.\<close>

definition probe_prog :: "world \<Rightarrow> (bool \<Rightarrow> prog) \<Rightarrow> prog" where
  "probe_prog w k =
     Act (\<lambda>a. case ProbeNow (probe w) (source a) of
       (m, changed, on) \<Rightarrow>
         (a\<lparr>source := m\<rparr>, [], if changed \<and> watching a then publish_prog w (k on) else k on))"

definition monitor_prog :: "world \<Rightarrow> prog" where
  "monitor_prog w =
     Act (\<lambda>a. (a, [], if stopped (source a) then Done
       else Act (\<lambda>a. (a, [], if sess a \<noteq> None then Done else probe_prog w (\<lambda>_. Done)))))"

text \<open>
  The offer from the choice of the codecs on. The work of the WebRTC library is one segment; then the session is
  registered, and answered, published and started with the other threads in between.
\<close>

definition start_prog :: "world \<Rightarrow> nat \<Rightarrow> prog \<Rightarrow> prog" where
  "start_prog w p k =
     Act (\<lambda>a. case startICE (the_sess a p) of
       (s, fl) \<Rightarrow> (put_sess p s a, [], if fl then flush_prog w p k else k))"

definition accept_prog :: "world \<Rightarrow> string \<Rightarrow> string \<Rightarrow> WebRTCProxy \<Rightarrow> string \<Rightarrow> prog" where
  "accept_prog w from sid' wp sdp =
     Act (\<lambda>a.
       (let p = length (heap a);
            s0 = fold (\<lambda>c s. fst (queueICE c s)) (early w) (NewSession sid' from wp);
            msg = envelope w TypeAnswer sid' (enc_AnswerData \<lparr>answer_SDP = sdp\<rparr>)
        in (a\<lparr>heap := heap a @ [s0\<lparr>answer := Some msg\<rparr>], sess := Some p\<rparr>, [],
            Act (\<lambda>a. (a, [replay_answer a from msg], publish_prog w (start_prog w p (arm_prog p)))))))"

definition answer_prog :: "world \<Rightarrow> string \<Rightarrow> string \<Rightarrow> OfferData \<Rightarrow> prog" where
  "answer_prog w from sid' data =
     Act (\<lambda>a.
       (let (video, audio) = codecs a
        in if video = '''' then
             (a, [sendError w a from sid' ErrUnsupportedCodec
                    ''the camera announces no video codec WebRTC can carry'' False], Done)
           else case HandleOffer (lib w) (offer_SDP data) (want_audio data) (new_proxy a video audio) of
                  (wp, es, Inl se) \<Rightarrow>
                    (a, map (Peer (length (heap a))) es @
                        [sendError w a from sid' (se_Code se) (se_Msg se) (se_Code se = ErrInternal)], Done)
                | (wp, es, Inr sdp) \<Rightarrow>
                    (a, map (Peer (length (heap a))) es, accept_prog w from sid' wp sdp)))"

text \<open>The messages. A reply is one call of the broker.\<close>

definition reply_prog :: "(Agent \<Rightarrow> effect) \<Rightarrow> prog" where
  "reply_prog f = Act (\<lambda>a. (a, [f a], Done))"

definition available_prog :: "world \<Rightarrow> (bool \<Rightarrow> prog) \<Rightarrow> prog" where
  "available_prog w k = Act (\<lambda>a. (a, [], if online (source a) then k True else probe_prog w k))"

definition new_offer_prog :: "world \<Rightarrow> string \<Rightarrow> Envelope \<Rightarrow> prog" where
  "new_offer_prog w from env =
     (case unmarshal dec_OfferData zero_OfferData (Data env) of
        None \<Rightarrow> reply_prog (\<lambda>a. sendError w a from (SID env) ErrBadRequest ''invalid offer'' False)
      | Some data \<Rightarrow>
          (if offer_SDP data = ''''
           then reply_prog (\<lambda>a. sendError w a from (SID env) ErrBadRequest ''invalid offer'' False)
           else case bad_stream data of
             Some stream \<Rightarrow>
               reply_prog (\<lambda>a. sendError w a from (SID env) ErrBadRequest
                 (''requested stream does not exist: '' @ stream) False)
           | None \<Rightarrow>
               available_prog w (\<lambda>on.
                 if on then answer_prog w from (SID env) data
                 else reply_prog (\<lambda>a. sendError w a from (SID env) ErrSourceUnavailable ''camera unreachable'' True))))"

definition offer_prog :: "world \<Rightarrow> string \<Rightarrow> Envelope \<Rightarrow> prog" where
  "offer_prog w from env =
     (if \<not> sidPattern (SID env) then reply_prog (\<lambda>a. sendError w a from '''' ErrBadRequest ''invalid sid'' False)
      else Act (\<lambda>a. (a, [], case sess a of
        Some p \<Rightarrow>
          (if sid (the_sess a p) = SID env \<and> viewer (the_sess a p) = from
           then (case answer (the_sess a p) of Some msg \<Rightarrow> reply_prog (\<lambda>a. replay_answer a from msg) | None \<Rightarrow> Done)
           else reply_prog (\<lambda>a. sendError w a from (SID env) ErrBusy ''a session is already active'' True))
      | None \<Rightarrow> new_offer_prog w from env)))"

primrec candidates_prog :: "world \<Rightarrow> nat \<Rightarrow> ICECandidate list \<Rightarrow> prog" where
  "candidates_prog w p [] = Done"
| "candidates_prog w p (c # cs) =
     Act (\<lambda>a. (a, map (Peer p) (add_candidate w (the_sess a p) c), candidates_prog w p cs))"

definition ice_prog :: "world \<Rightarrow> string \<Rightarrow> Envelope \<Rightarrow> prog" where
  "ice_prog w from env =
     Act (\<lambda>a. (a, [], case owned a from env of
       None \<Rightarrow> Done
     | Some p \<Rightarrow>
         (case unmarshal dec_ICEData zero_ICEData (Data env) of
            None \<Rightarrow> Done
          | Some data \<Rightarrow> candidates_prog w p (elems (Candidates data)))))"

definition bye_prog :: "world \<Rightarrow> string \<Rightarrow> Envelope \<Rightarrow> prog" where
  "bye_prog w from env =
     Act (\<lambda>a. (a, [], case owned a from env of None \<Rightarrow> Done | Some p \<Rightarrow> endSession_prog w p ByeUser False))"

definition cmd_prog :: "world \<Rightarrow> string \<Rightarrow> Envelope \<Rightarrow> prog" where
  "cmd_prog w from env = Act (\<lambda>a. case handleCmd w from env a of (a', es) \<Rightarrow> (a', es, Done))"

definition envelope_prog :: "world \<Rightarrow> string \<Rightarrow> Envelope \<Rightarrow> bool \<Rightarrow> prog" where
  "envelope_prog w from env stale =
     (if stale then
        (if Type env = TypeOffer
         then reply_prog (\<lambda>a. sendError w a from (SID env) ErrStale ''clock out of sync (ts outside tolerance)'' True)
         else Done)
      else if Type env = TypeOffer then offer_prog w from env
      else if Type env = TypeICE then ice_prog w from env
      else if Type env = TypeBye then bye_prog w from env
      else if Type env = TypeCmd then cmd_prog w from env
      else Done)"

definition message_prog :: "world \<Rightarrow> string \<Rightarrow> json option \<Rightarrow> prog" where
  "message_prog w topic msg =
     Act (\<lambda>a. (a, [], case handleMessage (mqtt a) (now w) topic msg of
       None \<Rightarrow> Done | Some (from, env, stale) \<Rightarrow> envelope_prog w from env stale))"

text \<open>Effects one after the other, each a segment of its own.\<close>

fun say_prog :: "effect list \<Rightarrow> prog" where
  "say_prog [] = Done"
| "say_prog (e # es) = Act (\<lambda>a. (a, [e], say_prog es))"

text \<open>\<open>onConnect\<close>, with the self-test it starts (nothing of \<open>onConnect\<close> follows it), and the program of each event; a call-back exists only once its session does.\<close>

definition connect_prog :: "world \<Rightarrow> prog" where
  "connect_prog w =
     Act (\<lambda>a. (a, [Broker (Subscribe (topicIn (mqtt a) @ ''#'') 1)],
       publish_prog w (Act (\<lambda>a. (a\<lparr>mqtt := (mqtt a)\<lparr>aclCheck := True\<rparr>\<rparr>, [],
         if aclCheck (mqtt a) then Done else say_prog (map Broker (selfTestACL (acl w))))))))"

definition guard_prog :: "nat \<Rightarrow> prog \<Rightarrow> prog" where
  "guard_prog p t = Act (\<lambda>a. (a, [], if p < length (heap a) then t else Done))"

fun event_prog :: "world \<Rightarrow> event \<Rightarrow> prog" where
  "event_prog w (Message topic msg) = message_prog w topic msg"
| "event_prog w (LocalICE p c) = guard_prog p (queue_prog w p c)"
| "event_prog w (BatchTimer p) = guard_prog p (batch_prog w p)"
| "event_prog w (PeerState p st) = guard_prog p (conn_prog w p st)"
| "event_prog w (GraceTimer p) = guard_prog p (grace_prog w p)"
| "event_prog w (ConnectTimeout p) = guard_prog p (deadline_prog w p)"
| "event_prog w (StreamEnd p) = guard_prog p (end_proxy_prog w p ByeSourceLost)"
| "event_prog w MonitorTick = monitor_prog w"
| "event_prog w Connected = connect_prog w"

text \<open>
  \<open>Shutdown\<close>: the session is read, and only then the field is cleared. \<open>Close\<close> waits up to two seconds
  between the offline state and the disconnection.
\<close>

definition close_prog :: "world \<Rightarrow> prog" where
  "close_prog w =
     Act (\<lambda>a. (a, map Broker (butlast (mqtt_Close (mqtt a) (state_of a (now w)) (mqttOpen w))),
     Act (\<lambda>a. (a, map Broker [last (mqtt_Close (mqtt a) (state_of a (now w)) (mqttOpen w))], Done))))"

definition Shutdown_prog :: "world \<Rightarrow> prog" where
  "Shutdown_prog w =
     Act (\<lambda>a. (a\<lparr>source := Source.Stop (source a)\<rparr>, [],
     Act (\<lambda>a. (a, [], case sess a of
       None \<Rightarrow> close_prog w
     | Some p \<Rightarrow>
         Act (\<lambda>a. (a\<lparr>sess := None\<rparr>, [],
         Act (\<lambda>a. (stop_ice p a, [],
         Act (\<lambda>a. case close_proxy p a of (a1, es) \<Rightarrow> (a1, es,
         Act (\<lambda>a. (a, [send_bye w a p ByeShutdown], close_prog w))))))))))))"

section \<open>Alone, the programs are the handlers\<close>

lemma publish_alone:
  "alone (publish_prog w k) a = (case alone k a of (a', es) \<Rightarrow> (a', publish_state w a # es))"
proof -
  have "(state_of a (now w) True)\<lparr>Online := online (source a), Caps := Caps (state_of a (now w) True)\<rparr> = state_of a (now w) True"
    by (simp add: state_of_def Let_def split: option.split)
  then show ?thesis by (simp add: publish_prog_def publish_state_def PublishState_def Let_def split: prod.split)
qed

lemma mark_alone:
  "alone (mark_prog w k) a =
     (case mark_down w a of (a1, es) \<Rightarrow> (case alone k a1 of (a2, fs) \<Rightarrow> (a2, es @ fs)))"
  by (auto simp: mark_prog_def mark_down_def publish_alone Let_def split: prod.split)

lemma endSession_alone: "alone (endSession_prog w p r b) a = endSession w p r b a"
  by (cases "sess a = Some p")
    (auto simp: endSession_prog_def end_rest_def end_close_def end_tell_def endSession_def mark_alone publish_alone Let_def split: prod.split)

lemma flush_alone:
  "alone (flush_prog w p k) a = (case flush w p a of (a1, es) \<Rightarrow> (case alone k a1 of (a2, fs) \<Rightarrow> (a2, es @ fs)))"
  by (auto simp: flush_prog_def flush_def send_batch_put split: prod.split option.split)

lemma start_alone:
  "alone (start_prog w p k) a = (case start_ice w p a of (a1, es) \<Rightarrow> (case alone k a1 of (a2, fs) \<Rightarrow> (a2, es @ fs)))"
  by (auto simp: start_prog_def start_ice_def flush_alone split: prod.split)

lemma accept_alone:
  "alone (accept_prog w v sid' wp sdp) a =
     (case accept_offer w v sid' wp es sdp a of (a', fs) \<Rightarrow> (a', drop (length es) fs))"
  by (auto simp: accept_prog_def accept_offer_def publish_alone start_alone arm_prog_def Let_def split: prod.split)

lemma answer_alone: "alone (answer_prog w v sid' d) a = answer_offer w v sid' d a"
proof -
  obtain video audio where c: "codecs a = (video, audio)" by fastforce
  obtain wp es r where h: "HandleOffer (lib w) (offer_SDP d) (want_audio d) (new_proxy a video audio) = (wp, es, r)"
    by (metis prod_cases3)
  show ?thesis
  proof (cases r)
    case (Inr sdp)
    obtain a' fs where f: "accept_offer w v sid' wp es sdp a = (a', fs)" by fastforce
    then have "fs = map (Peer (length (heap a))) es @ drop (length es) fs"
      by (auto simp: accept_offer_def Let_def split: prod.splits)
    then show ?thesis
      using c h Inr f by (simp add: answer_prog_def answer_offer_def accept_alone [where es = es] Let_def)
  qed (simp add: answer_prog_def answer_offer_def c h)
qed

lemma queue_alone: "alone (queue_prog w p c) a = local_ice w p c a"
  by (auto simp: queue_prog_def local_ice_def flush_alone split: prod.split)

lemma close_alone: "alone (close_prog w) a = (a, farewell w a)"
  by (simp add: close_prog_def mqtt_Close_def)

lemma Shutdown_alone: "alone (Shutdown_prog w) a = Shutdown w a"
  by (auto simp: Shutdown_prog_def Shutdown_def close_alone Let_def split: prod.split option.split)

lemma end_proxy_alone: "alone (end_proxy_prog w p r) a = run_proxy w p (proxy_end r) a"
proof -
  have same: "put_sess p ((the_sess a p)\<lparr>sproxy := sproxy (the_sess a p)\<rparr>) a = a" by (simp add: put_sess_def)
  have quiet: "callbacks w p (snd (proxy_Close wp)) b = (b, map (Peer p) (snd (proxy_Close wp)))" for wp b
    by (auto simp: proxy_Close_def split: option.split)
  show ?thesis
    by (auto simp: end_proxy_prog_def run_proxy_def proxy_end_def same endSession_alone close_proxy_def quiet
        case_prod_beta Let_def)
qed

lemma put_proxy_get [simp]:
  "p < length (heap a) \<Longrightarrow> sproxy (the_sess (put_proxy p wp a) p) = wp" "sess (put_proxy p wp a) = sess a"
  "length (heap (put_proxy p wp a)) = length (heap a)" "p < length (heap a) \<Longrightarrow> put_proxy p wp (put_proxy p wp' a) = put_proxy p wp a"
  by (simp_all add: put_proxy_def)

lemma conn_alone:
  assumes "p < length (heap a)"
  shows "alone (conn_prog w p st) a = run_proxy w p (handleConnectionState st) a"
proof -
  let ?wp = "sproxy (the_sess a p)"
  have run: "run_proxy w p f b = (case f (sproxy (the_sess b p)) of (wp, es) \<Rightarrow> callbacks w p es (put_proxy p wp b))" for f b
    by (simp add: run_proxy_def put_proxy_def)
  have same: "put_proxy p ?wp a = a" by (simp add: put_proxy_def put_sess_def)
  show ?thesis
    using assms by (cases st; cases "closed ?wp")
      (auto simp: conn_prog_def run handleConnectionState_def end_proxy_alone onConnected_prog_def same
        Let_def case_prod_beta)
qed

lemma grace_alone: "alone (grace_prog w p) a = run_proxy w p disconnect_fires a"
proof -
  have same: "put_sess p ((the_sess a p)\<lparr>sproxy := sproxy (the_sess a p)\<rparr>) a = a" by (simp add: put_sess_def)
  show ?thesis
    by (auto simp: grace_prog_def end_proxy_alone run_proxy_def disconnect_fires_def same)
qed

lemma deadline_alone: "alone (deadline_prog w p) a = connect_timeout w p a"
  by (simp add: deadline_prog_def connect_timeout_def endSession_alone case_prod_beta)

lemma batch_alone: "alone (batch_prog w p) a = batch_timer w p a"
  by (simp add: batch_prog_def batch_timer_def flush_alone case_prod_beta)

lemma probe_alone:
  "alone (probe_prog w k) a =
     (case probe_now w a of (a1, es, on) \<Rightarrow> (case alone (k on) a1 of (a2, fs) \<Rightarrow> (a2, es @ fs)))"
  by (auto simp: probe_prog_def probe_now_def publish_alone Let_def split: prod.split)

lemma monitor_alone: "alone (monitor_prog w) a = monitor_tick w a"
  by (auto simp: monitor_prog_def monitor_tick_def probe_alone split: prod.split)

lemma reply_alone [simp]: "alone (reply_prog f) a = (a, [f a])"
  by (simp add: reply_prog_def)

lemma new_offer_alone:
  assumes "sidPattern (SID env)" and "sess a = None"
  shows "alone (new_offer_prog w v env) a = handleOffer w v env a"
  using assms
  by (auto simp: new_offer_prog_def handleOffer_def available_prog_def available_def probe_alone answer_alone Let_def
      split: option.split prod.split)

lemma offer_alone: "alone (offer_prog w v env) a = handleOffer w v env a"
  by (cases "sidPattern (SID env)"; cases "sess a")
    (auto simp: offer_prog_def new_offer_alone case_prod_beta, auto simp: handleOffer_def split: option.split)

lemma candidates_alone:
  "alone (candidates_prog w p cs) a = (a, map (Peer p) (concat (map (add_candidate w (the_sess a p)) cs)))"
  by (induction cs) simp_all

lemma message_alone: "alone (message_prog w topic msg) a = on_message w topic msg a"
  by (auto simp: message_prog_def on_message_def envelope_prog_def handleEnvelope_def offer_alone ice_prog_def
      handleICE_def candidates_alone bye_prog_def handleBye_def endSession_alone cmd_prog_def
      split: option.split prod.split)

lemma say_alone: "alone (say_prog es) a = (a, es)"
  by (induction es) simp_all

lemma connect_alone: "alone (connect_prog w) a = on_connect w a"
  by (simp add: connect_prog_def publish_alone publish_state_def on_connect_def onConnect_def say_alone)

lemma event_alone: "alone (event_prog w e) a = agent_step w e a"
  by (cases e) (auto simp: guard_prog_def message_alone queue_alone batch_alone conn_alone grace_alone deadline_alone
      end_proxy_alone monitor_alone connect_alone)

text \<open>
  The programs of segments are the handlers: run without interruption, the program of every event of the
  agent, and that of the shutdown, does to the agent and to the outside exactly what the sequential
  handler does, in the same order.
\<close>

theorem programs_sequential:
  "alone (event_prog w e) a = agent_step w e a \<and> alone (Shutdown_prog w) a = Shutdown w a"
  by (simp add: event_alone Shutdown_alone)

section \<open>Pools that keep an invariant\<close>

text \<open>
  The contract of a pool: an invariant of the programs, the agent and the effects so far that the
  segment of any thread keeps. It then holds after every schedule.
\<close>

locale pool_invariant =
  fixes inv :: "prog list \<Rightarrow> Agent \<Rightarrow> effect list \<Rightarrow> bool"
  assumes segment: "inv ts a so_far \<Longrightarrow> i < length ts \<Longrightarrow> ts ! i = Act f \<Longrightarrow> f a = (a', es, k) \<Longrightarrow>
      inv (ts[i := k]) a' (so_far @ es)"
begin

lemma schedule: "inv ts a so_far \<Longrightarrow> exec sched ts a = (ts', a', es) \<Longrightarrow> inv ts' a' (so_far @ es)"
proof (induction sched ts a arbitrary: so_far ts' a' es rule: exec.induct)
  case (2 i sched ts a)
  show ?case
  proof (cases "i < length ts")
    case False
    then have "exec sched ts a = (ts', a', es)" using "2.prems"(2) by simp
    from "2.IH"(3) [OF False "2.prems"(1) this] show ?thesis .
  next
    case i: True
    show ?thesis
    proof (cases "ts ! i")
      case Done
      then have "exec sched ts a = (ts', a', es)" using "2.prems"(2) i by simp
      from "2.IH"(1) [OF i Done "2.prems"(1) this] show ?thesis .
    next
      case (Act f)
      obtain a1 fs k where f: "f a = (a1, fs, k)" by (metis prod_cases3)
      obtain ts2 a2 gs where r: "exec sched (ts[i := k]) a1 = (ts2, a2, gs)" by (metis prod_cases3)
      have eq: "ts' = ts2" "a' = a2" "es = fs @ gs" using "2.prems"(2) i Act f r by simp_all
      have "inv (ts[i := k]) a1 (so_far @ fs)" by (rule segment [OF "2.prems"(1) i Act f])
      from "2.IH"(2) [OF i Act f [symmetric] refl this r] show ?thesis by (simp add: eq)
    qed
  qed
qed simp

end

text \<open>Any pool keeps its size.\<close>

interpretation size_kept: pool_invariant "\<lambda>ts _ _. length ts = n" for n
  by unfold_locales simp

lemma exec_length: "exec sched ts a = (ts', a', es) \<Longrightarrow> length ts' = length ts"
  using size_kept.schedule [of ts "length ts"] by blast
end
