(* ===== verification/Schedules.thy ===== *)
theory Schedules imports Interleave begin

text \<open>
  What the programs of \<open>Interleave\<close> promise under every schedule: the end of a session is atomic,
  whatever other handlers of the agent run at the same time.
\<close>

section \<open>What every segment keeps of a session\<close>

abbreviation byes :: "effect list \<Rightarrow> nat" where
  "byes es \<equiv> length (filter (has_type TypeBye) es)"

abbreviation closes :: "nat \<Rightarrow> effect list \<Rightarrow> nat" where
  "closes p es \<equiv> length (filter (\<lambda>e. e = Peer p ClosePC) es)"

abbreviation the_proxy :: "Agent \<Rightarrow> nat \<Rightarrow> WebRTCProxy" where
  "the_proxy a p \<equiv> sproxy (the_sess a p)"

definition pc_open :: "nat \<Rightarrow> Agent \<Rightarrow> nat" where
  "pc_open p a = (if pc (the_proxy a p) \<and> \<not> closeOnce (the_proxy a p) then 1 else 0)"

text \<open>Session \<open>p\<close> exists, the active one too, recorded answers are answers, and the proxy has its call-back.\<close>

definition sane :: "nat \<Rightarrow> Agent \<Rightarrow> bool" where
  "sane p a \<longleftrightarrow> p < length (heap a) \<and> (\<forall>q. sess a = Some q \<longrightarrow> q < length (heap a)) \<and>
     (\<forall>q < length (heap a). \<forall>msg. answer (the_sess a q) = Some msg \<longrightarrow> member msg ''type'' = Some (JStr TypeAnswer)) \<and>
     hasEnd (the_proxy a p)"

text \<open>
  A segment neither claims session \<open>p\<close> nor gives it back, closes its PeerConnection only through its
  proxy, and while it is active does not close its proxy.
\<close>

definition keeps :: "nat \<Rightarrow> Agent \<Rightarrow> Agent \<Rightarrow> effect list \<Rightarrow> bool" where
  "keeps p a a' es \<longleftrightarrow> sane p a' \<and> (sess a' = Some p \<longleftrightarrow> sess a = Some p) \<and>
     closes p es + pc_open p a' = pc_open p a \<and>
     (closeOnce (the_proxy a p) \<longrightarrow> closeOnce (the_proxy a' p)) \<and>
     (sess a = Some p \<longrightarrow> closed (the_proxy a' p) = closed (the_proxy a p))"

lemma keeps_same: "sane p a \<Longrightarrow> filter (\<lambda>e. e = Peer p ClosePC) es = [] \<Longrightarrow> keeps p a a es"
  by (simp add: keeps_def)

lemma keeps_field:
  assumes "sane p a" "heap a' = heap a" "sess a' = Some p \<longleftrightarrow> sess a = Some p" "\<And>q. sess a' = Some q \<Longrightarrow> sess a = Some q"
    and "filter (\<lambda>e. e = Peer p ClosePC) es = []"
  shows "keeps p a a' es"
  using assms by (auto simp: keeps_def sane_def pc_open_def)

lemma keeps_put:
  assumes "sane p a" "answer s = answer (the_sess a q)" "filter (\<lambda>e. e = Peer p ClosePC) es = []"
    and "q = p \<Longrightarrow> pc (sproxy s) = pc (the_proxy a p) \<and> closeOnce (sproxy s) = closeOnce (the_proxy a p) \<and>
      closed (sproxy s) = closed (the_proxy a p) \<and> hasEnd (sproxy s) = hasEnd (the_proxy a p)"
  shows "keeps p a (put_sess q s a) es"
  using assms by (auto simp: keeps_def sane_def pc_open_def put_nth simp del: put_sess_simps(7,8))

lemma keeps_put_same:
  "sane p a \<Longrightarrow> answer s = answer (the_sess a q) \<Longrightarrow> sproxy s = the_proxy a q \<Longrightarrow>
     filter (\<lambda>e. e = Peer p ClosePC) es = [] \<Longrightarrow> keeps p a (put_sess q s a) es"
  by (rule keeps_put) auto

lemma keeps_timers:
  "sane p a \<Longrightarrow> keeps p a (stop_timer q a) []" "sane p a \<Longrightarrow> keeps p a (stop_ice q a) []"
  by (simp_all add: stop_timer_def stop_ice_def stopICE_def keeps_put_same)

lemma keeps_close:
  assumes "sane p a" "close_proxy q a = (a', es)" "q = p \<longrightarrow> sess a \<noteq> Some p"
  shows "keeps p a a' es"
proof -
  let ?wp = "the_proxy a q"
  have e: "a' = put_sess q ((the_sess a q)\<lparr>sproxy := fst (proxy_Close ?wp)\<rparr>) a" "es = map (Peer q) (snd (proxy_Close ?wp))"
    using assms(2) by (simp_all add: close_proxy_def case_prod_beta Let_def)
  consider (other) "q \<noteq> p" | (again) "closeOnce ?wp" | (first) "q = p" "\<not> closeOnce ?wp" by blast
  then show ?thesis
  proof cases
    case other
    then show ?thesis using assms(1) unfolding e by (intro keeps_put) (simp_all add: comp_def)
  next
    case again
    then have "proxy_Close ?wp = (?wp, [])" by (simp add: proxy_Close_def)
    then show ?thesis using assms(1) unfolding e by (intro keeps_put_same) simp_all
  next
    case first
    have f: "closeOnce (fst (proxy_Close ?wp))" "hasEnd (fst (proxy_Close ?wp)) = hasEnd ?wp"
      "closes q es = (if pc ?wp then 1 else 0)"
      using first(2) by (auto simp: e(2) proxy_Close_def split: option.split)
    have p: "p < length (heap a)" and s: "sess a \<noteq> Some p" using assms(1,3) first(1) by (simp_all add: sane_def)
    have "sane p a'" using assms(1) f(2) first(1) p
      by (auto simp: e(1) sane_def put_nth simp del: put_sess_simps(7,8))
    moreover have "the_proxy a' p = fst (proxy_Close ?wp)" "sess a' = sess a" using p first(1) by (simp_all add: e(1))
    ultimately show ?thesis using f first s by (simp add: keeps_def pc_open_def)
  qed
qed

lemma close_quiet: "close_proxy q a = (a', es) \<Longrightarrow> filter (has_type TypeBye) es = []"
  by (auto simp: close_proxy_def case_prod_beta Let_def)

section \<open>Threads\<close>

text \<open>An end of session \<open>p\<close> not yet run; \<open>B\<close>: ends that do not tell the viewer are among the threads.\<close>

definition fresh_end :: "bool \<Rightarrow> nat \<Rightarrow> prog \<Rightarrow> bool" where
  "fresh_end B p t \<longleftrightarrow> (\<exists>w r b. t = endSession_prog w p r b \<and> (B \<or> b))"

text \<open>
  A program with the number \<open>n\<close> of byes it may send without claiming the session; \<open>g\<close>: it runs only
  once session \<open>p\<close> is no longer the active one.
\<close>

inductive thread :: "bool \<Rightarrow> nat \<Rightarrow> nat \<Rightarrow> bool \<Rightarrow> prog \<Rightarrow> bool" for B p where
  thread_Done: "thread B p n g Done"
| thread_End: "fresh_end B p t \<Longrightarrow> thread B p n g t"
| thread_Act: "(\<And>a a' es k. sane p a \<Longrightarrow> (g \<longrightarrow> sess a \<noteq> Some p) \<Longrightarrow> f a = (a', es, k) \<Longrightarrow>
      keeps p a a' es \<and> byes es \<le> n \<and> (\<exists>g'. (g' \<longrightarrow> sess a' \<noteq> Some p) \<and> thread B p (n - byes es) g' k)) \<Longrightarrow>
    thread B p n g (Act f)"

inductive_cases thread_ActE: "thread B p n g (Act f)"

text \<open>A segment that sends no bye, and whose rest runs under the same condition.\<close>

lemma thread_calm:
  assumes "\<And>a a' es k. sane p a \<Longrightarrow> (g \<longrightarrow> sess a \<noteq> Some p) \<Longrightarrow> f a = (a', es, k) \<Longrightarrow>
      keeps p a a' es \<and> filter (has_type TypeBye) es = [] \<and> thread B p n g k"
  shows "thread B p n g (Act f)"
proof (rule thread_Act)
  fix a a' es k
  assume h: "sane p a" "g \<longrightarrow> sess a \<noteq> Some p" "f a = (a', es, k)"
  have "keeps p a a' es" "filter (has_type TypeBye) es = []" "thread B p n g k" using assms [OF h] by auto
  moreover from this have "g \<longrightarrow> sess a' \<noteq> Some p" using h(2) by (simp add: keeps_def)
  ultimately show "keeps p a a' es \<and> byes es \<le> n \<and> (\<exists>g'. (g' \<longrightarrow> sess a' \<noteq> Some p) \<and> thread B p (n - byes es) g' k)"
    by auto
qed

lemma thread_reply:
  assumes "\<And>a. \<not> has_type TypeBye (f a)" and "\<And>a. f a \<noteq> Peer p ClosePC"
  shows "thread B p n g (reply_prog f)"
  unfolding reply_prog_def using assms by (intro thread_calm) (auto intro!: keeps_same simp: thread_Done)

lemma quiet_effects [simp]:
  "send w a v t s d \<noteq> Peer p x" "sendError w a v s c x' r \<noteq> Peer p x" "replay_answer a v j \<noteq> Peer p x"
  "publish_state w a \<noteq> Peer p x" "\<not> has_type TypeBye (effect.Broker (PublishState m f b))"
  by (simp_all add: send_def sendError_def replay_answer_def publish_state_def has_type_def PublishState_def publish_def)

lemma replay_quiet: "member msg ''type'' = Some (JStr TypeAnswer) \<Longrightarrow> \<not> has_type TypeBye (replay_answer a v msg)"
  by (simp add: replay_answer_def publish_def has_type_def)

lemma thread_publish:
  assumes "thread B p n g k"
  shows "thread B p n g (publish_prog w k)"
  unfolding publish_prog_def Let_def using assms
  by (intro thread_calm) (auto intro!: keeps_same thread_calm)

lemma thread_mark: "thread B p n g k \<Longrightarrow> thread B p n g (mark_prog w k)"
  unfolding mark_prog_def
  by (intro thread_calm) (auto intro!: keeps_field thread_publish split: prod.splits if_splits)

lemma thread_probe: "(\<And>on. thread B p n g (k on)) \<Longrightarrow> thread B p n g (probe_prog w k)"
  unfolding probe_prog_def
  by (intro thread_calm) (auto intro!: keeps_field thread_publish split: prod.splits if_splits)

lemma batch_quiet:
  "filter (has_type TypeBye) (send_batch w a s d) = []" "filter (\<lambda>e. e = Peer p ClosePC) (send_batch w a s d) = []"
  by (simp_all add: send_batch_def split: option.split)

lemma thread_flush:
  assumes "thread B p n g k"
  shows "thread B p n g (flush_prog w q k)"
proof -
  have s: "thread B p n g (Act (\<lambda>a. (a, send_batch w a s d, k)))" for s d
    using assms by (intro thread_calm) (auto simp: batch_quiet intro!: keeps_same)
  have f: "answer s' = answer s" "sproxy s' = sproxy s" if "flushICE s = (s', d)" for s s' d
    using that by (auto simp: flushICE_def Let_def split: if_splits)
  show ?thesis
    unfolding flush_prog_def using assms s
    by (intro thread_calm) (auto simp: f intro!: keeps_put_same split: prod.splits option.splits)
qed

lemma thread_start:
  assumes "thread B p n g k"
  shows "thread B p n g (start_prog w q k)"
  unfolding start_prog_def startICE_def Let_def using assms
  by (intro thread_calm) (auto intro!: keeps_put_same thread_flush split: if_splits)

lemma thread_queue: "thread B p n g (queue_prog w q c)"
  unfolding queue_prog_def
  by (intro thread_calm)
    (auto simp: queueICE_frame(5,6) thread_Done intro!: keeps_put_same thread_flush split: prod.splits if_splits)

lemma thread_arm: "thread B p n g (arm_prog q)"
  unfolding arm_prog_def by (intro thread_calm) (auto simp: thread_Done intro!: keeps_put_same)

lemma thread_batch: "thread B p n g (batch_prog w q)"
  unfolding batch_prog_def
  by (intro thread_calm) (auto simp: thread_Done intro!: keeps_same thread_flush split: if_splits)

lemma thread_monitor: "thread B p n g (monitor_prog w)"
  unfolding monitor_prog_def
  by (intro thread_calm) (auto simp: thread_Done intro!: keeps_same thread_calm thread_probe split: if_splits)

lemma thread_say:
  "filter (has_type TypeBye) es = [] \<Longrightarrow> filter (\<lambda>e. e = Peer p ClosePC) es = [] \<Longrightarrow> thread B p n g (say_prog es)"
  by (induction es) (auto simp: thread_Done intro!: thread_calm keeps_same split: if_splits)

lemma acl_quiet:
  "filter (has_type TypeBye) (map Broker (selfTestACL r)) = []"
  "filter (\<lambda>e. e = Peer p ClosePC) (map Broker (selfTestACL r)) = []"
  by (simp_all add: selfTestACL_def has_type_def split: sub_result.split)

lemma thread_connect: "thread B p n g (connect_prog w)"
  unfolding connect_prog_def
  by (intro thread_calm) (auto simp: thread_Done has_type_def acl_quiet
      intro!: keeps_same keeps_field thread_calm thread_publish thread_say)

subsection \<open>Ends\<close>

lemma thread_tell: "(b \<Longrightarrow> 1 \<le> n) \<Longrightarrow> thread B p n g (end_tell w q r b)"
proof -
  assume n: "b \<Longrightarrow> 1 \<le> n"
  have pub: "thread B p m g (publish_prog w Done)" for m g by (rule thread_publish) (rule thread_Done)
  show ?thesis
  proof (cases b)
    case True
    then show ?thesis using n pub
      by (auto simp: end_tell_def send_bye_def Let_def intro!: thread_Act keeps_same)
  next
    case False
    then show ?thesis using pub by (simp add: end_tell_def)
  qed
qed

lemma thread_rest:
  assumes "q = p \<Longrightarrow> g" and "b \<Longrightarrow> 1 \<le> n"
  shows "thread B p n g (end_rest w q r b)"
proof -
  have "thread B p n g (if r = ByeSourceLost then mark_prog w (end_tell w q r b) else end_tell w q r b)"
    using thread_tell assms(2) thread_mark by simp
  then have "thread B p n g (end_close w q r b)"
    unfolding end_close_def using assms(1)
    by (intro thread_calm) (auto simp: close_quiet intro: keeps_close split: prod.splits)
  then show ?thesis unfolding end_rest_def
    by (intro thread_calm) (auto simp: keeps_timers intro!: thread_calm)
qed

lemma thread_end:
  assumes "q = p \<Longrightarrow> B \<or> b" and "q \<noteq> p \<Longrightarrow> \<not> b"
  shows "thread B p n g (endSession_prog w q r b)"
proof (cases "q = p")
  case True
  then show ?thesis using assms(1) by (intro thread_End) (auto simp: fresh_end_def)
next
  case False
  then have r: "thread B p n g (end_rest w q r b)" using assms(2) by (intro thread_rest) auto
  show ?thesis unfolding endSession_prog_def using r False
    by (intro thread_calm) (auto intro!: keeps_same keeps_field thread_Done split: if_splits)
qed

lemma thread_end_proxy: "thread B p n g (end_proxy_prog w p r)"
  unfolding end_proxy_prog_def
  by (intro thread_calm) (auto simp: sane_def thread_Done intro!: keeps_same thread_end)

lemma thread_deadline: "thread B p n g (deadline_prog w p)"
  unfolding deadline_prog_def
  by (intro thread_calm) (auto simp: thread_Done keeps_timers intro!: keeps_same thread_end split: if_splits)

lemma thread_grace: "thread B p n g (grace_prog w p)"
  unfolding grace_prog_def
  by (intro thread_calm) (auto simp: thread_Done intro!: keeps_same thread_end_proxy)

lemma keeps_proxy:
  assumes "sane p a" and "filter (\<lambda>e. e = Peer p ClosePC) es = []"
    and "pc wp = pc (the_proxy a q) \<and> closeOnce wp = closeOnce (the_proxy a q) \<and> closed wp = closed (the_proxy a q) \<and>
      hasEnd wp = hasEnd (the_proxy a q)"
  shows "keeps p a (put_proxy q wp a) es"
  unfolding put_proxy_def using assms by (intro keeps_put) auto

lemma thread_connected: "thread B p n g (onConnected_prog q)"
  unfolding onConnected_prog_def onConnected_def
  by (intro thread_calm) (auto simp: thread_Done keeps_timers intro!: keeps_same split: if_splits)

lemma thread_conn: "thread B p n g (conn_prog w p st)"
proof -
  have s: "pc (stop_disconnect st wp) = pc wp" "closeOnce (stop_disconnect st wp) = closeOnce wp"
    "closed (stop_disconnect st wp) = closed wp" "hasEnd (stop_disconnect st wp) = hasEnd wp" for wp
    by (simp_all add: stop_disconnect_def)
  have "thread B p n g (case st of
           StateFailed \<Rightarrow> end_proxy_prog w p ByeICEFailed
         | StateDisconnected \<Rightarrow>
             Act (\<lambda>a. let wp = sproxy (the_sess a p)
               in (if disconnectTimer wp = None \<and> \<not> closed wp
                   then put_proxy p (wp\<lparr>disconnectTimer := Some Running\<rparr>) a else a, [], Done))
         | StateConnected \<Rightarrow>
             Act (\<lambda>a. let wp = sproxy (the_sess a p)
               in if started wp then (a, [], Done)
                  else (put_proxy p (wp\<lparr>started := True\<rparr>) a, [Peer p StartRTSP],
                        if hasConnected wp then onConnected_prog p else Done))
         | _ \<Rightarrow> Done)"
    by (cases st) (auto simp: thread_Done thread_end_proxy thread_connected Let_def has_type_def
        intro!: thread_calm keeps_same keeps_proxy split: if_splits)
  then show ?thesis unfolding conn_prog_def
    by (intro thread_calm) (auto simp: thread_Done s intro!: keeps_same keeps_proxy split: if_splits)
qed

subsection \<open>Messages\<close>

lemma thread_accept: "thread B p n True (accept_prog w v sid' wp sdp)"
proof -
  have a: "answer (fold (\<lambda>c s. fst (queueICE c s)) cs s) = answer s" for cs s
  proof (induction cs arbitrary: s)
    case (Cons c cs)
    have "answer (fst (queueICE c s)) = answer s" using queueICE_frame(5) [of c s] by (metis prod.collapse)
    then show ?case using Cons by simp
  qed simp
  have k: "keeps p a (a\<lparr>heap := heap a @ [s\<lparr>answer := Some (envelope w TypeAnswer sid' d)\<rparr>], sess := Some (length (heap a))\<rparr>) []"
    if "sane p a" "sess a \<noteq> Some p" for a s d
    using that by (auto simp: keeps_def sane_def pc_open_def nth_append envelope_def less_Suc_eq)
  have "thread B p n True (Act (\<lambda>a. (a, [replay_answer a v (envelope w TypeAnswer sid' d)],
      publish_prog w (start_prog w q (arm_prog q)))))" for q d
    by (intro thread_calm) (auto simp: replay_answer_def publish_def has_type_def envelope_def
        intro!: keeps_same thread_publish thread_start thread_arm)
  then show ?thesis unfolding accept_prog_def Let_def
    by (intro thread_calm) (auto intro!: k)
qed

lemma thread_answer: "thread B p n True (answer_prog w v sid' d)"
  unfolding answer_prog_def
  by (intro thread_calm) (auto simp: thread_Done sane_def comp_def intro!: keeps_same thread_accept split: prod.splits if_splits sum.splits)

lemma thread_offer: "thread B p n False (offer_prog w v env)"
proof -
  have av: "thread B p n True (available_prog w (\<lambda>on. if on then answer_prog w v s d
      else reply_prog (\<lambda>a. sendError w a v s c m r)))" for s d c m r
    unfolding available_prog_def
    by (intro thread_calm) (auto intro!: keeps_same thread_probe thread_answer thread_reply split: if_splits)
  have new: "thread B p n True (new_offer_prog w v env)"
    unfolding new_offer_prog_def by (auto intro!: av thread_reply split: option.split)
  have "thread B p n False (Act (\<lambda>a. (a, [], case sess a of
        Some p \<Rightarrow>
          (if sid (the_sess a p) = SID env \<and> viewer (the_sess a p) = v
           then (case answer (the_sess a p) of Some msg \<Rightarrow> reply_prog (\<lambda>a. replay_answer a v msg) | None \<Rightarrow> Done)
           else reply_prog (\<lambda>a. sendError w a v (SID env) ErrBusy ''a session is already active'' True))
      | None \<Rightarrow> new_offer_prog w v env)))"
  proof (rule thread_Act, goal_cases)
    case (1 a a' es k)
    then have e: "a' = a" "es = []" by auto
    show ?case
    proof (cases "sess a")
      case None
      then show ?thesis using 1 new by (auto intro!: keeps_same exI [of _ True])
    next
      case (Some q)
      then have q: "answer (the_sess a q) = Some msg \<Longrightarrow> member msg ''type'' = Some (JStr TypeAnswer)" for msg
        using 1(1) by (auto simp: sane_def)
      have "thread B p n False k"
        using 1(3) Some q by (auto simp: thread_Done replay_quiet intro!: thread_reply split: option.splits if_splits)
      then show ?thesis using 1(1) e by (auto intro!: keeps_same exI [of _ False])
    qed
  qed
  then show ?thesis unfolding offer_prog_def by (auto intro!: thread_reply)
qed

lemma thread_message: "B \<Longrightarrow> thread B p n False (message_prog w topic msg)"
proof -
  assume B: B
  have cand: "thread B p n False (candidates_prog w q cs)" for q cs
    by (induction cs) (auto simp: thread_Done add_candidate_def AddICECandidate_def comp_def intro!: thread_calm keeps_same)
  have "thread B p n False (ice_prog w v env)" for v env
    unfolding ice_prog_def
    by (intro thread_calm) (auto simp: thread_Done intro!: keeps_same cand split: option.split)
  moreover have "thread B p n False (bye_prog w v env)" for v env
    unfolding bye_prog_def using B
    by (intro thread_calm) (auto simp: thread_Done intro!: keeps_same thread_end split: option.split)
  moreover have "thread B p n False (cmd_prog w v env)" for v env
    unfolding cmd_prog_def handleCmd_def
    by (intro thread_calm) (auto simp: thread_Done intro!: keeps_same split: option.splits if_splits)
  ultimately have "thread B p n False (envelope_prog w v env st)" for v env st
    unfolding envelope_prog_def by (auto simp: thread_Done intro!: thread_offer thread_reply)
  then show ?thesis unfolding message_prog_def
    by (intro thread_calm) (auto simp: thread_Done intro!: keeps_same split: option.split)
qed

subsection \<open>Events\<close>

text \<open>The events of the agent but for call-backs and timers of the connection of another session.\<close>

fun about :: "nat \<Rightarrow> event \<Rightarrow> bool" where
  "about p (PeerState q st) = (q = p)"
| "about p (GraceTimer q) = (q = p)"
| "about p (ConnectTimeout q) = (q = p)"
| "about p (StreamEnd q) = (q = p)"
| "about p _ = True"

fun is_message :: "event \<Rightarrow> bool" where
  "is_message (Message t j) = True"
| "is_message _ = False"

lemma thread_guard: "thread B p n g t \<Longrightarrow> thread B p n g (guard_prog q t)"
  unfolding guard_prog_def by (intro thread_calm) (auto simp: thread_Done intro!: keeps_same)

lemma thread_event:
  assumes "about p e" and "is_message e \<Longrightarrow> B"
  shows "thread B p 0 False (event_prog w e)"
  using assms
  by (cases e) (auto intro!: thread_message thread_guard thread_queue thread_batch thread_conn thread_grace
      thread_deadline thread_end_proxy thread_monitor thread_connect)

section \<open>The pool\<close>

definition claimable :: "nat \<Rightarrow> Agent \<Rightarrow> nat" where
  "claimable p a = (if sess a = Some p then 1 else 0)"

text \<open>A segment either claims the session or leaves it as it is.\<close>

lemma segment_cases:
  assumes th: "thread B p n g (Act f)" and s: "sane p a" "g \<longrightarrow> sess a \<noteq> Some p" and f: "f a = (a', es, k)"
  obtains (claims) w r b where "sess a = Some p" "a' = a\<lparr>sess := None\<rparr>" "es = []" "k = end_rest w p r b" "B \<or> b"
  | (leaves) g' where "\<not> (sess a = Some p \<and> fresh_end B p (Act f))" "keeps p a a' es" "byes es \<le> n"
      "g' \<longrightarrow> sess a' \<noteq> Some p" "thread B p (n - byes es) g' k"
proof (cases "fresh_end B p (Act f)")
  case True
  then obtain w r b where e: "f = (\<lambda>a. if sess a \<noteq> Some p then (a, [], Done) else (a\<lparr>sess := None\<rparr>, [], end_rest w p r b))" "B \<or> b"
    by (auto simp: fresh_end_def endSession_prog_def)
  show thesis
  proof (cases "sess a = Some p")
    case True
    then show thesis using claims [of w r b] f e by auto
  next
    case False
    then show thesis using leaves [of False] f e s(1) by (auto simp: keeps_same thread_Done)
  qed
next
  case False
  then have "keeps p a a' es \<and> byes es \<le> n \<and> (\<exists>g'. (g' \<longrightarrow> sess a' \<noteq> Some p) \<and> thread B p (n - byes es) g' k)"
    using th s f by (elim thread_ActE) auto
  then show thesis using leaves False by blast
qed

text \<open>Programs sure to close the session's proxy, to send a bye, and to end the session while it is active.\<close>

inductive will_close :: "nat \<Rightarrow> prog \<Rightarrow> bool" for p where
  will_close_Act: "(\<And>a a' es k. f a = (a', es, k) \<Longrightarrow> sane p a \<Longrightarrow>
      closeOnce (the_proxy a' p) \<or> will_close p k) \<Longrightarrow> will_close p (Act f)"

inductive_simps will_close_Done: "will_close p Done"
inductive_cases will_close_ActE: "will_close p (Act f)"

inductive will_bye :: "prog \<Rightarrow> bool" where
  will_bye_Act: "(\<And>a a' es k. f a = (a', es, k) \<Longrightarrow> 1 \<le> byes es \<or> will_bye k) \<Longrightarrow> will_bye (Act f)"

inductive_simps will_bye_Done: "will_bye Done"
inductive_cases will_bye_ActE: "will_bye (Act f)"

inductive will_end :: "bool \<Rightarrow> nat \<Rightarrow> prog \<Rightarrow> bool" for B p where
  will_end_fresh: "fresh_end B p t \<Longrightarrow> will_end B p t"
| will_end_Act: "(\<And>a a' es k. f a = (a', es, k) \<Longrightarrow> sane p a \<Longrightarrow> sess a = Some p \<Longrightarrow> \<not> closed (the_proxy a p) \<Longrightarrow>
      will_end B p k) \<Longrightarrow> will_end B p (Act f)"

inductive_cases will_end_ActE: "will_end B p (Act f)"

lemma will_end_Done: "\<not> will_end B p Done"
  by (auto simp: fresh_end_def endSession_prog_def elim: will_end.cases)

lemma rest_will_close: "will_close p (end_rest w p r b)"
proof -
  have "closeOnce (the_proxy a' p)" if "close_proxy p a = (a', es)" "sane p a" for a a' es
    using that by (auto simp: close_proxy_def case_prod_beta Let_def sane_def proxy_Close_def)
  then have "will_close p (end_close w p r b)"
    unfolding end_close_def by (intro will_close_Act) (auto split: prod.splits)
  then show ?thesis unfolding end_rest_def by (intro will_close_Act) (auto intro!: will_close_Act)
qed

lemma publish_will_bye: "will_bye k \<Longrightarrow> will_bye (publish_prog w k)"
  unfolding publish_prog_def Let_def by (intro will_bye_Act) (auto intro!: will_bye_Act)

lemma mark_will_bye: "will_bye k \<Longrightarrow> will_bye (mark_prog w k)"
  unfolding mark_prog_def by (intro will_bye_Act) (auto simp: publish_will_bye split: prod.splits if_splits)

lemma rest_will_bye: "will_bye (end_rest w p r True)"
proof -
  have "will_bye (end_tell w p r True)"
    by (auto simp: end_tell_def send_bye_def Let_def intro!: will_bye_Act)
  then have "will_bye (end_close w p r True)"
    unfolding end_close_def by (intro will_bye_Act) (auto simp: mark_will_bye split: prod.splits if_splits)
  then show ?thesis unfolding end_rest_def by (intro will_bye_Act) (auto intro!: will_bye_Act)
qed

text \<open>The events that end the active session for sure: the failed connection and the lost stream.\<close>

definition fatal :: "nat \<Rightarrow> event \<Rightarrow> bool" where
  "fatal p e \<longleftrightarrow> e = PeerState p StateFailed \<or> e = StreamEnd p"

lemma fatal_will_end:
  assumes "fatal p e"
  shows "will_end B p (event_prog w e)"
proof -
  have "will_end B p (endSession_prog w p r True)" for r by (rule will_end_fresh) (auto simp: fresh_end_def)
  then have e: "will_end B p (end_proxy_prog w p r)" for r
    unfolding end_proxy_prog_def by (intro will_end_Act) (auto simp: sane_def)
  then have "will_end B p (conn_prog w p StateFailed)"
    unfolding conn_prog_def by (intro will_end_Act) (auto split: if_splits)
  with e assms show ?thesis
    by (auto simp: fatal_def guard_prog_def sane_def intro!: will_end_Act)
qed

text \<open>
  Unclaimed, with a thread that will end it when \<open>E\<close>; or claimed, and closed or about to be. And, when every
  end tells the viewer: unclaimed, or a bye is sent or about to be.
\<close>

definition progress :: "bool \<Rightarrow> bool \<Rightarrow> nat \<Rightarrow> prog list \<Rightarrow> Agent \<Rightarrow> bool" where
  "progress E B p ts a \<longleftrightarrow>
     (if sess a = Some p then \<not> closed (the_proxy a p) \<and> (E \<longrightarrow> list_ex (will_end B p) ts)
      else closeOnce (the_proxy a p) \<or> list_ex (will_close p) ts)"

definition told :: "bool \<Rightarrow> nat \<Rightarrow> prog list \<Rightarrow> Agent \<Rightarrow> effect list \<Rightarrow> bool" where
  "told B p ts a so_far \<longleftrightarrow> B \<or> sess a = Some p \<or> 1 \<le> byes so_far \<or> list_ex will_bye ts"

lemma list_ex_step:
  assumes "list_ex W ts" and "i < length ts" and "W (ts ! i) \<Longrightarrow> Q \<or> W k"
  shows "Q \<or> list_ex W (ts[i := k])"
proof -
  obtain j where j: "j < length ts" "W (ts ! j)" using assms(1) by (auto simp: list_ex_length)
  show ?thesis
  proof (cases "j = i")
    case True
    then show ?thesis using assms(2,3) j by (auto simp: list_ex_length)
  next
    case False
    then have "W (ts[i := k] ! j)" using j by simp
    then show ?thesis using j by (auto simp: list_ex_length)
  qed
qed

text \<open>The invariant of the pool: a budget of one bye, one close, and the two promises.\<close>

definition pool_inv :: "bool \<Rightarrow> bool \<Rightarrow> nat \<Rightarrow> prog list \<Rightarrow> Agent \<Rightarrow> effect list \<Rightarrow> bool" where
  "pool_inv E B p ts a so_far \<longleftrightarrow>
     (\<exists>ns. list_all2 (\<lambda>(n, g) t. thread B p n g t \<and> (g \<longrightarrow> sess a \<noteq> Some p)) ns ts \<and>
        byes so_far + sum_list (map fst ns) + claimable p a \<le> 1) \<and>
     closes p so_far + pc_open p a = 1 \<and> sane p a \<and> progress E B p ts a \<and> told B p ts a so_far"


lemma progress_step:
  assumes ok: "progress E B p ts a" and th: "thread B p n g (Act f)" and s: "sane p a" "g \<longrightarrow> sess a \<noteq> Some p"
    and i: "i < length ts" "ts ! i = Act f" and f: "f a = (a', es, k)"
  shows "progress E B p (ts[i := k]) a'"
  using th s f
proof (cases rule: segment_cases)
  case (claims w r b)
  then have "will_close p (ts[i := k] ! i)" using i(1) rest_will_close by simp
  then show ?thesis using claims i(1) by (auto simp: progress_def list_ex_length)
next
  case (leaves g')
  show ?thesis
  proof (cases "sess a = Some p")
    case True
    have o: "\<not> closed (the_proxy a p)" using ok True by (simp add: progress_def)
    have "list_ex (will_end B p) (ts[i := k])" if E
    proof -
      have "list_ex (will_end B p) ts" using ok True that by (simp add: progress_def)
      moreover have "will_end B p k" if "will_end B p (ts ! i)"
        using that leaves(1) True i(2) f s(1) o by (auto elim!: will_end_ActE)
      ultimately show ?thesis using list_ex_step [OF _ i(1), of "will_end B p" False k] by simp
    qed
    then show ?thesis using True leaves(2) o by (simp add: progress_def keeps_def)
  next
    case False
    have "closeOnce (the_proxy a' p) \<or> will_close p k" if "will_close p (ts ! i)"
      using that i(2) f s(1) by (auto elim!: will_close_ActE)
    then have "closeOnce (the_proxy a' p) \<or> list_ex (will_close p) (ts[i := k])"
      using ok False leaves(2) list_ex_step [OF _ i(1), of "will_close p"] by (auto simp: progress_def keeps_def)
    then show ?thesis using False leaves(2) by (simp add: progress_def keeps_def)
  qed
qed

lemma told_step:
  assumes ok: "told B p ts a so_far" and th: "thread B p n g (Act f)" and s: "sane p a" "g \<longrightarrow> sess a \<noteq> Some p"
    and i: "i < length ts" "ts ! i = Act f" and f: "f a = (a', es, k)"
  shows "told B p (ts[i := k]) a' (so_far @ es)"
  using th s f
proof (cases rule: segment_cases)
  case (claims w r b)
  then have "B \<or> will_bye (ts[i := k] ! i)" using i(1) rest_will_bye by auto
  then show ?thesis using i(1) by (auto simp: told_def list_ex_length)
next
  case (leaves g')
  have "1 \<le> byes es \<or> will_bye k" if "will_bye (ts ! i)" using that i(2) f by (auto elim!: will_bye_ActE)
  then have "list_ex will_bye ts \<Longrightarrow> 1 \<le> byes es \<or> list_ex will_bye (ts[i := k])"
    by (intro list_ex_step [OF _ i(1)])
  then show ?thesis using ok leaves(2) by (auto simp: told_def keeps_def)
qed

lemma budget_step:
  assumes "thread B p n g (Act f)" and "sane p a" "g \<longrightarrow> sess a \<noteq> Some p" and "f a = (a', es, k)"
  shows "\<exists>n' g'. thread B p n' g' k \<and> (g' \<longrightarrow> sess a' \<noteq> Some p) \<and> byes es + n' + claimable p a' \<le> n + claimable p a \<and>
    sane p a' \<and> closes p es + pc_open p a' = pc_open p a \<and> (sess a' = Some p \<longrightarrow> sess a = Some p)"
  using assms
proof (cases rule: segment_cases)
  case (claims w r b)
  have "thread B p 1 True k" unfolding claims(4) by (rule thread_rest) simp_all
  then show ?thesis using claims assms(2)
    by (intro exI [of _ 1] exI [of _ True]) (simp add: claimable_def pc_open_def sane_def)
next
  case (leaves g')
  then show ?thesis by (intro exI [of _ "n - byes es"] exI [of _ g']) (simp add: claimable_def keeps_def)
qed

interpretation pool: pool_invariant "pool_inv E B p" for E B p
proof unfold_locales
  fix ts a so_far i f a' es k
  assume inv: "pool_inv E B p ts a so_far" and i: "i < length ts" "ts ! i = Act f" and f: "f a = (a', es, k)"
  let ?R = "\<lambda>a (n, g) t. thread B p n g t \<and> (g \<longrightarrow> sess a \<noteq> Some p)"
  obtain ns where ns: "list_all2 (?R a) ns ts" "byes so_far + sum_list (map fst ns) + claimable p a \<le> 1"
    and p: "sane p a" and c: "closes p so_far + pc_open p a = 1"
    using inv by (auto simp: pool_inv_def)
  obtain n g where ng: "ns ! i = (n, g)" by fastforce
  have th: "thread B p n g (Act f)" "g \<longrightarrow> sess a \<noteq> Some p" using list_all2_nthD2 [OF ns(1) i(1)] by (simp_all add: ng i(2))
  obtain n' g' where b: "thread B p n' g' k" "g' \<longrightarrow> sess a' \<noteq> Some p" "byes es + n' + claimable p a' \<le> n + claimable p a"
    "sane p a'" "closes p es + pc_open p a' = pc_open p a" "sess a' = Some p \<longrightarrow> sess a = Some p"
    using budget_step [OF th(1) p th(2) f] by blast
  have il: "i < length (map fst ns)" using ns(1) i(1) by (simp add: list_all2_lengthD)
  have "sum_list ((map fst ns)[i := n']) + map fst ns ! i = sum_list (map fst ns) + n'"
    using sum_list_update [of i "map fst ns" n'] elem_le_sum_list [OF il] il by linarith
  then have "byes (so_far @ es) + sum_list (map fst (ns[i := (n', g')])) + claimable p a' \<le> 1"
    using b(3) ns(2) ng il by (simp add: map_update)
  moreover have "list_all2 (?R a') (ns[i := (n', g')]) (ts[i := k])"
    by (rule list_all2_update_cong, rule list_all2_mono [OF ns(1)]) (use b in auto)
  moreover have "closes p (so_far @ es) + pc_open p a' = 1" using b(5) c by simp
  moreover have "progress E B p (ts[i := k]) a'" "told B p (ts[i := k]) a' (so_far @ es)"
    using inv progress_step [OF _ th(1) p th(2) i f] told_step [OF _ th(1) p th(2) i f] by (auto simp: pool_inv_def)
  ultimately show "pool_inv E B p (ts[i := k]) a' (so_far @ es)" using b(4) unfolding pool_inv_def by blast
qed

abbreviation event_progs :: "(world \<times> event) list \<Rightarrow> prog list" where
  "event_progs evs \<equiv> map (\<lambda>(w, e). event_prog w e) evs"

lemma pool_start:
  assumes r: "reachable a" and s: "sess a = Some p" and ab: "\<forall>(w, e) \<in> set evs. about p e"
    and B: "B \<longleftrightarrow> (\<exists>(w, e) \<in> set evs. is_message e)" and E: "E \<longleftrightarrow> (\<exists>(w, e) \<in> set evs. fatal p e)"
  shows "pool_inv E B p (event_progs evs) a []"
proof -
  note inv = reachable_inv [OF r]
  have l: "p < length (heap a)" "live_sess (the_sess a p)" using agent_invD(1) [OF inv s] by blast+
  have "thread B p 0 False (event_prog w e)" if "(w, e) \<in> set evs" for w e
    using that ab B by (intro thread_event) auto
  then have "list_all2 (\<lambda>(n, g) t. thread B p n g t \<and> (g \<longrightarrow> sess a \<noteq> Some p)) (map (\<lambda>_. (0, False)) evs) (event_progs evs)"
    by (auto simp: list_all2_map1 list_all2_map2 list_all2_same)
  moreover have "sum_list (map fst (map (\<lambda>_. (0::nat, False)) evs)) = 0" by (induction evs) simp_all
  moreover have "list_ex (will_end B p) (event_progs evs)" if e: E
  proof -
    obtain w e where we: "(w, e) \<in> set evs" "fatal p e" using e E by auto
    have "event_prog w e \<in> set (event_progs evs)" using imageI [OF we(1), of "\<lambda>(w, e). event_prog w e"] by simp
    then show ?thesis using fatal_will_end [OF we(2)] unfolding list_ex_iff by blast
  qed
  moreover have "sane p a"
    using l inv s by (auto simp: sane_def agent_inv_def live_sess_def dead_sess_def wp_inv_def split: if_splits)
  moreover have "pc_open p a = 1" "\<not> closed (the_proxy a p)" using l(2) by (auto simp: pc_open_def live_sess_def wp_inv_def)
  ultimately show ?thesis
    using s unfolding pool_inv_def progress_def told_def claimable_def
    by (intro conjI exI [of _ "map (\<lambda>_. (0, False)) evs"]) auto
qed



end
