(* ===== verification/IceBatches.thy ===== *)
theory IceBatches imports Interleave "HOL-Library.Multiset" begin

text \<open>
  The delivery of a session's local candidates (\<open>startICE\<close>, \<open>queueICE\<close>, \<open>flushICE\<close>, \<open>stopICE\<close> of
  \<open>agent.go\<close>) with every interleaving of the goroutines that take part: the library's call-backs, the batch
  timer, the handler of the offer and the end of the session. A step is one critical section of
  \<open>iceMu\<close>, or one sending, which comes after the section that took the batch; any number of calls of
  \<open>flushICE\<close> may wait for the lock and any number of batches may be on their way at the same time.
\<close>

section \<open>Critical sections\<close>

text \<open>
  \<open>ticking\<close>: the timer runs and has not fired; \<open>calls\<close>: calls of \<open>flushICE\<close> that have not yet got the
  lock; \<open>flying\<close>: batches taken and not yet sent; \<open>delivered\<close>: what has been sent, in order.
\<close>

record batching =
  ice :: Session
  ticking :: bool
  calls :: nat
  flying :: "ICEData list"
  delivered :: "ICEData list"

text \<open>
  A candidate or the end from the library, the timer, the start after the answer, the end of the session;
  the locked part of a waiting call of \<open>flushICE\<close>; and the sending of the batch at an index of those taken.
\<close>

datatype batch_event =
    Queued "ICECandidate option" | Fired | Started | Halted | Taken | Sent nat

definition without_nth :: "nat \<Rightarrow> 'a list \<Rightarrow> 'a list" where
  "without_nth i xs = take i xs @ drop (Suc i) xs"

fun batch_step :: "batch_event \<Rightarrow> batching \<Rightarrow> batching" where
  "batch_step (Queued c) r =
     (case queueICE c (ice r) of (s, fl) \<Rightarrow>
        r\<lparr>ice := s, ticking := ticking r \<or> iceTimer s \<and> \<not> iceTimer (ice r),
          calls := calls r + (if fl then 1 else 0)\<rparr>)"
| "batch_step Fired r = (if ticking r then r\<lparr>ticking := False, calls := calls r + 1\<rparr> else r)"
| "batch_step Started r =
     (case startICE (ice r) of (s, fl) \<Rightarrow> r\<lparr>ice := s, calls := calls r + (if fl then 1 else 0)\<rparr>)"
| "batch_step Halted r = r\<lparr>ice := stopICE (ice r), ticking := False\<rparr>"
| "batch_step Taken r =
     (if calls r = 0 then r
      else case flushICE (ice r) of (s, d) \<Rightarrow>
        r\<lparr>ice := s, ticking := ticking r \<and> iceTimer s, calls := calls r - 1,
          flying := flying r @ (case d of None \<Rightarrow> [] | Some b \<Rightarrow> [b])\<rparr>)"
| "batch_step (Sent i) r =
     (if i < length (flying r)
      then r\<lparr>flying := without_nth i (flying r), delivered := delivered r @ [flying r ! i]\<rparr> else r)"

definition batch_run :: "batch_event list \<Rightarrow> batching \<Rightarrow> batching" where
  "batch_run xs r = foldl (\<lambda>r x. batch_step x r) r xs"

lemma batch_run_snoc: "batch_run (xs @ [x]) r = batch_step x (batch_run xs r)"
  by (simp add: batch_run_def)

lemma batch_run_append: "batch_run (xs @ ys) r = batch_run ys (batch_run xs r)"
  by (simp add: batch_run_def)

definition new_batching :: "string \<Rightarrow> string \<Rightarrow> WebRTCProxy \<Rightarrow> batching" where
  "new_batching sid' v wp =
     \<lparr>ice = NewSession sid' v wp, ticking = False, calls = 0, flying = [], delivered = []\<rparr>"

text \<open>The segments of the agent's programs are these steps.\<close>

definition at_rest :: "Session \<Rightarrow> batching" where
  "at_rest s = \<lparr>ice = s, ticking = False, calls = 0, flying = [], delivered = []\<rparr>"

lemma queue_segment:
  "queue_prog w p c =
     Act (\<lambda>a. case batch_step (Queued c) (at_rest (the_sess a p)) of r \<Rightarrow>
       (put_sess p (ice r) a, [], if calls r \<noteq> 0 then flush_prog w p Done else Done))"
  unfolding queue_prog_def by (rule arg_cong [of _ _ Act]) (auto simp: at_rest_def fun_eq_iff split: prod.split)

lemma start_segment:
  "start_prog w p k =
     Act (\<lambda>a. case batch_step Started (at_rest (the_sess a p)) of r \<Rightarrow>
       (put_sess p (ice r) a, [], if calls r \<noteq> 0 then flush_prog w p k else k))"
  unfolding start_prog_def by (rule arg_cong [of _ _ Act]) (auto simp: at_rest_def fun_eq_iff split: prod.split)

lemma flush_segment:
  "flush_prog w p k =
     Act (\<lambda>a. case batch_step Taken ((at_rest (the_sess a p))\<lparr>calls := 1\<rparr>) of r \<Rightarrow>
       (put_sess p (ice r) a, [],
        case flying r of [] \<Rightarrow> k | b # _ \<Rightarrow> Act (\<lambda>a. (a, send_batch w a (ice r) (Some b), k))))"
  unfolding flush_prog_def by (rule arg_cong [of _ _ Act]) (auto simp: at_rest_def fun_eq_iff split: prod.split option.split)

section \<open>The invariant\<close>

text \<open>The candidates queued before the stop, and those in a list of batches.\<close>

fun queued :: "batch_event list \<Rightarrow> ICECandidate list" where
  "queued [] = []"
| "queued (Queued (Some c) # xs) = c # queued xs"
| "queued (Halted # xs) = []"
| "queued (x # xs) = queued xs"

lemma queued_snoc:
  "queued (xs @ [x]) = queued xs @ (case x of Queued (Some c) \<Rightarrow> if Halted \<in> set xs then [] else [c] | _ \<Rightarrow> [])"
  by (induction xs rule: queued.induct) (auto split: batch_event.split option.split)

definition candidates :: "ICEData list \<Rightarrow> ICECandidate list" where
  "candidates bs = concat (map (\<lambda>b. elems (Candidates b)) bs)"

lemma candidates_simps [simp]:
  "candidates [] = []" "candidates (b # bs) = elems (Candidates b) @ candidates bs"
  "candidates (bs @ cs) = candidates bs @ candidates cs"
  by (simp_all add: candidates_def)

lemma mset_candidates: "mset (candidates bs) = sum_mset (image_mset (\<lambda>b. mset (elems (Candidates b))) (mset bs))"
  by (induction bs) simp_all

lemma candidates_mset: "mset bs = mset cs \<Longrightarrow> mset (candidates bs) = mset (candidates cs)"
  by (simp add: mset_candidates)

lemma elems_append [simp]: "elems (append_slice b c) = elems b @ [c]"
  by (simp add: append_slice_def elems_def)

text \<open>One flush of a session that is neither stopped nor empty takes everything.\<close>

lemma flush_all:
  "flushICE s =
     (if iceStopped s \<or> elems (iceBuf s) = [] \<and> \<not> iceEnd s then (s, None)
      else (s\<lparr>iceBuf := None, iceEnd := False, iceTimer := False\<rparr>,
            Some \<lparr>Candidates = Some (elems (iceBuf s)), End = iceEnd s\<rparr>))"
  by (cases "iceBuf s") (auto simp: flushICE_def Let_def elems_def)

lemma elems_None [simp]: "elems None = []"
  by (simp add: elems_def)

definition in_order :: "batch_event list \<Rightarrow> bool" where
  "in_order xs \<longleftrightarrow> (\<forall>i. Sent i \<in> set xs \<longrightarrow> i = 0)"

text \<open>\<open>bs\<close> are the batches in the order in which they were taken.\<close>

definition ice_ok :: "batch_event list \<Rightarrow> ICEData list \<Rightarrow> batching \<Rightarrow> bool" where
  "ice_ok xs bs r \<longleftrightarrow>
     (iceStopped (ice r) \<longleftrightarrow> Halted \<in> set xs) \<and> (iceReady (ice r) \<longleftrightarrow> Started \<in> set xs) \<and>
     candidates bs @ elems (iceBuf (ice r)) = queued xs \<and>
     mset bs = mset (delivered r @ flying r) \<and> (in_order xs \<longrightarrow> bs = delivered r @ flying r) \<and>
     (\<forall>b \<in> set bs. Candidates b \<noteq> None \<and> (elems (Candidates b) \<noteq> [] \<or> End b)) \<and>
     (Started \<notin> set xs \<longrightarrow> bs = [] \<and> calls r = 0) \<and>
     (ticking r \<longrightarrow> iceTimer (ice r)) \<and>
     (iceTimer (ice r) \<longrightarrow> iceReady (ice r) \<and> \<not> iceStopped (ice r) \<and> elems (iceBuf (ice r)) \<noteq> []) \<and>
     (iceReady (ice r) \<and> \<not> iceStopped (ice r) \<and> elems (iceBuf (ice r)) \<noteq> [] \<longrightarrow> ticking r \<or> 0 < calls r) \<and>
     (iceReady (ice r) \<and> \<not> iceStopped (ice r) \<and> iceEnd (ice r) \<longrightarrow> 0 < calls r) \<and>
     (Queued None \<notin> set xs \<longrightarrow> \<not> iceEnd (ice r) \<and> list_all (\<lambda>b. \<not> End b) bs)"

lemma mset_without: "i < length xs \<Longrightarrow> add_mset (xs ! i) (mset (without_nth i xs)) = mset xs"
  by (metis id_take_nth_drop mset.simps(2) mset_append union_mset_add_mset_right without_nth_def)

lemma in_order_snoc: "in_order (xs @ [x]) \<longleftrightarrow> in_order xs \<and> (\<forall>i. x = Sent i \<longrightarrow> i = 0)"
  by (auto simp: in_order_def)

lemma ice_ok_queued: "ice_ok xs bs r \<Longrightarrow> ice_ok (xs @ [Queued c]) bs (batch_step (Queued c) r)"
  by (cases c; cases "iceStopped (ice r)"; cases "iceReady (ice r)")
     (auto simp: ice_ok_def queued_snoc in_order_snoc queueICE_def Let_def)

lemma ice_ok_fired: "ice_ok xs bs r \<Longrightarrow> ice_ok (xs @ [Fired]) bs (batch_step Fired r)"
  by (auto simp: ice_ok_def queued_snoc in_order_snoc)

lemma ice_ok_started: "ice_ok xs bs r \<Longrightarrow> ice_ok (xs @ [Started]) bs (batch_step Started r)"
  by (auto simp: ice_ok_def queued_snoc in_order_snoc startICE_def Let_def)

lemma ice_ok_halted: "ice_ok xs bs r \<Longrightarrow> ice_ok (xs @ [Halted]) bs (batch_step Halted r)"
  by (auto simp: ice_ok_def queued_snoc in_order_snoc stopICE_def)

definition taken_now :: "batching \<Rightarrow> ICEData list" where
  "taken_now r =
     (if calls r = 0 \<or> iceStopped (ice r) \<or> elems (iceBuf (ice r)) = [] \<and> \<not> iceEnd (ice r) then []
      else [\<lparr>Candidates = Some (elems (iceBuf (ice r))), End = iceEnd (ice r)\<rparr>])"

lemma ice_ok_taken: "ice_ok xs bs r \<Longrightarrow> ice_ok (xs @ [Taken]) (bs @ taken_now r) (batch_step Taken r)"
proof (cases "calls r = 0 \<or> iceStopped (ice r) \<or> elems (iceBuf (ice r)) = [] \<and> \<not> iceEnd (ice r)")
  case True
  then have "taken_now r = []" by (simp add: taken_now_def)
  moreover assume "ice_ok xs bs r"
  ultimately show ?thesis using True by (auto simp: ice_ok_def queued_snoc in_order_snoc flush_all)
next
  case False
  then have "taken_now r = [\<lparr>Candidates = Some (elems (iceBuf (ice r))), End = iceEnd (ice r)\<rparr>]"
    by (simp add: taken_now_def)
  moreover assume "ice_ok xs bs r"
  ultimately show ?thesis using False by (auto simp: ice_ok_def queued_snoc in_order_snoc flush_all)
qed

lemma ice_ok_sent: "ice_ok xs bs r \<Longrightarrow> ice_ok (xs @ [Sent i]) bs (batch_step (Sent i) r)"
proof (cases "i < length (flying r)")
  case True
  have m: "mset (delivered r @ [flying r ! i] @ without_nth i (flying r)) = mset (delivered r @ flying r)"
    using mset_without [OF True] by simp
  have z: "delivered r @ [flying r ! 0] @ without_nth 0 (flying r) = delivered r @ flying r" if "i = 0"
    using True that by (cases "flying r") (simp_all add: without_nth_def)
  assume "ice_ok xs bs r"
  with m z True show ?thesis by (auto simp: ice_ok_def queued_snoc in_order_snoc simp del: mset_append)
qed (auto simp: ice_ok_def queued_snoc in_order_snoc)

lemma ice_ok_step:
  "ice_ok xs bs r \<Longrightarrow> ice_ok (xs @ [x]) (bs @ (if x = Taken then taken_now r else [])) (batch_step x r)"
  by (cases x)
     (simp_all add: ice_ok_queued ice_ok_fired ice_ok_started ice_ok_halted ice_ok_taken ice_ok_sent
        del: batch_step.simps)

lemma ice_ok_run: "\<exists>bs. ice_ok xs bs (batch_run xs (new_batching sid' v wp))"
proof (induction xs rule: rev_induct)
  case Nil
  show ?case
    by (intro exI [of _ "[]"]) (simp add: ice_ok_def batch_run_def new_batching_def NewSession_def)
next
  case (snoc x xs)
  then show ?case using ice_ok_step by (metis batch_run_snoc)
qed

section \<open>What is delivered\<close>

text \<open>
  C9: batching loses and repeats nothing, under any interleaving of the goroutines at the granularity of
  their locks: of a new session, the batches sent and those on their way are, in the order in which they
  were taken, exactly the candidates queued before the session was stopped, up to those still
  buffered, each once and in order; they are sent in that order as long as no batch overtakes another. Nothing is taken
  before the answer is out; every batch is a JSON list and holds a candidate or the end mark; and while
  the session is started and not stopped, whatever waits in the buffer has a running timer or a waiting
  flush, so no candidate is stranded.
\<close>

theorem ice_lossless:
  assumes "batch_run xs (new_batching sid' v wp) = r"
  shows "\<exists>bs. mset bs = mset (delivered r @ flying r) \<and> candidates bs @ elems (iceBuf (ice r)) = queued xs \<and>
    ((\<forall>i. Sent i \<in> set xs \<longrightarrow> i = 0) \<longrightarrow> bs = delivered r @ flying r) \<and>
    (Started \<notin> set xs \<longrightarrow> bs = []) \<and>
    list_all (\<lambda>b. Candidates b \<noteq> None \<and> (elems (Candidates b) \<noteq> [] \<or> End b)) bs \<and>
    (Started \<in> set xs \<and> Halted \<notin> set xs \<and> elems (iceBuf (ice r)) \<noteq> [] \<longrightarrow> ticking r \<or> 0 < calls r) \<and>
    (Halted \<in> set xs \<longrightarrow> \<not> ticking r)"
proof -
  obtain bs where "ice_ok xs bs r" using ice_ok_run assms by metis
  then show ?thesis unfolding ice_ok_def in_order_def list_all_iff by blast
qed

text \<open>Two batches on their way, of which the second is sent first.\<close>

theorem ice_lossless_witness:
  "let r = batch_run [Queued (Some (sample_candidate ''a'')), Started, Queued (Some (sample_candidate ''b'')), Taken,
         Queued (Some (sample_candidate ''c'')), Fired, Taken, Queued (Some (sample_candidate ''d'')), Sent 1]
       (new_batching ''session01'' ''viewer'' sample_proxy)
   in candidates (delivered r) = [sample_candidate ''c''] \<and>
      mset (candidates (delivered r @ flying r)) =
        mset [sample_candidate ''a'', sample_candidate ''b'', sample_candidate ''c'']"
proof -
  define xs where "xs = [Queued (Some (sample_candidate ''a'')), Started, Queued (Some (sample_candidate ''b'')), Taken,
         Queued (Some (sample_candidate ''c'')), Fired, Taken, Queued (Some (sample_candidate ''d'')), Sent 1]"
  define r where "r = batch_run xs (new_batching ''session01'' ''viewer'' sample_proxy)"
  have b: "iceBuf (ice r) = Some [sample_candidate ''d'']" and d: "candidates (delivered r) = [sample_candidate ''c'']"
    unfolding r_def xs_def by code_simp+
  obtain bs where bs: "mset bs = mset (delivered r @ flying r)" "candidates bs @ elems (iceBuf (ice r)) = queued xs"
    using ice_lossless [OF r_def [symmetric]] by blast
  have "candidates bs = [sample_candidate ''a'', sample_candidate ''b'', sample_candidate ''c'']"
    using bs(2) by (simp add: b elems_def xs_def)
  with candidates_mset [OF bs(1)] have "mset (candidates (delivered r @ flying r)) =
      mset [sample_candidate ''a'', sample_candidate ''b'', sample_candidate ''c'']" by metis
  with d show ?thesis unfolding r_def xs_def Let_def by blast
qed

text \<open>
  The end of the gathering: what is still to come once it is signalled. Either the mark waits, with a flush
  that will take it, or it has been taken, last and with everything.
\<close>

definition end_ok :: "batch_event list \<Rightarrow> ICEData list \<Rightarrow> batching \<Rightarrow> bool" where
  "end_ok xs bs r \<longleftrightarrow> ice_ok xs bs r \<and>
     (if iceEnd (ice r) then list_all (\<lambda>b. \<not> End b) bs
      else elems (iceBuf (ice r)) = [] \<and> (\<exists>cs b. bs = cs @ [b] \<and> End b \<and> list_all (\<lambda>b. \<not> End b) cs))"

lemma end_ok_step:
  assumes ok: "end_ok xs bs r" and x: "\<And>c. x \<noteq> Queued c" "x \<noteq> Halted" "Halted \<notin> set xs"
  shows "\<exists>cs. end_ok (xs @ [x]) (bs @ cs) (batch_step x r)"
proof -
  have k: "ice_ok xs bs r" and n: "\<not> iceStopped (ice r)"
    using ok x(3) by (auto simp: end_ok_def ice_ok_def)
  have same: "\<exists>cs. end_ok (xs @ [x]) (bs @ cs) (batch_step x r)"
    if "ice_ok (xs @ [x]) bs (batch_step x r)" "iceEnd (ice (batch_step x r)) = iceEnd (ice r)"
      "iceBuf (ice (batch_step x r)) = iceBuf (ice r)"
    using ok that by (intro exI [of _ "[]"]) (simp add: end_ok_def)
  show ?thesis
  proof (cases x)
    case Fired
    then show ?thesis using same ice_ok_fired [OF k] by simp
  next
    case Started
    then show ?thesis using same ice_ok_started [OF k] by (simp add: startICE_def Let_def)
  next
    case (Sent i)
    then show ?thesis using same ice_ok_sent [OF k] by simp
  next
    case Taken
    note t = ice_ok_taken [OF k]
    show ?thesis
    proof (cases "0 < calls r \<and> iceEnd (ice r)")
      case True
      then have "taken_now r = [\<lparr>Candidates = Some (elems (iceBuf (ice r))), End = True\<rparr>]"
        using n by (simp add: taken_now_def)
      with t ok True n have "end_ok (xs @ [x]) (bs @ taken_now r) (batch_step x r)"
        by (simp add: Taken end_ok_def flush_all)
      then show ?thesis by blast
    next
      case False
      have same_buf: "elems (iceBuf (ice r)) = []" if "\<not> iceEnd (ice r)" using ok that by (simp add: end_ok_def)
      with False have "taken_now r = []" "iceEnd (ice (batch_step Taken r)) = iceEnd (ice r)"
        "iceBuf (ice (batch_step Taken r)) = iceBuf (ice r)"
        using n by (auto simp: taken_now_def flush_all)
      then show ?thesis using t same by (simp add: Taken del: batch_step.simps)
    qed
  qed (use x in auto)
qed

lemma end_ok_queued:
  assumes ok: "ice_ok xs bs r" and xs: "Halted \<notin> set xs" "Queued None \<notin> set xs"
  shows "end_ok (xs @ [Queued None]) bs (batch_step (Queued None) r)"
proof -
  have "iceEnd (ice (batch_step (Queued None) r))"
    using ok xs by (auto simp: ice_ok_def queueICE_def Let_def)
  moreover have "list_all (\<lambda>b. \<not> End b) bs" using ok xs by (simp add: ice_ok_def)
  ultimately show ?thesis using ice_ok_queued [OF ok, of None] by (simp add: end_ok_def del: batch_step.simps)
qed

lemma end_ok_run:
  assumes "end_ok xs bs r" and "Halted \<notin> set xs" and "\<forall>x \<in> set zs. x \<noteq> Halted \<and> (\<forall>c. x \<noteq> Queued c)"
  shows "\<exists>cs. end_ok (xs @ zs) (bs @ cs) (batch_run zs r)"
  using assms(3)
proof (induction zs rule: rev_induct)
  case Nil
  show ?case using assms(1) by (intro exI [of _ "[]"]) (simp add: batch_run_def)
next
  case (snoc z zs)
  then obtain cs where c: "end_ok (xs @ zs) (bs @ cs) (batch_run zs r)" by auto
  have "Halted \<notin> set (xs @ zs)" using assms(2) snoc.prems by auto
  from end_ok_step [OF c _ _ this, of z] snoc.prems obtain ds
    where "end_ok ((xs @ zs) @ [z]) ((bs @ cs) @ ds) (batch_step z (batch_run zs r))" by auto
  then show ?case by (auto simp: batch_run_snoc)
qed

text \<open>
  C8: no candidate is forgotten: if the library signals the end of the gathering once, after the last
  candidate, and the session is started (before or after that) and not stopped, then under any
  interleaving, once the calls of \<open>flushICE\<close> have run and the batches taken have been sent, every
  candidate has been sent exactly once, exactly one batch has carried the end mark and the buffer is
  empty; and where no batch overtook another, the candidates were sent in order and the end mark last.
\<close>

theorem ice_complete:
  assumes "xs = ys @ Queued None # zs" and "Queued None \<notin> set ys" and "\<forall>c. Queued c \<notin> set zs"
    and "Started \<in> set xs" and "Halted \<notin> set xs"
    and "batch_run xs (new_batching sid' v wp) = r" and "calls r = 0" and "flying r = []"
  shows "mset (candidates (delivered r)) = mset (queued ys) \<and>
    length (filter End (delivered r)) = 1 \<and> elems (iceBuf (ice r)) = [] \<and>
    ((\<forall>i. Sent i \<in> set xs \<longrightarrow> i = 0) \<longrightarrow> candidates (delivered r) = queued ys \<and> End (last (delivered r)))"
proof -
  obtain bs1 where k: "ice_ok ys bs1 (batch_run ys (new_batching sid' v wp))" using ice_ok_run by blast
  have h: "Halted \<notin> set ys" "Halted \<notin> set zs" using assms(1,5) by auto
  have "\<forall>x \<in> set zs. x \<noteq> Halted \<and> (\<forall>c. x \<noteq> Queued c)" using assms(3) h(2) by blast
  from end_ok_run [OF end_ok_queued [OF k h(1) assms(2)] _ this] h(1) obtain bs where
    "end_ok xs bs (batch_run zs (batch_step (Queued None) (batch_run ys (new_batching sid' v wp))))"
    using assms(1) by auto
  then have e: "end_ok xs bs r"
    using assms(6) by (simp add: assms(1) batch_run_append batch_run_def del: batch_step.simps)
  have q: "queued (ys @ Queued None # zs') = queued ys" if "\<forall>c. Queued c \<notin> set zs'" for zs'
    using that
  proof (induction zs' rule: rev_induct)
    case (snoc z zs')
    then show ?case using queued_snoc [of "ys @ Queued None # zs'" z] by (auto split: batch_event.split)
  qed (use queued_snoc [of ys "Queued None"] in simp)
  have "iceReady (ice r)" "\<not> iceStopped (ice r)" using e assms(4,5) by (simp_all add: end_ok_def ice_ok_def)
  then have "\<not> iceEnd (ice r)" using e assms(7) by (auto simp: end_ok_def ice_ok_def)
  with e obtain cs b where b: "elems (iceBuf (ice r)) = []" "bs = cs @ [b]" "End b" "list_all (\<lambda>b. \<not> End b) cs"
    by (auto simp: end_ok_def)
  have m: "mset bs = mset (delivered r)" and o: "in_order xs \<longrightarrow> bs = delivered r"
    and c: "candidates bs = queued ys"
    using e assms(8) q [OF assms(3)] b(1) by (auto simp: end_ok_def ice_ok_def assms(1))
  have "mset (filter End bs) = mset (filter End (delivered r))" using m by (simp add: mset_filter)
  then have "length (filter End (delivered r)) = length (filter End bs)" by (metis size_mset)
  also have "filter End bs = [b]" using b by (simp add: list_all_iff filter_empty_conv)
  finally have "length (filter End (delivered r)) = 1" by simp
  moreover have "mset (candidates (delivered r)) = mset (queued ys)" using candidates_mset [OF m] c by metis
  moreover have "in_order xs \<longrightarrow> candidates (delivered r) = queued ys \<and> End (last (delivered r))"
    using o c b(2,3) by (metis last_snoc)
  ultimately show ?thesis using b(1) unfolding in_order_def by blast
qed

theorem ice_complete_witness:
  "let r = batch_run [Queued (Some (sample_candidate ''a'')), Started, Taken, Queued (Some (sample_candidate ''b'')),
         Fired, Taken, Queued None, Taken, Sent 2, Sent 1, Sent 0]
       (new_batching ''session01'' ''viewer'' sample_proxy)
   in mset (candidates (delivered r)) = mset [sample_candidate ''a'', sample_candidate ''b''] \<and>
      length (filter End (delivered r)) = 1 \<and> End (hd (delivered r))"
proof -
  define xs where "xs = [Queued (Some (sample_candidate ''a'')), Started, Taken, Queued (Some (sample_candidate ''b'')),
         Fired, Taken, Queued None, Taken, Sent 2, Sent 1, Sent 0]"
  define r where "r = batch_run xs (new_batching ''session01'' ''viewer'' sample_proxy)"
  have q: "calls r = 0" "flying r = []" "End (hd (delivered r))" unfolding r_def xs_def by code_simp+
  have x: "xs = [Queued (Some (sample_candidate ''a'')), Started, Taken, Queued (Some (sample_candidate ''b'')),
         Fired, Taken] @ Queued None # [Taken, Sent 2, Sent 1, Sent 0]" by (simp add: xs_def)
  have "mset (candidates (delivered r)) = mset (queued [Queued (Some (sample_candidate ''a'')), Started, Taken,
         Queued (Some (sample_candidate ''b'')), Fired, Taken]) \<and> length (filter End (delivered r)) = 1"
    using ice_complete [OF x _ _ _ _ r_def [symmetric] q(1,2)] by (simp add: xs_def)
  with q(3) show ?thesis unfolding r_def xs_def Let_def by simp
qed

end
