(* ===== verification/Deadlines.thy ===== *)
theory Deadlines imports Schedules begin

text \<open>
  The connection deadline when handlers run at once: whatever runs, and under every schedule, the session
  that is active when all have finished is connected or has its deadline running.
\<close>

section \<open>What every segment keeps of all sessions\<close>

abbreviation armed :: "Agent \<Rightarrow> nat \<Rightarrow> bool" where
  "armed a p \<equiv> connectTimer (the_sess a p)"

text \<open>The active session exists.\<close>

definition sess_ok :: "Agent \<Rightarrow> bool" where
  "sess_ok a \<longleftrightarrow> (\<forall>q. sess a = Some q \<longrightarrow> q < length (heap a))"

text \<open>Session \<open>p\<close> is not left hanging.\<close>

definition settled :: "nat \<Rightarrow> Agent \<Rightarrow> bool" where
  "settled p a \<longleftrightarrow> sess a \<noteq> Some p \<or> started (the_proxy a p) \<or> armed a p"

text \<open>Session \<open>q\<close> is connected or over, for good: it does not need its deadline.\<close>

definition safe :: "nat \<Rightarrow> Agent \<Rightarrow> bool" where
  "safe q a \<longleftrightarrow> q < length (heap a) \<and> (started (the_proxy a q) \<or> sess a \<noteq> Some q)"

text \<open>What a program knows when it runs: sessions that exist, and sessions that are safe.\<close>

definition knows :: "nat set \<Rightarrow> nat set \<Rightarrow> Agent \<Rightarrow> bool" where
  "knows L S a \<longleftrightarrow> (\<forall>q \<in> L. q < length (heap a)) \<and> (\<forall>q \<in> S. safe q a)"

definition steady :: "Agent \<Rightarrow> Agent \<Rightarrow> bool" where
  "steady a a' \<longleftrightarrow> sess_ok a' \<and> length (heap a) \<le> length (heap a') \<and> (\<forall>q. safe q a \<longrightarrow> safe q a')"

lemma knows_steady: "knows L S a \<Longrightarrow> steady a a' \<Longrightarrow> knows L S a'"
  by (auto simp: knows_def steady_def)

text \<open>A segment that opens no session, stops no deadline and undoes no connection.\<close>

definition calm :: "Agent \<Rightarrow> Agent \<Rightarrow> bool" where
  "calm a a' \<longleftrightarrow> length (heap a') = length (heap a) \<and> (sess a' = sess a \<or> sess a' = None) \<and>
     (\<forall>q. (started (the_proxy a q) \<longrightarrow> started (the_proxy a' q)) \<and> (armed a q \<longrightarrow> armed a' q))"

lemma calm_steady: "sess_ok a \<Longrightarrow> calm a a' \<Longrightarrow> steady a a'"
  by (auto simp: calm_def steady_def sess_ok_def safe_def)

lemma calm_settled: "calm a a' \<Longrightarrow> settled p a \<Longrightarrow> settled p a'"
  by (auto simp: calm_def settled_def)

lemma calm_same [simp]: "calm a a"
  by (simp add: calm_def)

lemma calm_field: "heap a' = heap a \<Longrightarrow> sess a' = sess a \<or> sess a' = None \<Longrightarrow> calm a a'"
  by (simp add: calm_def)

lemma calm_updates [simp]: "calm a (a\<lparr>sess := None\<rparr>)" "calm a (a\<lparr>source := m\<rparr>)"
  by (simp_all add: calm_def)

lemma calm_put:
  "(started (the_proxy a q) \<longrightarrow> started (sproxy s)) \<Longrightarrow> (armed a q \<longrightarrow> connectTimer s) \<Longrightarrow> calm a (put_sess q s a)"
  by (auto simp: calm_def put_nth simp del: put_sess_simps(7,8))

lemma calm_close: "close_proxy q a = (a', es) \<Longrightarrow> calm a a'"
  by (auto simp: close_proxy_def case_prod_beta Let_def proxy_Close_def intro!: calm_put)

lemma calm_stop_ice [simp]: "calm a (stop_ice q a)"
  by (auto simp: stop_ice_def stopICE_def intro!: calm_put)

section \<open>Threads\<close>

text \<open>A program that will settle session \<open>p\<close>, whatever happens before each of its segments.\<close>

inductive resolves :: "nat \<Rightarrow> prog \<Rightarrow> bool" for p where
  resolves_Act: "(\<And>a a' es k. f a = (a', es, k) \<Longrightarrow> p < length (heap a) \<Longrightarrow> settled p a' \<or> resolves p k) \<Longrightarrow>
    resolves p (Act f)"

inductive_simps resolves_Done: "resolves p Done"
inductive_simps resolves_Act_iff: "resolves p (Act f)"

text \<open>A program each segment of which leaves a settled session settled, or goes on to settle it.\<close>

inductive orderly :: "nat set \<Rightarrow> nat set \<Rightarrow> prog \<Rightarrow> bool" where
  orderly_Done: "orderly L S Done"
| orderly_Act: "(\<And>a a' es k. sess_ok a \<Longrightarrow> knows L S a \<Longrightarrow> f a = (a', es, k) \<Longrightarrow>
      steady a a' \<and> (\<forall>p. settled p a \<longrightarrow> settled p a' \<or> resolves p k) \<and> (\<exists>L' S'. knows L' S' a' \<and> orderly L' S' k)) \<Longrightarrow>
    orderly L S (Act f)"

inductive_simps orderly_Act_iff: "orderly L S (Act f)"

lemma orderly_calm:
  assumes "\<And>a a' es k. sess_ok a \<Longrightarrow> knows L S a \<Longrightarrow> f a = (a', es, k) \<Longrightarrow> calm a a' \<and> orderly L S k"
  shows "orderly L S (Act f)"
proof (rule orderly_Act)
  fix a a' es k
  assume h: "sess_ok a" "knows L S a" "f a = (a', es, k)"
  have "calm a a'" "orderly L S k" using assms [OF h] by auto
  then show "steady a a' \<and> (\<forall>p. settled p a \<longrightarrow> settled p a' \<or> resolves p k) \<and> (\<exists>L' S'. knows L' S' a' \<and> orderly L' S' k)"
    using calm_steady [OF h(1)] calm_settled knows_steady [OF h(2)] by blast
qed

text \<open>The same, when the segment learns something.\<close>

lemma orderly_learn:
  assumes "\<And>a a' es k. sess_ok a \<Longrightarrow> knows L S a \<Longrightarrow> f a = (a', es, k) \<Longrightarrow>
      calm a a' \<and> (\<exists>L' S'. knows L' S' a' \<and> orderly L' S' k)"
  shows "orderly L S (Act f)"
  by (rule orderly_Act) (use assms calm_steady calm_settled in blast)

subsection \<open>Segments that do not touch the deadline\<close>

lemma orderly_reply: "orderly L S (reply_prog f)"
  unfolding reply_prog_def by (intro orderly_calm) (auto simp: orderly_Done)

lemma orderly_publish: "orderly L S k \<Longrightarrow> orderly L S (publish_prog w k)"
  unfolding publish_prog_def Let_def by (intro orderly_calm) (auto intro!: orderly_calm)

lemma orderly_mark: "orderly L S k \<Longrightarrow> orderly L S (mark_prog w k)"
  unfolding mark_prog_def
  by (intro orderly_calm) (auto intro!: calm_field orderly_publish split: prod.splits if_splits)

lemma orderly_probe: "(\<And>on. orderly L S (k on)) \<Longrightarrow> orderly L S (probe_prog w k)"
  unfolding probe_prog_def
  by (intro orderly_calm) (auto intro!: calm_field orderly_publish split: prod.splits if_splits)

lemma flush_keeps: "flushICE s = (s', d) \<Longrightarrow> sproxy s' = sproxy s \<and> connectTimer s' = connectTimer s"
  by (auto simp: flushICE_def Let_def split: if_splits)

lemma orderly_flush: "orderly L S k \<Longrightarrow> orderly L S (flush_prog w q k)"
  unfolding flush_prog_def
  by (intro orderly_calm) (auto dest!: flush_keeps intro!: calm_put orderly_calm split: prod.splits option.splits)

lemma orderly_start: "orderly L S k \<Longrightarrow> orderly L S (start_prog w q k)"
  unfolding start_prog_def startICE_def Let_def
  by (intro orderly_calm) (auto intro!: calm_put orderly_flush split: if_splits)

lemma orderly_queue: "orderly L S (queue_prog w q c)"
  unfolding queue_prog_def
  by (intro orderly_calm)
    (auto simp: queueICE_frame(6,9) orderly_Done intro!: calm_put orderly_flush split: prod.splits if_splits)

lemma orderly_batch: "orderly L S (batch_prog w q)"
  unfolding batch_prog_def by (intro orderly_calm) (auto simp: orderly_Done intro!: orderly_flush)

lemma orderly_monitor: "orderly L S (monitor_prog w)"
  unfolding monitor_prog_def
  by (intro orderly_calm) (auto simp: orderly_Done intro!: orderly_calm orderly_probe split: if_splits)

lemma orderly_say: "orderly L S (say_prog es)"
  by (induction es) (auto simp: orderly_Done intro!: orderly_calm)

lemma orderly_connect: "orderly L S (connect_prog w)"
  unfolding connect_prog_def
  by (intro orderly_calm) (auto simp: orderly_Done intro!: calm_field orderly_calm orderly_publish orderly_say)

lemma orderly_candidates: "orderly L S (candidates_prog w q cs)"
  by (induction cs) (auto simp: orderly_Done intro!: orderly_calm)

subsection \<open>Ends\<close>

lemma orderly_tell: "orderly L S (end_tell w q r b)"
  by (auto simp: end_tell_def Let_def orderly_Done intro!: orderly_calm orderly_publish)

lemma orderly_close: "orderly L S (end_close w q r b)"
  unfolding end_close_def
  by (intro orderly_calm) (auto intro!: orderly_tell orderly_mark intro: calm_close split: prod.splits)

text \<open>The deadline of a session that is safe may be stopped.\<close>

lemma stop_timer_steady: "sess_ok a \<Longrightarrow> steady a (stop_timer q a)"
  by (auto simp: steady_def sess_ok_def safe_def stop_timer_def put_nth simp del: put_sess_simps(7,8))

lemma stop_timer_settled: "safe q a \<or> p \<noteq> q \<Longrightarrow> settled p a \<Longrightarrow> settled p (stop_timer q a)"
  by (auto simp: settled_def safe_def stop_timer_def put_nth simp del: put_sess_simps(7,8))

lemma orderly_stop:
  assumes "q \<in> S" and "orderly L S k"
  shows "orderly L S (Act (\<lambda>a. (stop_timer q a, [], k)))"
proof (rule orderly_Act)
  fix a a' es k'
  assume h: "sess_ok a" "knows L S a" "(stop_timer q a, [], k) = (a', es, k')"
  then have "safe q a" using assms(1) by (simp add: knows_def)
  then show "steady a a' \<and> (\<forall>p. settled p a \<longrightarrow> settled p a' \<or> resolves p k') \<and>
      (\<exists>L' S'. knows L' S' a' \<and> orderly L' S' k')"
    using h stop_timer_steady stop_timer_settled assms(2) knows_steady by blast
qed

lemma orderly_rest: "q \<in> S \<Longrightarrow> orderly L S (end_rest w q r b)"
  unfolding end_rest_def by (intro orderly_stop) (auto intro!: orderly_calm orderly_close)

lemma orderly_end: "orderly L S (endSession_prog w q r b)"
  unfolding endSession_prog_def
proof (rule orderly_learn)
  fix a a' es k
  assume h: "sess_ok a" "knows L S a"
    "(if sess a \<noteq> Some q then (a, [], Done) else (a\<lparr>sess := None\<rparr>, [], end_rest w q r b)) = (a', es, k)"
  show "calm a a' \<and> (\<exists>L' S'. knows L' S' a' \<and> orderly L' S' k)"
  proof (cases "sess a = Some q")
    case True
    then have "a' = a\<lparr>sess := None\<rparr>" "k = end_rest w q r b" using h(3) by auto
    moreover from this have "knows {} {q} a'" using h(1) True by (simp add: knows_def safe_def sess_ok_def)
    moreover have "orderly {} {q} (end_rest w q r b)" by (rule orderly_rest) simp
    moreover have "calm a (a\<lparr>sess := None\<rparr>)" by (simp add: calm_field)
    ultimately show ?thesis by blast
  next
    case False
    then show ?thesis using h by (auto simp: orderly_Done)
  qed
qed

lemma end_resolves: "resolves p (endSession_prog w p r b)"
  unfolding endSession_prog_def by (intro resolves_Act) (auto simp: settled_def split: if_splits)

lemma orderly_end_proxy: "orderly L S (end_proxy_prog w q r)"
  unfolding end_proxy_prog_def
  by (intro orderly_calm)
    (auto simp: orderly_Done intro!: orderly_end orderly_calm intro: calm_close split: prod.splits)

text \<open>The deadline itself: it is spent, and ends its session.\<close>

lemma orderly_deadline: "orderly L S (deadline_prog w q)"
  unfolding deadline_prog_def
proof (rule orderly_Act)
  fix a a' es k
  assume h: "sess_ok a" "knows L S a"
    "(if armed a q then (stop_timer q a, [], endSession_prog w q ByeTimeout True) else (a, [], Done)) = (a', es, k)"
  show "steady a a' \<and> (\<forall>p. settled p a \<longrightarrow> settled p a' \<or> resolves p k) \<and> (\<exists>L' S'. knows L' S' a' \<and> orderly L' S' k)"
  proof (cases "armed a q")
    case True
    then have e: "a' = stop_timer q a" "k = endSession_prog w q ByeTimeout True" using h(3) by auto
    have "settled p a' \<or> resolves p k" if "settled p a" for p
      using that end_resolves stop_timer_settled [of q a p] by (cases "p = q") (auto simp: e)
    moreover have "knows L S a'" "steady a a'"
      using stop_timer_steady [OF h(1)] knows_steady [OF h(2)] by (simp_all add: e(1))
    ultimately show ?thesis using orderly_end e(2) by blast
  next
    case False
    then show ?thesis using h calm_steady by (auto simp: orderly_Done)
  qed
qed

lemma orderly_grace: "orderly L S (grace_prog w q)"
  unfolding grace_prog_def by (intro orderly_calm) (auto simp: orderly_Done intro!: orderly_end_proxy)

lemma orderly_connected: "q \<in> S \<Longrightarrow> orderly L S (onConnected_prog q)"
proof -
  assume q: "q \<in> S"
  have "onConnected q a = a \<or> onConnected q a = stop_timer q a" for a by (simp add: onConnected_def)
  then show ?thesis
    unfolding onConnected_prog_def using q stop_timer_steady stop_timer_settled calm_steady [OF _ calm_same]
    by (intro orderly_Act) (auto simp: orderly_Done knows_def, metis+)
qed

lemma orderly_conn: "orderly {q} S (conn_prog w q st)"
proof -
  have d: "started (stop_disconnect st wp) = started wp" for wp by (simp add: stop_disconnect_def)
  have c: "orderly {q} S (Act (\<lambda>a. let wp = the_proxy a q
      in if started wp then (a, [], Done)
         else (put_proxy q (wp\<lparr>started := True\<rparr>) a, [Peer q StartRTSP],
               if hasConnected wp then onConnected_prog q else Done)))"
  proof (rule orderly_learn)
    fix a a' es k
    assume h: "sess_ok a" "knows {q} S a"
      "(let wp = the_proxy a q
        in if started wp then (a, [], Done)
           else (put_proxy q (wp\<lparr>started := True\<rparr>) a, [Peer q StartRTSP],
                 if hasConnected wp then onConnected_prog q else Done)) = (a', es, k)"
    have q: "q < length (heap a)" using h(2) by (simp add: knows_def)
    show "calm a a' \<and> (\<exists>L' S'. knows L' S' a' \<and> orderly L' S' k)"
    proof (cases "started (the_proxy a q)")
      case True
      then show ?thesis using h by (auto simp: orderly_Done Let_def)
    next
      case False
      then have e: "a' = put_proxy q ((the_proxy a q)\<lparr>started := True\<rparr>) a"
        "k = (if hasConnected (the_proxy a q) then onConnected_prog q else Done)"
        using h(3) by (auto simp: Let_def)
      have "calm a a'" unfolding e(1) put_proxy_def by (intro calm_put) simp_all
      moreover have "knows {} {q} a'" using q by (simp add: e(1) knows_def safe_def)
      moreover have "orderly {} {q} k" using orderly_connected [of q "{q}"] by (simp add: e(2) orderly_Done)
      ultimately show ?thesis by blast
    qed
  qed
  have "orderly {q} S (case st of
           StateFailed \<Rightarrow> end_proxy_prog w q ByeICEFailed
         | StateDisconnected \<Rightarrow>
             Act (\<lambda>a. let wp = the_proxy a q
               in (if disconnectTimer wp = None \<and> \<not> closed wp
                   then put_proxy q (wp\<lparr>disconnectTimer := Some Running\<rparr>) a else a, [], Done))
         | StateConnected \<Rightarrow>
             Act (\<lambda>a. let wp = the_proxy a q
               in if started wp then (a, [], Done)
                  else (put_proxy q (wp\<lparr>started := True\<rparr>) a, [Peer q StartRTSP],
                        if hasConnected wp then onConnected_prog q else Done))
         | _ \<Rightarrow> Done)"
    using c by (cases st)
      (auto simp: orderly_Done orderly_end_proxy put_proxy_def Let_def intro!: orderly_calm calm_put)
  then show ?thesis unfolding conn_prog_def
    by (intro orderly_calm) (auto simp: orderly_Done put_proxy_def d intro!: calm_put split: if_splits)
qed

subsection \<open>Offers\<close>

lemma arm_resolves: "resolves p (arm_prog p)"
  unfolding arm_prog_def by (intro resolves_Act) (auto simp: settled_def)

lemma publish_resolves: "resolves p k \<Longrightarrow> resolves p (publish_prog w k)"
  unfolding publish_prog_def Let_def by (intro resolves_Act) (auto intro!: resolves_Act)

lemma flush_resolves: "resolves p k \<Longrightarrow> resolves p (flush_prog w q k)"
  unfolding flush_prog_def by (intro resolves_Act) (auto intro!: resolves_Act split: prod.splits option.splits)

lemma start_resolves: "resolves p k \<Longrightarrow> resolves p (start_prog w q k)"
  unfolding start_prog_def by (intro resolves_Act) (auto intro!: flush_resolves split: prod.splits if_splits)

lemma orderly_arm: "orderly L S (arm_prog q)"
  unfolding arm_prog_def by (intro orderly_calm) (auto simp: orderly_Done intro!: calm_put)

text \<open>The new session hangs until its deadline is armed, which the same thread does last.\<close>

lemma orderly_accept: "orderly L S (accept_prog w v sid' wp sdp)"
  unfolding accept_prog_def Let_def
proof (rule orderly_Act)
  fix a a' :: Agent and es k
  let ?p = "length (heap a)"
  let ?k = "Act (\<lambda>b. (b, [replay_answer b v (envelope w TypeAnswer sid' (enc_AnswerData \<lparr>answer_SDP = sdp\<rparr>))],
      publish_prog w (start_prog w ?p (arm_prog ?p))))"
  let ?s = "(fold (\<lambda>c s. fst (queueICE c s)) (early w) (NewSession sid' v wp))
      \<lparr>answer := Some (envelope w TypeAnswer sid' (enc_AnswerData \<lparr>answer_SDP = sdp\<rparr>))\<rparr>"
  assume h: "sess_ok a" "knows L S a" "(a\<lparr>heap := heap a @ [?s], sess := Some ?p\<rparr>, [], ?k) = (a', es, k)"
  then have e: "a' = a\<lparr>heap := heap a @ [?s], sess := Some ?p\<rparr>" "k = ?k" by auto
  have st: "steady a a'" by (auto simp: e(1) steady_def sess_ok_def safe_def nth_append)
  moreover have "settled p a' \<or> resolves p k" if "settled p a" for p
  proof (cases "p = ?p")
    case True
    have "resolves ?p ?k"
      by (intro resolves_Act) (auto intro!: publish_resolves start_resolves arm_resolves)
    then show ?thesis using True e(2) by simp
  next
    case False
    then show ?thesis by (simp add: e(1) settled_def)
  qed
  moreover have "orderly L S k"
    unfolding e(2) by (intro orderly_calm) (auto intro!: orderly_publish orderly_start orderly_arm)
  ultimately show "steady a a' \<and> (\<forall>p. settled p a \<longrightarrow> settled p a' \<or> resolves p k) \<and>
      (\<exists>L' S'. knows L' S' a' \<and> orderly L' S' k)"
    using knows_steady [OF h(2)] by blast
qed

lemma orderly_answer: "orderly L S (answer_prog w v sid' d)"
  unfolding answer_prog_def
  by (intro orderly_calm) (auto simp: orderly_Done intro!: orderly_accept split: prod.splits if_splits sum.splits)

lemma orderly_offer: "orderly L S (offer_prog w v env)"
proof -
  have "orderly L S (new_offer_prog w v env)"
    unfolding new_offer_prog_def available_prog_def
    by (auto intro!: orderly_calm orderly_reply orderly_probe orderly_answer split: option.split if_splits)
  then show ?thesis unfolding offer_prog_def
    by (auto simp: orderly_Done intro!: orderly_calm orderly_reply split: option.splits if_splits)
qed

lemma orderly_message: "orderly L S (message_prog w topic msg)"
proof -
  have "orderly L S (ice_prog w v env)" for v env
    unfolding ice_prog_def
    by (intro orderly_calm) (auto simp: orderly_Done intro!: orderly_candidates split: option.split)
  moreover have "orderly L S (bye_prog w v env)" for v env
    unfolding bye_prog_def by (intro orderly_calm) (auto simp: orderly_Done intro!: orderly_end split: option.split)
  moreover have "orderly L S (cmd_prog w v env)" for v env
    unfolding cmd_prog_def handleCmd_def
    by (intro orderly_calm) (auto simp: orderly_Done split: option.splits if_splits)
  ultimately have "orderly L S (envelope_prog w v env st)" for v env st
    unfolding envelope_prog_def by (auto simp: orderly_Done intro!: orderly_offer orderly_reply)
  then show ?thesis unfolding message_prog_def
    by (intro orderly_calm) (auto simp: orderly_Done split: option.split)
qed

subsection \<open>Events and the shutdown\<close>

lemma orderly_guard:
  assumes "orderly {q} S t"
  shows "orderly {} S (guard_prog q t)"
  unfolding guard_prog_def
proof (rule orderly_learn)
  fix a a' es k
  assume h: "sess_ok a" "knows {} S a" "(a, [], if q < length (heap a) then t else Done) = (a', es, k)"
  show "calm a a' \<and> (\<exists>L' S'. knows L' S' a' \<and> orderly L' S' k)"
  proof (cases "q < length (heap a)")
    case True
    then have "knows {q} S a'" "orderly {q} S k" "a' = a" using h assms by (auto simp: knows_def)
    then show ?thesis by auto
  next
    case False
    then show ?thesis using h by (auto simp: orderly_Done)
  qed
qed

lemma orderly_event: "orderly {} {} (event_prog w e)"
  by (cases e) (auto intro!: orderly_guard orderly_message orderly_queue orderly_batch orderly_conn orderly_grace
      orderly_deadline orderly_end_proxy orderly_monitor orderly_connect)

lemma orderly_farewell: "orderly L S (close_prog w)"
  unfolding close_prog_def by (intro orderly_calm) (auto simp: orderly_Done intro!: orderly_calm)

lemma orderly_shutdown: "orderly L S (Shutdown_prog w)"
  unfolding Shutdown_prog_def
  by (intro orderly_calm, auto intro!: orderly_calm orderly_farewell split: option.splits prod.splits)
    (erule calm_close)

section \<open>The pool\<close>

definition deadline_inv :: "prog list \<Rightarrow> Agent \<Rightarrow> bool" where
  "deadline_inv ts a \<longleftrightarrow> sess_ok a \<and> (\<forall>t \<in> set ts. \<exists>L S. knows L S a \<and> orderly L S t) \<and>
     (\<forall>p. settled p a \<or> list_ex (resolves p) ts)"

interpretation deadlines: pool_invariant "\<lambda>ts a _. deadline_inv ts a"
proof unfold_locales
  fix ts a i f a' es k
  assume inv: "deadline_inv ts a" and i: "i < length ts" "ts ! i = Act f" and f: "f a = (a', es, k)"
  obtain L S where "knows L S a" "orderly L S (Act f)"
    using inv i nth_mem [of i ts] by (fastforce simp: deadline_inv_def)
  moreover have ok: "sess_ok a" using inv by (simp add: deadline_inv_def)
  ultimately have st: "steady a a'" and keep: "\<forall>p. settled p a \<longrightarrow> settled p a' \<or> resolves p k"
    and k: "\<exists>L' S'. knows L' S' a' \<and> orderly L' S' k"
    using f unfolding orderly_Act_iff by blast+
  have "settled p a' \<or> list_ex (resolves p) (ts[i := k])" for p
  proof (cases "settled p a")
    case True
    then show ?thesis using keep i(1) by (metis length_list_update list_ex_length nth_list_update_eq)
  next
    case False
    then have "list_ex (resolves p) ts" using inv by (auto simp: deadline_inv_def)
    moreover have "p < length (heap a)" using False ok by (auto simp: settled_def sess_ok_def)
    then have "settled p a' \<or> resolves p k" if "resolves p (ts ! i)"
      using that f unfolding i(2) resolves_Act_iff by blast
    ultimately show ?thesis using list_ex_step [OF _ i(1)] by blast
  qed
  moreover have "\<exists>L S. knows L S a' \<and> orderly L S t" if "t \<in> set (ts[i := k])" for t
    using that k knows_steady [OF _ st] inv set_update_subset_insert [of ts i k]
    by (auto simp: deadline_inv_def) blast
  ultimately show "deadline_inv (ts[i := k]) a'" using st by (simp add: deadline_inv_def steady_def)
qed

text \<open>The expiry of a running deadline.\<close>

lemma deadline_expires:
  assumes "sess a = Some p" and "p < length (heap a)" and "armed a p"
    and "agent_step w (ConnectTimeout p) a = (a', es)"
  shows "sess a' = None" and "filter (has_type TypeBye) es =
    [send w a (viewer (the_sess a p)) TypeBye (sid (the_sess a p)) (Some (enc_ByeData \<lparr>Reason = ByeTimeout\<rparr>))]"
proof -
  let ?a = "stop_timer p a"
  have s: "sess ?a = Some p" using assms(1) by (simp add: stop_timer_def)
  obtain a2 cl where c: "close_proxy p (stop_ice p (stop_timer p (?a\<lparr>sess := None\<rparr>))) = (a2, cl)" by fastforce
  have r: "ByeTimeout \<noteq> ByeSourceLost" by (simp add: reason_defs)
  have e: "a' = a2" "es = cl @ [send_bye w a2 p ByeTimeout, publish_state w a2]"
    using assms(2-4) s c r by (auto simp: connect_timeout_def endSession_def Let_def)
  have a2: "sess a2 = None" "mqtt a2 = mqtt a" "viewer (the_sess a2 p) = viewer (the_sess a p)"
    "sid (the_sess a2 p) = sid (the_sess a p)"
    using c assms(2) by (auto simp: close_proxy_def stop_ice_def stop_timer_def stopICE_def case_prod_beta Let_def put_sess_def)
  show "sess a' = None" by (simp add: e(1) a2(1))
  show "filter (has_type TypeBye) es =
    [send w a (viewer (the_sess a p)) TypeBye (sid (the_sess a p)) (Some (enc_ByeData \<lparr>Reason = ByeTimeout\<rparr>))]"
    using close_quiet [OF c] a2 by (simp add: e(2) send_bye_def) (simp add: send_def)
qed

text \<open>
  C10: no session hangs without a connection, whatever runs at once. Let the handlers of any events (offers,
  connection states, timers, candidates, probes, reconnections) and any shutdowns run from a reachable agent under any
  schedule. When all have finished, the session that is active, if any, is either connected or has its
  deadline running; and if the deadline then expires, the session ends with one bye, for \<open>timeout\<close>.
\<close>

theorem connection_deadline:
  assumes "reachable a" and "exec sched (event_progs evs @ map Shutdown_prog ws) a = (ts, a', es)"
    and "list_all finished ts" and "sess a' = Some p"
  shows "started (the_proxy a' p) \<or>
    connectTimer (the_sess a' p) \<and>
    (\<forall>w b fs. agent_step w (ConnectTimeout p) a' = (b, fs) \<longrightarrow> sess b = None \<and>
       filter (has_type TypeBye) fs =
         [send w a' (viewer (the_sess a' p)) TypeBye (sid (the_sess a' p)) (Some (enc_ByeData \<lparr>Reason = ''timeout''\<rparr>))])"
proof -
  have "sess_ok a" using agent_invD(1) [OF reachable_inv [OF assms(1)]] by (auto simp: sess_ok_def)
  moreover have "settled q a" for q
    using reachable_guarded [OF assms(1)] by (auto simp: settled_def guarded_def)
  moreover have "\<exists>L S. knows L S a \<and> orderly L S t" if "t \<in> set (event_progs evs @ map Shutdown_prog ws)" for t
  proof -
    have "orderly {} {} t" using that orderly_event orderly_shutdown by auto
    moreover have "knows {} {} a" by (simp add: knows_def)
    ultimately show ?thesis by blast
  qed
  ultimately have "deadline_inv (event_progs evs @ map Shutdown_prog ws) a" by (simp add: deadline_inv_def)
  from deadlines.schedule [OF this assms(2)] have inv: "deadline_inv ts a'" by simp
  have "\<not> list_ex (resolves p) ts"
    using assms(3) by (auto simp: list_all_iff list_ex_iff finished_iff resolves_Done)
  then have "settled p a'" using inv by (auto simp: deadline_inv_def)
  moreover have "p < length (heap a')" using inv assms(4) by (simp add: deadline_inv_def sess_ok_def)
  ultimately show ?thesis
    using assms(4) deadline_expires [OF assms(4)] by (fastforce simp: settled_def ByeTimeout_def)
qed

theorem connection_deadline_witness:
  "\<exists>ts a' es. exec (replicate 9 0 @ replicate 6 1 @ replicate 20 0)
       (event_progs [(sample_world, sample_offer), (sample_world, PeerState 0 StateDisconnected)]) (start sample_world sample_new) = (ts, a', es) \<and>
     sess a' = Some 0 \<and> connectTimer (the_sess a' 0)"
proof -
  let ?s = "replicate 9 0 @ replicate 6 1 @ replicate 20 0 :: nat list"
  let ?ts = "event_progs [(sample_world, sample_offer), (sample_world, PeerState 0 StateDisconnected)]"
  obtain ts a' es where x: "exec ?s ?ts (start sample_world sample_new) = (ts, a', es)" by (metis prod_cases3)
  have f: "case exec ?s ?ts (start sample_world sample_new) of (ts, a', es) \<Rightarrow>
      list_all finished ts \<and> sess a' = Some 0 \<and> \<not> started (the_proxy a' 0)" by code_simp
  have x': "exec ?s (?ts @ map Shutdown_prog []) (start sample_world sample_new) = (ts, a', es)" using x by simp
  from connection_deadline [OF sample_reachable(1) x', of 0] f x show ?thesis by auto
qed

end
