(* ===== verification/Races.thy ===== *)
theory Races imports Schedules begin

text \<open>
  Schedules under which a promise of the sequential agent fails. Each theorem runs the programs of actual
  events from a reachable agent and gives the outcome of one schedule, when all of them have finished.
\<close>

lemma exec_ex:
  assumes "case exec sched ts0 a of (ts, a', es) \<Rightarrow> P ts a' es"
  shows "\<exists>is ts a' es. exec is ts0 a = (ts, a', es) \<and> P ts a' es"
  using assms by (cases "exec sched ts0 a") blast

abbreviation idle_agent :: Agent where "idle_agent \<equiv> start sample_world sample_new"

text \<open>
  C17: the retained state can stay outdated: the state published for an accepted offer is read before
  a concurrent end of the session and published after that end's own state. The agent is idle, and the
  last retained state says that it is busy; it stays so until something else is published.
\<close>

theorem retained_state_race:
  "\<exists>is ts a' es. exec is (event_progs [(sample_world, sample_offer), (sample_world, PeerState 0 StateFailed)]) idle_agent = (ts, a', es) \<and>
     list_all finished ts \<and> mode_of a' = Idle \<and>
     member (last (states a' es)) ''busy'' = Some (JBool True)"
  by (rule exec_ex [where sched = "replicate 9 0 @ replicate 20 1 @ replicate 8 0"]) code_simp


definition one_candidate :: Agent where
  "one_candidate = fst (agent_step sample_world (LocalICE 0 (Some (sample_candidate ''a''))) sample_busy)"

text \<open>
  Candidates can follow the end of candidates: the batch timer takes the buffered candidates under
  the lock and sends them outside it. If the library signals the end in between, its batch, marked as
  the last, is sent first and the candidates come after it.
\<close>

theorem ice_end_race:
  "\<exists>is ts a' es. exec is (event_progs [(sample_world, BatchTimer 0), (sample_world, LocalICE 0 None)]) one_candidate = (ts, a', es) \<and>
     list_all finished ts \<and>
     es = [send sample_world sample_busy ''viewer'' TypeICE ''session01'' (Some (enc_ICEData \<lparr>Candidates = Some [], End = True\<rparr>)),
           send sample_world sample_busy ''viewer'' TypeICE ''session01''
             (Some (enc_ICEData \<lparr>Candidates = Some [sample_candidate ''a''], End = False\<rparr>))]"
  by (rule exec_ex [where sched = "[0, 0, 0, 1, 1, 1, 1, 0]"]) code_simp

text \<open>
  C19: the camera can stay online on the broker after the agent is gone: \<open>Close\<close> publishes the offline state,
  waits for it, and then disconnects cleanly, which suppresses the Last Will. A state published in
  between, here by the end of the session, is the last one retained.
\<close>

theorem offline_race:
  "\<exists>is ts a' es. exec is (Shutdown_prog sample_world # event_progs [(sample_world, PeerState 0 StateFailed)]) sample_busy = (ts, a', es) \<and>
     list_all finished ts \<and> last es = effect.Broker (Disconnect 250) \<and>
     member (last (states a' es)) ''online'' = Some (JBool True)"
  by (rule exec_ex [where sched = "replicate 11 1 @ [0, 0, 0, 1, 0]"]) code_simp

text \<open>
  A shutdown and the end of the session can both tell the viewer: \<open>Shutdown\<close> reads the session
  and clears it in two steps without comparing. If the session ends in between, the viewer gets the bye of
  that end and a second one for \<open>shutdown\<close>.
\<close>

theorem shutdown_race:
  "\<exists>is ts a' es. exec is (Shutdown_prog sample_world # event_progs [(sample_world, ConnectTimeout 0)]) sample_busy = (ts, a', es) \<and>
     list_all finished ts \<and> filter (has_type TypeBye) es =
       [send sample_world sample_busy ''viewer'' TypeBye ''session01'' (Some (enc_ByeData \<lparr>Reason = ''timeout''\<rparr>)),
        send sample_world sample_busy ''viewer'' TypeBye ''session01'' (Some (enc_ByeData \<lparr>Reason = ''shutdown''\<rparr>))]"
  by (rule exec_ex [where sched = "[0, 0] @ replicate 12 1 @ replicate 6 0"]) code_simp

end
