(* ===== verification/AgentTopics.thy ===== *)
theory AgentTopics imports AgentLife begin

text \<open>
  Where the agent publishes: every effect on the broker stays within the camera's own topics and the
  mailboxes of valid viewers, over every handler.
\<close>

section \<open>The camera's own traffic\<close>

text \<open>
  What a camera of identifier \<open>id\<close> may ask of the broker; beyond its own topics and the viewers' mailboxes
  only the subscription that tests the broker's access rules, and its cancellation.
\<close>

fun own_action :: "string \<Rightarrow> action \<Rightarrow> bool" where
  "own_action id' (Subscribe t q) = (t = ''ocam/dev/'' @ id' @ ''/in/#'' \<or> t = acl_probe \<and> q = 0)"
| "own_action id' (Unsubscribe t) = (t = acl_probe)"
| "own_action id' (Publish t q ret j) =
     (if ret then t = ''ocam/dev/'' @ id' @ ''/state'' \<and> (\<exists>st. j = enc_State st)
      else \<exists>v. idPattern v \<and> t = ''ocam/cli/'' @ v @ ''/in/'' @ id')"
| "own_action id' (Disconnect n) = True"

definition own_effects :: "string \<Rightarrow> effect list \<Rightarrow> bool" where
  "own_effects id' es \<longleftrightarrow> list_all (\<lambda>e. case e of Broker x \<Rightarrow> own_action id' x | Peer _ _ \<Rightarrow> True) es"

text \<open>An agent of that identifier, all of whose viewers are valid.\<close>

definition camera_agent :: "string \<Rightarrow> Agent \<Rightarrow> bool" where
  "camera_agent id' a \<longleftrightarrow> mq_id (mqtt a) = id' \<and> topicIn (mqtt a) = ''ocam/dev/'' @ id' @ ''/in/'' \<and>
     topicState (mqtt a) = ''ocam/dev/'' @ id' @ ''/state'' \<and>
     (\<forall>p < length (heap a). idPattern (viewer (the_sess a p)))"

definition own_step :: "string \<Rightarrow> Agent \<Rightarrow> effect list \<Rightarrow> bool" where
  "own_step id' a' es \<longleftrightarrow> camera_agent id' a' \<and> own_effects id' es"

lemma own_effects_simps [simp]:
  "own_effects id' []" "own_effects id' (es @ fs) \<longleftrightarrow> own_effects id' es \<and> own_effects id' fs"
  "own_effects id' (Peer p pe # es) \<longleftrightarrow> own_effects id' es" "own_effects id' (map (Peer p) xs)"
  "own_effects id' (Broker x # es) \<longleftrightarrow> own_action id' x \<and> own_effects id' es"
  by (simp_all add: own_effects_def list_all_iff ball_Un)

lemma own_step_Nil [simp]: "own_step id' a [] = camera_agent id' a"
  by (simp add: own_step_def)

lemma own_publish [simp]:
  assumes "camera_agent id' a"
  shows "own_effects id' (publish_state w a # es) \<longleftrightarrow> own_effects id' es"
    and "idPattern v \<Longrightarrow> own_effects id' (send w a v t s d # es) \<longleftrightarrow> own_effects id' es"
    and "idPattern v \<Longrightarrow> own_effects id' (sendError w a v s c m r # es) \<longleftrightarrow> own_effects id' es"
    and "idPattern v \<Longrightarrow> own_effects id' (replay_answer a v j # es) \<longleftrightarrow> own_effects id' es"
  using assms
  by (auto simp: publish_state_def PublishState_def send_def sendError_def Send_def replay_answer_def publish_def
      viewer_topic_def camera_agent_def)

lemma camera_kept: "camera_agent id' a \<Longrightarrow> kept a a' \<Longrightarrow> length (heap a') = length (heap a) \<Longrightarrow> camera_agent id' a'"
  by (simp add: camera_agent_def kept_def)

lemma camera_viewer: "camera_agent id' a \<Longrightarrow> p < length (heap a) \<Longrightarrow> idPattern (viewer (the_sess a p))"
  by (simp add: camera_agent_def)

lemma camera_put: "camera_agent id' a \<Longrightarrow> viewer s = viewer (the_sess a p) \<Longrightarrow> camera_agent id' (put_sess p s a)"
  by (auto simp: camera_agent_def put_nth simp del: put_sess_simps(7,8))

lemma camera_source [simp]: "camera_agent id' (a\<lparr>source := m\<rparr>) = camera_agent id' a"
  "camera_agent id' (a\<lparr>sess := x\<rparr>) = camera_agent id' a"
  by (simp_all add: camera_agent_def)

section \<open>Handlers\<close>

lemma own_probe: "camera_agent id' a \<Longrightarrow> probe_now w a = (a', es, on) \<Longrightarrow> own_step id' a' es"
  by (auto simp: probe_now_def own_step_def Let_def split: prod.splits)

lemma own_mark: "camera_agent id' a \<Longrightarrow> mark_down w a = (a', es) \<Longrightarrow> own_step id' a' es"
  by (auto simp: mark_down_def own_step_def Let_def split: prod.splits)

lemma own_flush:
  assumes "camera_agent id' a" and "p < length (heap a)" and "flush w p a = (a', es)"
  shows "own_step id' a' es"
proof -
  obtain s d where f: "flushICE (the_sess a p) = (s, d)" by fastforce
  have "viewer s = viewer (the_sess a p)" using flushICE_frame(2) [OF f] .
  moreover have "a' = put_sess p s a" "es = send_batch w a s d" using assms(3) by (simp_all add: flush_def f)
  ultimately show ?thesis
    using assms(1) camera_viewer [OF assms(1,2)] by (auto simp: own_step_def send_batch_def camera_put split: option.split)
qed

lemma own_local_ice:
  assumes "camera_agent id' a" and "p < length (heap a)" and "local_ice w p c a = (a', es)"
  shows "own_step id' a' es"
proof -
  obtain s fl where q: "queueICE c (the_sess a p) = (s, fl)" by fastforce
  have c: "camera_agent id' (put_sess p s a)" using assms(1) queueICE_frame(2) [OF q] by (rule camera_put)
  then show ?thesis
    using assms own_flush [OF c] by (cases fl) (auto simp: local_ice_def q own_step_def)
qed

lemma own_start_ice:
  assumes "camera_agent id' a" and "p < length (heap a)" and "start_ice w p a = (a', es)"
  shows "own_step id' a' es"
proof -
  obtain s fl where q: "startICE (the_sess a p) = (s, fl)" by fastforce
  have "viewer s = viewer (the_sess a p)" using q by (auto simp: startICE_def Let_def)
  with assms(1) have c: "camera_agent id' (put_sess p s a)" by (rule camera_put)
  then show ?thesis
    using assms own_flush [OF c] by (cases fl) (auto simp: start_ice_def q own_step_def)
qed

lemma own_end:
  assumes "camera_agent id' a" and "p < length (heap a)" and "endSession w p r b a = (a', es)"
  shows "own_step id' a' es"
proof (cases "sess a = Some p")
  case False
  then show ?thesis using assms by (simp add: endSession_def own_step_def)
next
  case True
  let ?a2 = "a\<lparr>sess := None, heap := (heap a)[p := ended (the_sess a p)]\<rparr>"
  obtain a3 mk where m: "marked w r ?a2 = (a3, mk)" by fastforce
  have "viewer (ended (the_sess a p)) = viewer (the_sess a p)" by (simp add: ended_def)
  then have c2: "camera_agent id' ?a2"
    using camera_put [OF assms(1), of "ended (the_sess a p)" p] by (simp add: put_sess_def camera_agent_def)
  then have "own_step id' a3 mk" using m own_mark [of id' ?a2] by (auto simp: marked_def own_step_def split: if_splits)
  then show ?thesis
    using assms(1,3) camera_viewer [OF assms(1,2)]
    by (auto simp: endSession_eq [OF True assms(2)] m own_step_def)
qed

lemma own_stop_timer: "camera_agent id' a \<Longrightarrow> camera_agent id' (stop_timer p a)"
  by (simp add: stop_timer_def camera_put)

lemma end_length: "endSession w p r b a = (a', es) \<Longrightarrow> length (heap a') = length (heap a)"
proof (cases "sess a = Some p")
  case True
  assume h: "endSession w p r b a = (a', es)"
  obtain a2 cl where c: "close_proxy p (stop_ice p (stop_timer p (a\<lparr>sess := None\<rparr>))) = (a2, cl)" by fastforce
  obtain a3 mk where m: "marked w r a2 = (a3, mk)" by fastforce
  have "length (heap a2) = length (heap a)"
    using c by (auto simp: close_proxy_def stop_ice_def stop_timer_def case_prod_beta Let_def)
  moreover have "a' = a3" using h True c m by (auto simp: endSession_def marked_def Let_def split: if_splits prod.splits)
  ultimately show "length (heap a') = length (heap a)" using marked_frame(2) [OF m] by simp
qed (simp add: endSession_def)

lemma length_heap:
  "probe_now w a = (a', es, on) \<Longrightarrow> length (heap a') = length (heap a)"
  "endSession w p r b a = (a', es) \<Longrightarrow> length (heap a') = length (heap a)"
  "length (heap (onConnected q a)) = length (heap a)"
  using probe_now_frame(2) end_length by (auto simp: onConnected_def stop_timer_def)

lemma own_callbacks:
  "camera_agent id' a \<Longrightarrow> p < length (heap a) \<Longrightarrow> callbacks w p xs a = (a', es) \<Longrightarrow> own_step id' a' es"
proof (induction xs arbitrary: a es rule: list.induct)
  case (Cons x xs)
  consider (conn) "x = OnConnected" | (over) r where "x = OnEnd r"
    | (peer) "\<And>b. callbacks w p (x # xs) b = (let (a1, fs) = callbacks w p xs b in (a1, Peer p x # fs))"
    by (cases x) auto
  then show ?case
  proof cases
    case conn
    have "camera_agent id' (onConnected p a)" using Cons.prems(1) by (simp add: onConnected_def own_stop_timer)
    then show ?thesis using Cons conn length_heap(3) by simp
  next
    case (over r)
    obtain a1 fs where e: "endSession w p r True a = (a1, fs)" by fastforce
    obtain a2 gs where c: "callbacks w p xs a1 = (a2, gs)" by fastforce
    have o: "own_step id' a1 fs" by (rule own_end [OF Cons.prems(1,2) e])
    moreover have "p < length (heap a1)" using Cons.prems(2) length_heap(2) [OF e] by simp
    ultimately have "own_step id' a2 gs" using Cons.IH [of a1 gs] c Cons.prems(3) over e by (simp add: own_step_def Let_def)
    moreover have "a' = a2" "es = fs @ gs" using Cons.prems(3) over e c by simp_all
    ultimately show ?thesis using o by (simp add: own_step_def)
  next
    case peer
    obtain a1 fs where c: "callbacks w p xs a = (a1, fs)" by fastforce
    have eq: "a' = a1" "es = Peer p x # fs" using Cons.prems(3) peer [of a] c by simp_all
    then show ?thesis using Cons.IH [of a fs] Cons.prems c by (simp add: own_step_def)
  qed
qed (simp add: own_step_def)

lemma own_run_proxy:
  assumes "camera_agent id' a" and "p < length (heap a)" and "run_proxy w p f a = (a', es)"
  shows "own_step id' a' es"
proof -
  obtain wp xs where f: "f (sproxy (the_sess a p)) = (wp, xs)" by fastforce
  let ?a1 = "put_sess p ((the_sess a p)\<lparr>sproxy := wp\<rparr>) a"
  have "camera_agent id' ?a1" using assms(1) by (intro camera_put) simp_all
  moreover have "callbacks w p xs ?a1 = (a', es)" using assms(3) by (simp add: run_proxy_def f)
  ultimately show ?thesis using own_callbacks assms(2) by simp
qed

section \<open>Messages\<close>

lemma own_start_accepted:
  assumes "camera_agent id' a" and "idPattern v" and "viewer s = v" and "a' = a\<lparr>heap := heap a @ [s], sess := x\<rparr>"
  shows "camera_agent id' a'"
  using assms by (auto simp: camera_agent_def nth_append less_Suc_eq)

lemma queue_viewer: "viewer (fold (\<lambda>c s. fst (queueICE c s)) cs s) = viewer s"
proof (induction cs arbitrary: s)
  case (Cons c cs)
  have "viewer (fst (queueICE c s)) = viewer s" using queueICE_frame(2) [of c s] by (metis prod.collapse)
  then show ?case using Cons by simp
qed simp

lemma own_accept:
  assumes "camera_agent id' a" and "idPattern from'" and "accept_offer w from' sid' wp es sdp a = (a', fs)"
  shows "own_step id' a' fs"
proof -
  let ?p = "length (heap a)"
  define s1 where "s1 = (fold (\<lambda>c s. fst (queueICE c s)) (early w) (NewSession sid' from' wp))\<lparr>answer :=
      Some (envelope w TypeAnswer sid' (enc_AnswerData \<lparr>answer_SDP = sdp\<rparr>))\<rparr>"
  define a1 where "a1 = a\<lparr>heap := heap a @ [s1], sess := Some ?p\<rparr>"
  obtain a2 ice where i: "start_ice w ?p a1 = (a2, ice)" by fastforce
  have v: "viewer s1 = from'" by (simp add: s1_def queue_viewer NewSession_def)
  have c1: "camera_agent id' a1" by (rule own_start_accepted [OF assms(1,2) v a1_def])
  moreover have "?p < length (heap a1)" by (simp add: a1_def)
  ultimately have o: "own_step id' a2 ice" using own_start_ice i by blast
  have "a' = put_sess ?p ((the_sess a2 ?p)\<lparr>connectTimer := True\<rparr>) a2"
    and "fs = map (Peer ?p) es @ [replay_answer a1 from' (envelope w TypeAnswer sid' (enc_AnswerData \<lparr>answer_SDP = sdp\<rparr>)),
      publish_state w a1] @ ice"
    using assms(3) i by (simp_all add: accept_offer_def Let_def s1_def [symmetric] a1_def [symmetric])
  then show ?thesis using o c1 assms(2) by (simp add: own_step_def camera_put)
qed

lemma own_answer:
  assumes "camera_agent id' a" and "idPattern from'" and "answer_offer w from' sid' d a = (a', fs)"
  shows "own_step id' a' fs"
proof -
  obtain video audio where c: "codecs a = (video, audio)" by fastforce
  obtain wp es r where h: "HandleOffer (lib w) (offer_SDP d) (want_audio d) (new_proxy a video audio) = (wp, es, r)"
    by (metis prod_cases3)
  show ?thesis
    using assms own_accept [OF assms(1,2), of w sid' wp es]
    by (cases "video = ''''"; cases r) (auto simp: answer_offer_def c h own_step_def Let_def)
qed

lemma own_offer:
  assumes "camera_agent id' a" and "idPattern from'" and "handleOffer w from' env a = (a', fs)"
  shows "own_step id' a' fs"
proof -
  obtain a1 es on where av: "available w a = (a1, es, on)" by (metis prod_cases3)
  have s: "own_step id' a1 es"
    using av assms(1) own_probe by (auto simp: available_def own_step_def split: if_splits)
  then have c: "camera_agent id' a1" by (simp add: own_step_def)
  have "own_step id' (fst (answer_offer w from' (SID env) d a1)) (es @ snd (answer_offer w from' (SID env) d a1))" for d
    using own_answer [OF c assms(2) surjective_pairing, of w "SID env" d] s by (simp add: own_step_def)
  then show ?thesis
    using assms s av
    by (cases on) (auto simp: handleOffer_def own_step_def Let_def case_prod_beta split: if_splits option.splits)
qed

lemma own_envelope:
  assumes "camera_agent id' a" and "idPattern from'" and "agent_inv a" and "handleEnvelope w from' env st a = (a', fs)"
  shows "own_step id' a' fs"
proof -
  have "own_step id' a' fs" if "handleBye w from' env a = (a', fs)"
  proof (cases "owned a from' env")
    case None
    then show ?thesis using that assms(1) by (simp add: handleBye_def own_step_def)
  next
    case (Some p)
    then have "sess a = Some p" by (auto simp: owned_def split: option.splits if_splits)
    then have "p < length (heap a)" using assms(3) by (simp add: agent_inv_def)
    then show ?thesis using that assms(1) own_end Some by (simp add: handleBye_def)
  qed
  moreover have "own_step id' a' fs" if "handleICE w from' env a = (a', fs)"
    using that assms(1) by (auto simp: handleICE_def own_step_def split: option.splits)
  moreover have "own_step id' a' fs" if "handleCmd w from' env a = (a', fs)"
    using that assms(1,2) by (auto simp: handleCmd_def own_step_def split: option.splits if_splits)
  ultimately show ?thesis
    using assms own_offer by (auto simp: handleEnvelope_def own_step_def split: if_splits)
qed

section \<open>Every event\<close>

lemma own_agent_step:
  assumes "camera_agent id' a" and "agent_inv a" and "agent_step w e a = (a', es)"
  shows "own_step id' a' es"
proof (cases e)
  case (Message t m)
  then have s: "on_message w t m a = (a', es)" using assms(3) by simp
  show ?thesis
  proof (cases "handleMessage (mqtt a) (now w) t m")
    case None
    then show ?thesis using s assms(1) by (simp add: on_message_def own_step_def)
  next
    case (Some x)
    then obtain who env st where x: "handleMessage (mqtt a) (now w) t m = Some (who, env, st)" by (metis prod_cases3)
    then have "handleEnvelope w who env st a = (a', es)" using s by (simp add: on_message_def)
    moreover have "idPattern who" using x by (simp add: handleMessage_iff)
    ultimately show ?thesis using own_envelope [OF assms(1) _ assms(2)] by blast
  qed
next
  case Connected
  then show ?thesis
    using assms by (auto simp: on_connect_def onConnect_def own_step_def camera_agent_def PublishState_def publish_def
        selfTestACL_def split: sub_result.split)
next
  case MonitorTick
  then show ?thesis using assms own_probe by (auto simp: monitor_tick_def split: if_splits prod.splits)
next
  case (ConnectTimeout p)
  have "camera_agent id' (stop_timer p a)" using assms(1) by (rule own_stop_timer)
  moreover have "length (heap (stop_timer p a)) = length (heap a)" by (simp add: stop_timer_def)
  ultimately show ?thesis
    using ConnectTimeout assms own_end [of id' "stop_timer p a" p] by (auto simp: connect_timeout_def split: if_splits)
next
  case (BatchTimer p)
  then show ?thesis using assms own_flush by (auto simp: batch_timer_def split: if_splits)
qed (use assms own_local_ice own_run_proxy in \<open>auto split: if_splits\<close>)

interpretation contained: run_relation
    "\<lambda>a a' es. agent_inv a \<and> camera_agent id' a \<longrightarrow> agent_inv a' \<and> own_step id' a' es" for id'
proof unfold_locales
  fix a b c es fs
  assume "agent_inv a \<and> camera_agent id' a \<longrightarrow> agent_inv b \<and> own_step id' b es"
    and "agent_inv b \<and> camera_agent id' b \<longrightarrow> agent_inv c \<and> own_step id' c fs"
  then show "agent_inv a \<and> camera_agent id' a \<longrightarrow> agent_inv c \<and> own_step id' c (es @ fs)"
    by (auto simp: own_step_def)
next
  fix w e a a' es
  assume "agent_step w e a = (a', es)"
  then show "agent_inv a \<and> camera_agent id' a \<longrightarrow> agent_inv a' \<and> own_step id' a' es"
    using own_agent_step counted.event by blast
qed simp

lemma own_agent_run:
  "camera_agent id' a \<Longrightarrow> agent_inv a \<Longrightarrow> agent_run evs a = (a', es) \<Longrightarrow> own_step id' a' es"
  using contained.run by blast

lemma own_close:
  assumes "camera_agent id' a"
  shows "own_effects id' (map effect.Broker (mqtt_Close (mqtt a) (state_of a t) on))"
  using assms by (auto simp: mqtt_Close_def camera_agent_def)

lemma own_shutdown:
  assumes "camera_agent id' a" and "agent_inv a" and "Shutdown w a = (a', es)"
  shows "own_step id' a' es"
proof (cases "sess a")
  case None
  define b where "b = a\<lparr>source := Source.Stop (source a)\<rparr>"
  have "camera_agent id' b" using assms(1) by (simp add: b_def)
  moreover have "sess b = None" using None by (simp add: b_def)
  ultimately show ?thesis
    using assms(3) own_close by (auto simp: Shutdown_def own_step_def b_def [symmetric] Let_def)
next
  case (Some p)
  then have p: "p < length (heap a)" using assms(2) by (simp add: agent_inv_def)
  let ?b = "stop_ice p (a\<lparr>source := Source.Stop (source a), sess := None\<rparr>)"
  obtain a1 cl where c: "close_proxy p ?b = (a1, cl)" by fastforce
  have "camera_agent id' ?b" using assms(1) by (simp add: stop_ice_def camera_put stopICE_def)
  then have c1: "camera_agent id' a1" and o: "own_effects id' cl"
    using c by (auto simp: close_proxy_def camera_put case_prod_beta Let_def)
  have "length (heap a1) = length (heap a)" using c by (auto simp: close_proxy_def stop_ice_def case_prod_beta Let_def)
  then have "idPattern (viewer (the_sess a1 p))" using camera_viewer [OF c1] p by simp
  then show ?thesis
    using assms(3) Some c c1 o own_close [OF c1] by (auto simp: Shutdown_def own_step_def send_bye_def Let_def)
qed

section \<open>From the configuration\<close>

lemma camera_start:
  assumes "loadConfig readFile decode file = Inr c" and "NewAgent rd vp t c = Inr (a, opts)"
  shows "camera_agent (ID c) (start w a)"
proof -
  have u: "idPattern (Username (cfg_MQTT c))"
    using loadConfig_Inr [OF assms(1)] Validate_ok_iff by blast
  then have trim: "TrimSpace (Username (cfg_MQTT c)) = Username (cfg_MQTT c)" by (rule idPattern_trimmed)
  obtain m where m: "NewMqttClient rd vp (cfg_MQTT c) (state_of (blank_agent c) t) = Inr (m, opts)" "mqtt a = m"
    using assms(2) by (auto simp: NewAgent_def split: sum.splits)
  show ?thesis
    using NewMqttClient_client [OF m(1)] start_idle [OF assms(2)] m(2) trim by (simp add: camera_agent_def ID_def)
qed

lemma publishes_contained_parts:
  assumes "loadConfig readFile decode file = Inr c" and "NewAgent rd vp t c = Inr (a, opts)"
    and "agent_run evs (start w a) = (a', es)"
  shows "own_effects (ID c) es" and "own_effects (ID c) (snd (Shutdown w' a'))"
proof -
  have o: "own_step (ID c) a' es"
    by (rule own_agent_run [OF camera_start [OF assms(1,2)] start_inv [OF assms(2)] assms(3)])
  have "agent_inv a'" using agent_run_inv [OF start_inv [OF assms(2)] assms(3)] by simp
  then show "own_effects (ID c) es" "own_effects (ID c) (snd (Shutdown w' a'))"
    using o own_shutdown [OF _ _ surjective_pairing] by (auto simp: own_step_def)
qed

text \<open>
  C15: whatever viewers send, an agent with a configuration \<open>loadConfig\<close> accepts stays within its own
  corner of the broker, over any run and its shutdown: it subscribes to its own mailbox only, but for the
  subscription that tests the broker's access rules (and its cancellation), what it
  retains is a state on its own state topic, and everything else it publishes goes, not retained, to the mailbox
  of a viewer with a valid identifier, under its own name.
\<close>

theorem publishes_contained:
  assumes "loadConfig readFile decode file = Inr c" and "NewAgent rd vp t c = Inr (a, opts)"
    and "agent_run evs (start w a) = (a', es)"
  shows "own_effects (ID c) es \<and> own_effects (ID c) (snd (Shutdown w' a'))"
  by (intro conjI) (rule publishes_contained_parts [OF assms])+

lemma sample_loadConfig: "loadConfig (\<lambda>_. Inr '''') (\<lambda>_. Inr sample_cfg) ''config.yaml'' = Inr sample_cfg"
  by code_simp

theorem publishes_contained_witness:
  "own_effects ''cam-1'' (snd (agent_run [(sample_world, Connected), (sample_world, sample_offer)] (start sample_world sample_new)))"
proof -
  obtain opts where n: "NewAgent (\<lambda>_. Inr '''') (\<lambda>_. True) oct_2026 sample_cfg = Inr (sample_new, opts)"
    by (rule sample_NewAgent)
  have "ID sample_cfg = ''cam-1''" by code_simp
  then show ?thesis using publishes_contained [OF sample_loadConfig n surjective_pairing] by metis
qed

end
