(* ===== verification/Program.thy ===== *)
theory Program imports AgentTopics begin

text \<open>
  \<open>logger.go\<close> and \<open>main.go\<close>: the log lines, and the life of the process, from the configuration file
  to the shutdown, which composes the operations of all the other theories.
\<close>

section \<open>The logger\<close>

text \<open>
  \<open>DebugEnabled\<close> is an argument; the message is the one \<open>fmt.Sprintf\<close> has formatted. A line is what
  \<open>log.Printf\<close> writes after its date and time: it ends with a newline of its own unless the text
  already has one. The result is the lines written.
\<close>

definition LevelInfo :: string where "LevelInfo = ''INFO''"
definition LevelDebug :: string where "LevelDebug = ''DEBUG''"
definition LevelError :: string where "LevelError = ''ERROR''"
definition LevelWarn :: string where "LevelWarn = ''WARN''"

definition newline :: byte where "newline = CHR 0x0A"

definition log_line :: "string \<Rightarrow> string \<Rightarrow> string \<Rightarrow> string" where
  "log_line level module message =
     (let s = ''['' @ level @ ''] ['' @ module @ ''] - '' @ message
      in if last s = newline then s else s @ [newline])"

definition logMessage :: "bool \<Rightarrow> string \<Rightarrow> string \<Rightarrow> string \<Rightarrow> string list" where
  "logMessage debug level module message =
     (if level = LevelDebug \<and> \<not> debug then [] else [log_line level module message])"

definition Info :: "bool \<Rightarrow> string \<Rightarrow> string \<Rightarrow> string list" where
  "Info debug module message = logMessage debug LevelInfo module message"

definition Debug :: "bool \<Rightarrow> string \<Rightarrow> string \<Rightarrow> string list" where
  "Debug debug module message = logMessage debug LevelDebug module message"

definition Error :: "bool \<Rightarrow> string \<Rightarrow> string \<Rightarrow> string list" where
  "Error debug module message = logMessage debug LevelError module message"

definition Warn :: "bool \<Rightarrow> string \<Rightarrow> string \<Rightarrow> string list" where
  "Warn debug module message = logMessage debug LevelWarn module message"

text \<open>The line of \<open>Fatal\<close>, after which \<open>log.Fatalf\<close> exits with status 1.\<close>

definition Fatal :: "string \<Rightarrow> string \<Rightarrow> string list" where
  "Fatal module message = [log_line LevelError module message]"

lemma logged:
  "Info debug m s = [log_line ''INFO'' m s]" "Warn debug m s = [log_line ''WARN'' m s]"
  "Error debug m s = [log_line ''ERROR'' m s]" "Debug debug m s = (if debug then [log_line ''DEBUG'' m s] else [])"
  by (simp_all add: Info_def Warn_def Error_def Debug_def logMessage_def LevelInfo_def LevelWarn_def LevelError_def
      LevelDebug_def)

lemma log_line_ends: "last (log_line l m s) = newline"
  by (simp add: log_line_def Let_def)

section \<open>The process\<close>

text \<open>
  What the process meets: the flags, the file system and the decoders, the instants and worlds of its
  stages, the result of the connection to the broker, and the events until the signal. \<open>quote\<close> is
  what the verb \<open>%q\<close> prints of a string.
\<close>

record process =
  configFile :: string
  debug :: bool
  readFile :: "string \<Rightarrow> string res"
  decode :: "string \<Rightarrow> Config res"
  validPEM :: "string \<Rightarrow> bool"
  quote :: "string \<Rightarrow> string"
  built :: time
  launched :: world
  connection :: "unit res"
  events :: "(world \<times> event) list"
  signalled :: world

datatype outcome = Exit1 | Panic string | Return Agent

definition fails :: "go_exit \<Rightarrow> string \<Rightarrow> string list \<Rightarrow> outcome \<times> string list \<times> effect list" where
  "fails x what lines =
     (case x of Failed err \<Rightarrow> (Exit1, lines @ Fatal ''MAIN'' (what @ err), [])
      | Panicked m \<Rightarrow> (Panic m, lines, []))"

text \<open>\<open>Run\<close>: the probe, the call-back, and the connection; the monitor then runs (the ticks of the events).\<close>

definition Run :: "process \<Rightarrow> Agent \<Rightarrow> Agent res" where
  "Run e a =
     (let a1 = start (launched e) a
      in case connection e of Inl err \<Rightarrow> Inl err | Inr _ \<Rightarrow> Inr a1)"

text \<open>\<open>main\<close>: how the process ends, its own log lines, and its effects.\<close>

definition main :: "process \<Rightarrow> outcome \<times> string list \<times> effect list" where
  "main e =
     (let l1 = Info (debug e) ''MAIN''
                 (''Starting oCamera agent '' @ AgentVersion @ '' (protocol v'' @ Itoa ProtocolVersion @ '')...'')
      in case loadConfig (readFile e) (decode e) (configFile e) of
           Inl x \<Rightarrow> fails x ''Error while loading config: '' l1
         | Inr config \<Rightarrow>
             (let l2 = l1 @ Info (debug e) ''MAIN''
                              (''Camera id='' @ ID config @ '' name='' @ quote e (dev_Name (cfg_Device config)))
              in case NewAgent (readFile e) (validPEM e) (built e) config of
                   Inl x \<Rightarrow> fails x ''Error while creating agent: '' l2
                 | Inr (agent, _) \<Rightarrow>
                     (case Run e agent of
                        Inl x \<Rightarrow> fails x ''MQTT connection error: '' l2
                      | Inr a0 \<Rightarrow>
                          (case agent_run (events e) a0 of
                             (a1, es) \<Rightarrow>
                               (case Shutdown (signalled e) a1 of
                                  (a2, fs) \<Rightarrow>
                                    (Return a2, l2 @ Info (debug e) ''MAIN'' ''Closing app...'', es @ fs))))))"

lemma fails_cases:
  "fails x what lines = (out, log, es) \<Longrightarrow>
     es = [] \<and> (\<forall>a. out \<noteq> Return a) \<and> (out = Exit1 \<longrightarrow> (\<exists>err. x = Failed err \<and> log = lines @ Fatal ''MAIN'' (what @ err)))"
  by (auto simp: fails_def split: go_exit.splits)

text \<open>The process that returns from \<open>main\<close> has run all the stages.\<close>

lemma main_Return:
  assumes "main e = (Return a2, log, es)"
  obtains c a opts a1 fs gs where
    "loadConfig (readFile e) (decode e) (configFile e) = Inr c"
    "NewAgent (readFile e) (validPEM e) (built e) c = Inr (a, opts)" "connection e = Inr ()"
    "agent_run (events e) (start (launched e) a) = (a1, fs)"
    "Shutdown (signalled e) a1 = (a2, gs)" "es = fs @ gs"
proof -
  obtain c where c: "loadConfig (readFile e) (decode e) (configFile e) = Inr c"
    using assms fails_cases by (cases "loadConfig (readFile e) (decode e) (configFile e)") (fastforce simp: main_def Let_def)+
  obtain a opts where n: "NewAgent (readFile e) (validPEM e) (built e) c = Inr (a, opts)"
    using assms fails_cases c
    by (cases "NewAgent (readFile e) (validPEM e) (built e) c") (fastforce simp: main_def Let_def)+
  have r: "connection e = Inr ()"
    using assms fails_cases c n by (cases "connection e") (fastforce simp: main_def Run_def Let_def)+
  then show ?thesis
    using assms c n that by (auto simp: main_def Run_def Let_def split: prod.splits)
qed

section \<open>What the process guarantees\<close>

text \<open>The stages before the events, as one computation that stops at its first error.\<close>

definition startup :: "process \<Rightarrow> Agent res" where
  "startup e =
     bind_res (loadConfig (readFile e) (decode e) (configFile e)) (\<lambda>c.
     bind_res (NewAgent (readFile e) (validPEM e) (built e) c) (\<lambda>(a, _). Run e a))"

lemma main_fails:
  assumes "startup e = Inl x"
  shows "\<exists>what lines. main e = fails x what lines"
proof (cases "loadConfig (readFile e) (decode e) (configFile e)")
  case (Inl y)
  then show ?thesis using assms by (simp add: startup_def main_def Let_def) blast
next
  case c: (Inr c)
  show ?thesis
  proof (cases "NewAgent (readFile e) (validPEM e) (built e) c")
    case (Inl y)
    then show ?thesis using assms c by (simp add: startup_def main_def Let_def) blast
  next
    case (Inr ao)
    then show ?thesis using assms c by (cases ao) (simp add: startup_def main_def Let_def, blast)
  qed
qed

lemma main_runs:
  assumes "startup e = Inr a0"
  shows "\<exists>lines. main e =
    (case agent_run (events e) a0 of (a1, fs) \<Rightarrow>
       (case Shutdown (signalled e) a1 of (a2, gs) \<Rightarrow> (Return a2, lines, fs @ gs)))"
proof -
  obtain c where c: "loadConfig (readFile e) (decode e) (configFile e) = Inr c"
    using assms by (cases "loadConfig (readFile e) (decode e) (configFile e)") (simp_all add: startup_def)
  obtain a opts where "NewAgent (readFile e) (validPEM e) (built e) c = Inr (a, opts)" "Run e a = Inr a0"
    using assms c by (cases "NewAgent (readFile e) (validPEM e) (built e) c") (auto simp: startup_def)
  then show ?thesis using c by (simp add: main_def Let_def, intro exI) (rule refl)
qed

text \<open>
  The process starts its agent only when every stage of the start succeeds, and stops at the first that
  does not: an error makes it exit with status 1, its last line being the error line of \<open>main\<close>, a
  panic ends it as a panic, and in both cases nothing was asked of the broker or of a viewer; otherwise it
  runs the events, shuts down and returns.
\<close>

theorem main_stages:
  "case startup e of
     Inl (Failed err) \<Rightarrow>
       (case main e of (out, log, es) \<Rightarrow>
          out = Exit1 \<and> es = [] \<and> (\<exists>stage. last log = log_line ''ERROR'' ''MAIN'' (stage @ err)))
   | Inl (Panicked m) \<Rightarrow> (case main e of (out, log, es) \<Rightarrow> out = Panic m \<and> es = [])
   | Inr a0 \<Rightarrow>
       (case agent_run (events e) a0 of (a1, fs) \<Rightarrow>
          (case Shutdown (signalled e) a1 of (a2, gs) \<Rightarrow>
             (case main e of (out, log, es) \<Rightarrow> out = Return a2 \<and> es = fs @ gs)))"
proof (cases "startup e")
  case (Inl x)
  then obtain what lines where "main e = fails x what lines" using main_fails by blast
  then show ?thesis using Inl by (cases x) (auto simp: fails_def Fatal_def LevelError_def)
next
  case (Inr a0)
  then obtain lines where "main e =
      (case agent_run (events e) a0 of (a1, fs) \<Rightarrow>
         (case Shutdown (signalled e) a1 of (a2, gs) \<Rightarrow> (Return a2, lines, fs @ gs)))"
    using main_runs by blast
  then show ?thesis using Inr by (simp split: prod.splits)
qed

lemma main_cleans_up_parts:
  assumes "loadConfig (readFile e) (decode e) (configFile e) = Inr c" and "main e = (Return a, log, es)"
  shows "pcs es = 0" and "p < length (heap a) \<Longrightarrow> closed (sproxy (the_sess a p))"
    and "own_effects (ID c) es" and "last es = effect.Broker (Disconnect 250)"
    and "mqttOpen (signalled e) \<Longrightarrow> \<exists>st. states a es \<noteq> [] \<and> last (states a es) = enc_State st \<and> \<not> Online st"
proof -
  obtain c' a0 opts a1 fs gs where m:
    "loadConfig (readFile e) (decode e) (configFile e) = Inr c'"
    "NewAgent (readFile e) (validPEM e) (built e) c' = Inr (a0, opts)" "connection e = Inr ()"
    "agent_run (events e) (start (launched e) a0) = (a1, fs)" "Shutdown (signalled e) a1 = (a, gs)" "es = fs @ gs"
    by (rule main_Return [OF assms(2)])
  have c: "c' = c" using assms(1) m(1) by simp
  have r: "reachable a1" by (rule reachable_run [OF reach_start [OF m(2)] m(4)])
  have inv: "agent_inv a1" by (rule reachable_inv [OF r])
  note s = shutdown_clean_parts [OF r m(5)]
  show "pcs es = 0" using s(2) one_peer_connection_parts(1) [OF m(2,4)] by (simp add: m(6))
  show "p < length (heap a) \<Longrightarrow> closed (sproxy (the_sess a p))" using s(3) .
  show "last es = effect.Broker (Disconnect 250)"
  proof -
    have "gs \<noteq> []" using m(5) by (auto simp: Shutdown_def mqtt_Close_def Let_def split: option.splits prod.splits)
    then show ?thesis using s(6) s(7) by (simp add: m(6))
  qed
  have run: "own_step (ID c) a1 fs"
    using own_agent_run [OF camera_start [OF m(1,2)] start_inv [OF m(2)] m(4)] c by simp
  then have sh: "own_step (ID c) a gs" using own_shutdown [OF _ inv m(5)] by (simp add: own_step_def)
  show "own_effects (ID c) es" using run sh by (simp add: own_step_def m(6))
  have "states a es = states a1 es"
    using run sh by (intro states_mqtt) (simp add: own_step_def camera_agent_def)
  then show "mqttOpen (signalled e) \<Longrightarrow> \<exists>st. states a es \<noteq> [] \<and> last (states a es) = enc_State st \<and> \<not> Online st"
    using s(6) by (auto simp: m(6))
qed

text \<open>
  C14: a process that returns from \<open>main\<close>, whose handlers ran one after the other and none during the
  shutdown, has cleaned up after itself, whatever events it handled: every PeerConnection it opened has
  been closed and every session is closed; all it asked of the broker is within the topics of the
  configured camera and the mailboxes of its viewers, but for the one subscription by which it tests the
  broker's access rules; the last thing it did is to disconnect; and if the broker was connected at the
  signal, the state retained last is offline. (A handler that runs during the shutdown can undo this:
  \<open>offer_shutdown_race\<close> and \<open>offline_race\<close> in \<open>Races\<close>.)
\<close>

theorem main_cleans_up:
  assumes "loadConfig (readFile e) (decode e) (configFile e) = Inr c" and "main e = (Return a, log, es)"
  shows "pcs es = 0 \<and> (p < length (heap a) \<longrightarrow> closed (sproxy (the_sess a p))) \<and> own_effects (ID c) es \<and>
    last es = effect.Broker (Disconnect 250) \<and>
    (mqttOpen (signalled e) \<longrightarrow> (\<exists>st. states a es \<noteq> [] \<and> last (states a es) = enc_State st \<and> \<not> Online st))"
  by (intro conjI impI) (rule main_cleans_up_parts [OF assms]; assumption?)+

definition sample_process :: process where
  "sample_process =
     \<lparr>configFile = ''config.yaml'', debug = False, readFile = (\<lambda>_. Inr ''''), decode = (\<lambda>_. Inr sample_cfg),
      validPEM = (\<lambda>_. True), quote = (\<lambda>s. s), built = oct_2026, launched = sample_world, connection = Inr (),
      events = [(sample_world, Connected), (sample_world, sample_offer)], signalled = sample_world\<rparr>"

theorem main_cleans_up_witness:
  "pcs (snd (snd (main sample_process))) = 0 \<and> own_effects ''cam-1'' (snd (snd (main sample_process)))"
proof -
  obtain opts where n: "NewAgent (\<lambda>_. Inr '''') (\<lambda>_. True) oct_2026 sample_cfg = Inr (sample_new, opts)"
    by (rule sample_NewAgent)
  have c: "loadConfig (readFile sample_process) (decode sample_process) (configFile sample_process) = Inr sample_cfg"
    using sample_loadConfig by (simp add: sample_process_def)
  have "startup sample_process = Inr (start sample_world sample_new)"
    using n by (simp add: startup_def c) (simp add: sample_process_def Run_def)
  from main_runs [OF this] obtain a log es where m: "main sample_process = (Return a, log, es)"
    by (auto simp: case_prod_beta)
  have "ID sample_cfg = ''cam-1''" by code_simp
  then show ?thesis using main_cleans_up [OF c m] m by simp
qed

end
