(* ===== verification/Spec2Isabelle.thy ===== *)
theory Spec2Isabelle imports Prelude GoStrings GoJson GoCrypto Source Config Protocol Sdp RtspWire RtspResponse RtspSession Mqtt WebRtc Media Buffers Agent AgentSpec AgentRuns AgentProps AgentLife Timed Interleave Schedules IceBatches Deadlines Races AgentTopics Program begin

text \<open>
  A model and correctness proofs of the oCamera agent (package \<open>main\<close> under \<open>src/\<close>).

  \<^bold>\<open>The program.\<close> The agent makes one RTSP camera reachable for viewers. It keeps a connection to an MQTT
  broker (\<open>mqtt.go\<close>), on which it publishes the retained state of the camera and receives messages
  in its mailbox \<open>ocam/dev/ID/in/VIEWER\<close>. A viewer's \<open>offer\<close> opens a session, one at a time
  (\<open>agent.go\<close>): the agent answers through a PeerConnection of the WebRTC library (\<open>webrtc.go\<close>), sends its ICE
  candidates in batches, and once connected forwards the RTP packets it reads from the camera
  (\<open>rtsp_client.go\<close>). A session ends by the viewer's \<open>bye\<close>, the connection deadline, a failed
  connection, the loss of the stream, or a shutdown. A monitor probes the camera (\<open>source.go\<close>).
  \<open>config.go\<close> reads the configuration, \<open>protocol.go\<close> holds the messages, \<open>logger.go\<close> and
  \<open>main.go\<close> the log and the process.

  \<^bold>\<open>The theories.\<close> Names of records, operations and constants are those of the source, with a prefix
  where HOL or another structure uses the name (\<open>proxy_Close\<close>, \<open>mqtt_Close\<close>, \<open>cfg_MQTT\<close>).
  \<^item> \<open>Prelude\<close>: how a Go call leaves (a value, an \<open>error\<close>, a panic), bounds-checked slices, nil slices, 64-bit
    wrap-around and saturation. \<open>GoStrings\<close>, \<open>GoJson\<close>, \<open>GoCrypto\<close>: what the program uses of \<open>strings\<close>,
    \<open>strconv\<close>, \<open>encoding/json\<close>, \<open>crypto/md5\<close>, \<open>encoding/hex\<close> and \<open>encoding/base64\<close>. \<open>GoJson\<close> states the contract
    of an encoder and a decoder as the locale \<open>json_codec\<close>, interpreted in \<open>Protocol\<close> on the messages.
  \<^item> \<open>Config\<close> (\<open>config.go\<close>): defaults and validation; what \<open>loadConfig\<close> accepts is well formed.
  \<^item> \<open>Protocol\<close> (\<open>protocol.go\<close>): the messages, their encoding and decoding, and \<open>tsAcceptable\<close> with the
    saturated \<open>int64\<close> difference of \<open>time.Time.Sub\<close>.
  \<^item> \<open>Source\<close> (\<open>source.go\<close>): the monitor and the codec selection. The locale \<open>change_notifier\<close> says
    what a client that follows the call-backs knows; the monitor is an interpretation of it.
  \<^item> \<open>Sdp\<close> (\<open>rtsp_client.go\<close> from line 102, and from 579): the text parsers, with the panics of slice expressions as results.
  \<^item> \<open>RtspWire\<close>: the buffered reader over chunks and deadlines, and \<open>handleTCPPackets\<close>. The locale
    \<open>byte_source\<close> is what the client needs of a reader; the model of \<open>bufio.Reader\<close> interprets it.
    \<open>RtspResponse\<close>: \<open>readRTSPResponse\<close>. \<open>RtspSession\<close>: requests, Digest and Basic authentication, \<open>ProbeSource\<close>,
    \<open>Client\<close>, the read loop and \<open>Close\<close>.
  \<^item> \<open>Mqtt\<close> (\<open>mqtt.go\<close>): the options of the connection, publishing, and \<open>handleMessage\<close>, the gate through
    which every message passes.
  \<^item> \<open>WebRtc\<close> (\<open>webrtc.go\<close>): the proxy of a session (offer, connection states, forwarding, the stream and its
    reconnections, the diagnostics of the selected pair), and the abstract connection it refines.
  \<^item> \<open>Media\<close>: the queue between the read loop and the consumer, the two in any order: the path from the camera's
    bytes to the tracks. \<open>Buffers\<close>: the arrays behind the packets, in an explicit store with the pool all clients
    share, refine packets that are values (\<open>packets_not_shared\<close>).
  \<^item> \<open>Agent\<close> (\<open>agent.go\<close>): state and handlers. A session is an index into \<open>heap\<close>, since the code compares
    sessions by pointer and call-backs of an ended one still run. An event of the agent is a message, a call-back
    or a timer; \<open>agent_step\<close> maps it to the new agent and the effects in order.
  \<^item> \<open>AgentSpec\<close>: the abstract machine \<open>Idle\<close> / \<open>Busy sid viewer\<close>, the invariant of sessions and PeerConnections,
    and \<open>agent_step_ok\<close>: every handler keeps the invariant and moves as the machine. \<open>AgentRuns\<close>:
    reachability, runs, and what is retained. \<open>AgentProps\<close>, \<open>AgentLife\<close>, \<open>AgentTopics\<close>: the properties
    of whole runs of events handled one after the other (refinement, isolation of the active session, replies to
    offers, retained state, shutdown, topics).
  \<^item> \<open>Timed\<close>: the same events at instants. A timer that runs fires when it is due and at most \<open>\<delta>\<close> later; the locale
    \<open>bounded_wait\<close> turns "a timer runs while Q holds" into a bound on how long Q holds, and is interpreted for the
    three timers of a session. \<open>time_diverges\<close>: the condition on the timers stops no run.
  \<^item> \<open>Interleave\<close>: every event of the agent as a program of segments, each what runs between two lock operations. Alone,
    the program is the handler of \<open>Agent\<close>. The locale \<open>pool_invariant\<close> carries an invariant of a pool of programs
    over any schedule. \<open>Schedules\<close>: the end of a session is atomic whatever else runs. \<open>Deadlines\<close>: no session is left
    without connection or running deadline, whatever else runs. \<open>IceBatches\<close>: the batches of candidates under every
    interleaving of the critical sections of \<open>iceMu\<close> and the sendings, which come after them; its steps are the segments
    of \<open>Interleave\<close>. \<open>Races\<close>: six schedules of actual events show promises that do not survive interleaving.
  \<^item> \<open>Program\<close> (\<open>logger.go\<close>, \<open>main.go\<close>): the log lines, and \<open>main\<close>, which composes all of the above.

  \<^bold>\<open>One handler at a time, or several at once.\<close> The program runs its handlers, call-backs and timers on goroutines of
  their own. Theorems about \<open>agent_step\<close>, \<open>agent_run\<close>, \<open>Shutdown\<close> and \<open>main\<close> (\<open>AgentSpec\<close>, \<open>AgentRuns\<close>, \<open>AgentProps\<close>,
  \<open>AgentLife\<close>, \<open>AgentTopics\<close>, \<open>Timed\<close>, \<open>Program\<close>) are about events handled one after the other, the shutdown with no handler
  beside it. There \<open>accept_offer\<close> arms the deadline, \<open>flush\<close> sends its batch and \<open>Shutdown\<close> clears the session without
  another handler in between, which the code does not ensure. Theorems about \<open>exec\<close> (\<open>Schedules\<close>, \<open>Deadlines\<close>) and
  \<open>batch_run\<close> (\<open>IceBatches\<close>) hold under every schedule of the segments, and the theorems of \<open>Races\<close> say what is lost:
  the retained state, the deadline of a connected session, the order of candidates, the offline state and the bye of a
  shutdown, and the session of an offer accepted during a shutdown.

  \<^bold>\<open>What is a parameter.\<close> Code outside the repository is an argument or a list of what it does: the YAML
  decoder, \<open>url.Parse\<close>, the PEM check, the dialer and the bytes and deadlines of the network, the MQTT library
  (a list of actions, and what it delivers), the WebRTC library (the record \<open>pion\<close> of its answers, a list of
  calls), the broker's answer to the self-test of its access rules, the clock, the results of probes inside the monitor, and the printing of \<open>%q\<close>. Theorems quantify over all of them; the
  witnesses instantiate them with concrete functions.

  \<^bold>\<open>Loops.\<close> The loops that read one response recurse on the bytes left to read, the reconnection loop of
  \<open>StartRTSPStream\<close> on the attempts left (five, \<open>maxAttempts\<close>), the parsers on the text; none needs fuel.
  \<open>RtspRtpLoop\<close> runs as long as the camera streams: it is run for a given number of turns, and \<open>RtspRtpLoop_safe\<close> says
  that it goes on while whole frames arrive and when it must have ended.

  \<^bold>\<open>Not modelled.\<close>
  \<^item> The text the agent logs while it runs, and the counters, durations and start times only used there; the date
    and time of a log line.
  \<^item> The pools of request builders and of dimensions, which do not leave one function, and \<open>Connect\<close> of \<open>mqtt.go\<close> beyond its result.
  \<^item> Non-ASCII letters and spaces in \<open>ToLower\<close>, \<open>TrimSpace\<close> and \<open>Fields\<close>. A payload is the JSON value its text denotes;
    the encoder's replacement of bytes that are not UTF-8 is modelled (\<open>to_valid\<close> in \<open>GoJson\<close>).
  \<^item> Schedules between a session's stream and its proxy, except where \<open>WebRtc\<close> treats a \<open>Close\<close> during the dial.
  \<^item> The tests (\<open>agent_test.go\<close>), the build script and the release workflow.
\<close>

end
